(* ===== verification/Prelude.thy ===== *)
theory Prelude
  imports Main "HOL-Library.Word" "HOL-Library.Signed_Division" "HOL-Library.Monad_Syntax"
begin

text \<open>
  Shared ground of the development: the conventions for failure, the checked integer
  arithmetic of the C compiler builtins, and the bit and list lemmas the component
  theories use.

  An operation of the library is a HOL function that threads the state it works on. Its
  result type is an \<open>option\<close> wherever the C code contains an \<open>assert\<close>, an unreachable
  point, a pointer dereference or a loop whose end depends on the kernel: \<open>None\<close> says that
  the run is stopped by a failed assertion, is undefined, or never returns. An errno return
  is a value of the sum \<open>errno + 'a\<close>, \<open>Inl\<close> holding the non-zero error code.
\<close>

unbundle bit_operations_syntax

named_theorems wf_simps \<open>unfolding rules of the well-formedness predicates\<close>
named_theorems op_defs \<open>defining equations of small operations\<close>

section \<open>Assertions and errors\<close>

type_synonym errno = int
type_synonym addr = nat

definition c_assert :: "bool \<Rightarrow> unit option" where
  "c_assert b = (if b then Some () else None)"

lemma c_assert_simps [simp]:
  "c_assert True = Some ()" "c_assert False = None"
  by (simp_all add: c_assert_def)

lemma c_assert_eq_Some [simp]: "c_assert b = Some u \<longleftrightarrow> b"
  by (simp add: c_assert_def)

lemma bind_c_assert_Some [simp]: "b \<Longrightarrow> c_assert b \<bind> f = f ()"
  by simp

lemma bind_c_assert_eq_Some:
  "c_assert b \<bind> f = Some x \<longleftrightarrow> b \<and> f () = Some x"
  by (cases b) simp_all

section \<open>Checked arithmetic\<close>

text \<open>\<open>__builtin_add_overflow\<close> and its kin on a 64-bit signed destination: \<open>None\<close> is overflow.\<close>

definition INT64_MAX :: int where "INT64_MAX = 2 ^ 63 - 1"
definition INT64_MIN :: int where "INT64_MIN = - (2 ^ 63)"
definition INT32_MAX :: int where "INT32_MAX = 2 ^ 31 - 1"
definition INT32_MIN :: int where "INT32_MIN = - (2 ^ 31)"

lemmas int_limits = INT64_MAX_def INT64_MIN_def INT32_MAX_def INT32_MIN_def

definition in_int64 :: "int \<Rightarrow> bool" where
  "in_int64 i \<longleftrightarrow> INT64_MIN \<le> i \<and> i \<le> INT64_MAX"

definition in_int32 :: "int \<Rightarrow> bool" where
  "in_int32 i \<longleftrightarrow> INT32_MIN \<le> i \<and> i \<le> INT32_MAX"

definition fits64 :: "int \<Rightarrow> int option" where
  "fits64 i = (if in_int64 i then Some i else None)"

definition fits32 :: "int \<Rightarrow> int option" where
  "fits32 i = (if in_int32 i then Some i else None)"

lemma fits64_eq_Some [simp]: "fits64 i = Some j \<longleftrightarrow> in_int64 i \<and> j = i"
  by (auto simp: fits64_def)

lemma fits64_eq_None [simp]: "fits64 i = None \<longleftrightarrow> \<not> in_int64 i"
  by (simp add: fits64_def)

lemma fits32_eq_Some [simp]: "fits32 i = Some j \<longleftrightarrow> in_int32 i \<and> j = i"
  by (auto simp: fits32_def)

lemma fits32_eq_None [simp]: "fits32 i = None \<longleftrightarrow> \<not> in_int32 i"
  by (simp add: fits32_def)

lemma sdiv_nonneg [simp]: "0 \<le> a \<Longrightarrow> 0 < b \<Longrightarrow> (a :: int) sdiv b = a div b"
  by (simp add: signed_divide_int_def sgn_if)

lemma smod_nonneg [simp]: "0 \<le> a \<Longrightarrow> 0 < b \<Longrightarrow> (a :: int) smod b = a mod b"
  by (cases "a = 0") (simp_all add: signed_modulo_int_def sgn_if)

section \<open>Bit masks\<close>

text \<open>\<open>has_bits w m\<close> is C's test \<open>(w & m) != 0\<close>.\<close>

definition has_bits :: "'a::len word \<Rightarrow> 'a word \<Rightarrow> bool" where
  "has_bits w m \<longleftrightarrow> w AND m \<noteq> 0"

definition subset_bits :: "'a::len word \<Rightarrow> 'a word \<Rightarrow> bool" where
  "subset_bits w m \<longleftrightarrow> w AND NOT m = 0"

lemma has_bits_iff: "has_bits w m \<longleftrightarrow> (\<exists>i. bit w i \<and> bit m i)"
  by (auto simp: has_bits_def bit_eq_iff bit_and_iff dest: bit_imp_le_length)

lemma subset_bits_iff: "subset_bits w m \<longleftrightarrow> (\<forall>i. bit w i \<longrightarrow> bit m i)"
  by (auto simp: subset_bits_def bit_eq_iff bit_and_iff bit_not_iff dest: bit_imp_le_length)

lemma has_bits_zero [simp]: "\<not> has_bits 0 m" "\<not> has_bits w 0"
  by (simp_all add: has_bits_def)

lemma has_bits_or: "has_bits (a OR b) m \<longleftrightarrow> has_bits a m \<or> has_bits b m"
  by (auto simp: has_bits_iff bit_or_iff)

lemma subset_bits_and [intro]: "subset_bits (w AND m) m"
  by (simp add: subset_bits_iff bit_and_iff)

lemma subset_bits_trans: "subset_bits a b \<Longrightarrow> subset_bits b c \<Longrightarrow> subset_bits a c"
  by (auto simp: subset_bits_iff)

lemma subset_bits_refl [simp]: "subset_bits a a"
  by (simp add: subset_bits_iff)

lemma subset_bits_0 [simp]: "subset_bits 0 m"
  by (simp add: subset_bits_def)

lemma subset_bits_or_left [simp]: "subset_bits (a OR b) m \<longleftrightarrow> subset_bits a m \<and> subset_bits b m"
  by (auto simp: subset_bits_iff bit_or_iff)

lemma subset_bits_orI: "subset_bits a m \<or> subset_bits a n \<Longrightarrow> subset_bits a (m OR n)"
  by (auto simp: subset_bits_iff bit_or_iff)

lemma subset_bits_and_left: "subset_bits a m \<or> subset_bits b m \<Longrightarrow> subset_bits (a AND b) m"
  by (auto simp: subset_bits_iff bit_and_iff)

lemma subset_bits_zero_right: "subset_bits a 0 \<longleftrightarrow> a = 0"
  by (simp add: subset_bits_def)

lemma subset_bits_nonzero: "subset_bits a b \<Longrightarrow> a \<noteq> 0 \<Longrightarrow> b \<noteq> 0"
  by (auto simp: subset_bits_def)

lemma has_bits_subset: "has_bits a m \<Longrightarrow> subset_bits a b \<Longrightarrow> has_bits b m"
  by (auto simp: has_bits_iff subset_bits_iff)

lemma subset_bits_has_bits: "subset_bits a m \<Longrightarrow> a \<noteq> 0 \<Longrightarrow> has_bits a m"
  by (auto simp: subset_bits_iff has_bits_iff bit_eq_iff)

lemma has_bits_mask_or: "has_bits a (m OR n) \<longleftrightarrow> has_bits a m \<or> has_bits a n"
  by (auto simp: has_bits_iff bit_or_iff)

lemma subset_bits_and_right [simp]: "subset_bits a (b AND c) \<longleftrightarrow> subset_bits a b \<and> subset_bits a c"
  by (auto simp: subset_bits_iff bit_and_iff)

lemma subset_bits_minus: "subset_bits a b \<Longrightarrow> \<not> has_bits m a \<Longrightarrow> subset_bits a ((b AND NOT m) OR c)"
  by (auto simp: subset_bits_iff has_bits_iff bit_and_iff bit_or_iff bit_not_iff dest: bit_imp_le_length)

lemma has_bits_minus:
  assumes "has_bits a q" "\<not> has_bits m q"
  shows "has_bits ((a AND NOT m) OR c) q"
proof -
  obtain i where "bit a i" "bit q i" "\<not> bit m i" using assms by (auto simp: has_bits_iff)
  then show ?thesis
    using bit_imp_le_length [of a i]
    by (auto simp: has_bits_iff bit_or_iff bit_and_iff bit_not_iff intro!: exI [of _ i])
qed

lemma subset_bits_and_eq: "subset_bits a m \<Longrightarrow> a AND m = a"
  by (rule bit_eqI) (auto simp: bit_and_iff subset_bits_iff)

lemma subset_bits_3:
  assumes "subset_bits (e :: 32 word) 3"
  shows "e = 0 \<or> e = 1 \<or> e = 2 \<or> e = 3"
proof -
  have "e = take_bit 2 e"
    using subset_bits_and_eq [OF assms] by (simp add: take_bit_eq_mask mask_eq_exp_minus_1)
  then have "unat e = take_bit 2 (unat e)" by (metis unsigned_take_bit_eq)
  then have "unat e < 4" using take_bit_nat_less_exp [of 2 "unat e"] by simp
  then have "unat e = 0 \<or> unat e = 1 \<or> unat e = 2 \<or> unat e = 3" by linarith
  then show ?thesis by (auto simp: word_unat_eq_iff)
qed

end
