(* ===== verification/Platform.thy ===== *)
theory Platform
  imports Prelude
begin

text \<open>
  The outside of the library: error codes, the flag constants of \<open>sys/epoll.h\<close>,
  \<open>poll.h\<close> and \<open>sys/event.h\<close>, the structures that cross the system call boundary, and
  the record \<open>platform\<close> of everything the sources call but do not define.

  Every kernel or C library function is a field of \<open>platform\<close> that takes a world \<open>'w\<close> and
  returns the new one; nothing about it is fixed here. A call that can fail returns
  \<open>errno + 'a\<close>. The fields \<open>cfg_...\<close> are the preprocessor symbols the sources test, so one
  model covers the builds for the supported systems; \<open>cfg_stack_kevent\<close> is the indeterminate content
  of a \<open>struct kevent\<close> that the code leaves uninitialised. The fields \<open>vt_...\<close> are the function
  pointers of \<open>struct pollable_desc_vtable\<close>.
\<close>

section \<open>Error codes\<close>

abbreviation ENOENT :: errno where "ENOENT \<equiv> 2"
abbreviation EINTR :: errno where "EINTR \<equiv> 4"
abbreviation EBADF :: errno where "EBADF \<equiv> 9"
abbreviation ENOMEM :: errno where "ENOMEM \<equiv> 12"
abbreviation EFAULT :: errno where "EFAULT \<equiv> 14"
abbreviation EEXIST :: errno where "EEXIST \<equiv> 17"
abbreviation ENODEV :: errno where "ENODEV \<equiv> 19"
abbreviation EINVAL :: errno where "EINVAL \<equiv> 22"
abbreviation ENOTTY :: errno where "ENOTTY \<equiv> 25"
abbreviation EPIPE :: errno where "EPIPE \<equiv> 32"
abbreviation EAGAIN :: errno where "EAGAIN \<equiv> 35"
abbreviation EWOULDBLOCK :: errno where "EWOULDBLOCK \<equiv> EAGAIN"
abbreviation EOVERFLOW :: errno where "EOVERFLOW \<equiv> 84"
abbreviation ECANCELED :: errno where "ECANCELED \<equiv> 85"

section \<open>Event and poll masks\<close>

abbreviation EPOLLIN :: "32 word" where "EPOLLIN \<equiv> 0x001"
abbreviation EPOLLPRI :: "32 word" where "EPOLLPRI \<equiv> 0x002"
abbreviation EPOLLOUT :: "32 word" where "EPOLLOUT \<equiv> 0x004"
abbreviation EPOLLERR :: "32 word" where "EPOLLERR \<equiv> 0x008"
abbreviation EPOLLHUP :: "32 word" where "EPOLLHUP \<equiv> 0x010"
abbreviation EPOLLONESHOT :: "32 word" where "EPOLLONESHOT \<equiv> 0x40000000"
abbreviation EPOLLET :: "32 word" where "EPOLLET \<equiv> 0x80000000"

abbreviation POLLIN :: "16 word" where "POLLIN \<equiv> 0x001"
abbreviation POLLPRI :: "16 word" where "POLLPRI \<equiv> 0x002"
abbreviation POLLOUT :: "16 word" where "POLLOUT \<equiv> 0x004"
abbreviation POLLERR :: "16 word" where "POLLERR \<equiv> 0x008"
abbreviation POLLHUP :: "16 word" where "POLLHUP \<equiv> 0x010"
abbreviation POLLNVAL :: "16 word" where "POLLNVAL \<equiv> 0x020"

abbreviation EV_ADD :: "16 word" where "EV_ADD \<equiv> 0x0001"
abbreviation EV_DELETE :: "16 word" where "EV_DELETE \<equiv> 0x0002"
abbreviation EV_ONESHOT :: "16 word" where "EV_ONESHOT \<equiv> 0x0010"
abbreviation EV_CLEAR :: "16 word" where "EV_CLEAR \<equiv> 0x0020"
abbreviation EV_RECEIPT :: "16 word" where "EV_RECEIPT \<equiv> 0x0040"
abbreviation EV_ERROR :: "16 word" where "EV_ERROR \<equiv> 0x4000"
abbreviation EV_EOF :: "16 word" where "EV_EOF \<equiv> 0x8000"

abbreviation NOTE_TRIGGER :: "32 word" where "NOTE_TRIGGER \<equiv> 0x01000000"
abbreviation NOTE_OOB :: "32 word" where "NOTE_OOB \<equiv> 0x2"
abbreviation NOTE_USECONDS :: "32 word" where "NOTE_USECONDS \<equiv> 0x8"

abbreviation O_RDONLY :: "32 word" where "O_RDONLY \<equiv> 0"
abbreviation O_WRONLY :: "32 word" where "O_WRONLY \<equiv> 1"
abbreviation O_RDWR :: "32 word" where "O_RDWR \<equiv> 2"
abbreviation O_ACCMODE :: "32 word" where "O_ACCMODE \<equiv> 3"
abbreviation O_NONBLOCK :: "32 word" where "O_NONBLOCK \<equiv> 4"
abbreviation O_CLOEXEC :: "32 word" where "O_CLOEXEC \<equiv> 0x100000"

section \<open>Structures\<close>

record timespec =
  tv_sec :: int
  tv_nsec :: int

record itimerspec =
  it_interval :: timespec
  it_value :: timespec

abbreviation ts_zero :: timespec where
  "ts_zero \<equiv> \<lparr>tv_sec = 0, tv_nsec = 0\<rparr>"

datatype clockid = CLOCK_REALTIME | CLOCK_MONOTONIC

datatype kfilter =
    EVFILT_READ | EVFILT_WRITE | EVFILT_EXCEPT | EVFILT_USER | EVFILT_TIMER | EVFILT_SIGNAL

record kevent =
  kev_ident :: int
  kev_filter :: kfilter
  kev_flags :: "16 word"
  kev_fflags :: "32 word"
  kev_data :: int
  kev_udata :: "addr option"

definition EV_SET ::
  "int \<Rightarrow> kfilter \<Rightarrow> 16 word \<Rightarrow> 32 word \<Rightarrow> int \<Rightarrow> addr option \<Rightarrow> kevent" where
  "EV_SET i f fl ff d u =
     \<lparr>kev_ident = i, kev_filter = f, kev_flags = fl, kev_fflags = ff, kev_data = d, kev_udata = u\<rparr>"

lemma EV_SET_sel [simp]:
  "kev_ident (EV_SET i f fl ff d u) = i"
  "kev_filter (EV_SET i f fl ff d u) = f"
  "kev_flags (EV_SET i f fl ff d u) = fl"
  "kev_fflags (EV_SET i f fl ff d u) = ff"
  "kev_data (EV_SET i f fl ff d u) = d"
  "kev_udata (EV_SET i f fl ff d u) = u"
  by (simp_all add: EV_SET_def)

record pollfd =
  pfd_fd :: int
  pfd_events :: "16 word"
  pfd_revents :: "16 word"

text \<open>The part of \<open>st_mode\<close> that \<open>S_ISFIFO\<close> and \<open>S_ISSOCK\<close> read.\<close>

datatype file_type = S_IFIFO | S_IFSOCK | S_IFOTHER

text \<open>
  A signal set has bit \<open>i - 1\<close> set for signal \<open>i\<close>, as \<open>sigset_t\<close> of the BSDs. Of \<open>struct sigaction\<close> and
  \<open>siginfo_t\<close>, the members the sources use, at their widths.
\<close>

type_synonym sigset = "128 word"

datatype sighandler = SIG_DFL | SIG_IGN | SIG_EMPTY_HANDLER | SIG_OTHER_HANDLER

record sigaction =
  sa_flags :: "32 word"
  sa_handler :: sighandler

abbreviation SA_RESTART :: "32 word" where "SA_RESTART \<equiv> 0x0002"
abbreviation SA_SIGINFO :: "32 word" where "SA_SIGINFO \<equiv> 0x0040"

record siginfo =
  si_signo :: "32 word"
  si_code :: "32 word"
  si_errno :: "32 word"
  si_pid :: "32 word"
  si_uid :: "32 word"
  si_addr :: "64 word"
  si_status :: "32 word"
  si_band :: "64 word"
  si_value_int :: "32 word"
  si_value_ptr :: "64 word"
  si_trapno :: "32 word"
  si_timerid :: "32 word"
  si_overrun :: "32 word"
  si_mqd :: "32 word"
  si_utime :: "64 word"
  si_stime :: "64 word"
  si_fd :: "32 word"

abbreviation SI_MESGQ :: "32 word" where "SI_MESGQ \<equiv> 0x10005"

definition zero_siginfo :: siginfo where
  "zero_siginfo =
     \<lparr>si_signo = 0, si_code = 0, si_errno = 0, si_pid = 0, si_uid = 0, si_addr = 0, si_status = 0, si_band = 0,
      si_value_int = 0, si_value_ptr = 0, si_trapno = 0, si_timerid = 0, si_overrun = 0, si_mqd = 0,
      si_utime = 0, si_stime = 0, si_fd = 0\<rparr>"

abbreviation F_GETFD :: int where "F_GETFD \<equiv> 1"
abbreviation F_SETFD :: int where "F_SETFD \<equiv> 2"
abbreviation F_GETFL :: int where "F_GETFL \<equiv> 3"
abbreviation F_SETFL :: int where "F_SETFL \<equiv> 4"
abbreviation FD_CLOEXEC :: "32 word" where "FD_CLOEXEC \<equiv> 1"

section \<open>System calls and build configuration\<close>

record 'w platform =
  cfg_EVFILT_USER :: bool
  cfg_EVFILT_EXCEPT :: bool
  cfg_NOTE_USECONDS :: bool
  cfg_APPLE :: bool
  cfg_FreeBSD :: bool
  cfg_NetBSD :: bool
  cfg_DragonFly :: bool
  cfg_quirky_timer :: bool
  cfg_quirk_timer_zero :: bool
  cfg_data32 :: bool
  cfg_CLK_TCK :: int
  cfg_POLLRDHUP :: "32 word option"
  cfg_PIPE_BUF :: int
  cfg_SIZE_MAX :: nat
  cfg_sizeof_kevent :: nat
  cfg_sizeof_pollfd :: nat
  cfg_stack_kevent :: kevent
  cfg_OpenBSD :: bool
  cfg_SIG_MAXSIG :: nat
  cfg_NSIG :: nat
  cfg_default_ignored :: "nat list"
  cfg_SIGKILL :: nat
  cfg_SIGSTOP :: nat
  cfg_sizeof_ptr :: nat
  cfg_sizeof_epoll_event :: nat
  sys_kevent :: "int \<Rightarrow> kevent list \<Rightarrow> nat \<Rightarrow> 'w \<Rightarrow> (errno + kevent list) \<times> 'w"
  sys_kqueue1 :: "32 word \<Rightarrow> 'w \<Rightarrow> (errno + int) \<times> 'w"
  sys_poll :: "pollfd list \<Rightarrow> int \<Rightarrow> 'w \<Rightarrow> (errno + int \<times> pollfd list) \<times> 'w"
  sys_read :: "int \<Rightarrow> nat \<Rightarrow> 'w \<Rightarrow> (errno + 8 word list) \<times> 'w"
  sys_write :: "int \<Rightarrow> 8 word list \<Rightarrow> 'w \<Rightarrow> (errno + nat) \<times> 'w"
  sys_close :: "int \<Rightarrow> 'w \<Rightarrow> (errno + unit) \<times> 'w"
  sys_pipe2 :: "32 word \<Rightarrow> 'w \<Rightarrow> (errno + int \<times> int) \<times> 'w"
  sys_fcntl_getfl :: "int \<Rightarrow> 'w \<Rightarrow> (errno + 32 word) \<times> 'w"
  sys_ioctl_fionread :: "int \<Rightarrow> 'w \<Rightarrow> (errno + unit) \<times> 'w"
  sys_ioctl_fionbio :: "int \<Rightarrow> bool \<Rightarrow> 'w \<Rightarrow> (errno + unit) \<times> 'w"
  sys_cap_rights :: "int \<Rightarrow> 'w \<Rightarrow> (bool \<times> bool) option \<times> 'w"
  sys_fstat :: "int \<Rightarrow> 'w \<Rightarrow> (errno + file_type) \<times> 'w"
  sys_clock_gettime :: "clockid \<Rightarrow> 'w \<Rightarrow> (errno + timespec) \<times> 'w"
  sys_boottime :: "'w \<Rightarrow> (errno + int \<times> int) \<times> 'w"
  sys_basetime :: "'w \<Rightarrow> (errno + timespec) \<times> 'w"
  sys_malloc :: "'w \<Rightarrow> (errno + addr) \<times> 'w"
  sys_realloc :: "nat \<Rightarrow> 'w \<Rightarrow> (errno + unit) \<times> 'w"
  sys_free :: "addr \<Rightarrow> 'w \<Rightarrow> 'w"
  sys_mutex_init :: "'w \<Rightarrow> (errno + unit) \<times> 'w"
  sys_mutex_destroy :: "'w \<Rightarrow> (errno + unit) \<times> 'w"
  sys_cond_init :: "'w \<Rightarrow> (errno + unit) \<times> 'w"
  sys_cond_destroy :: "'w \<Rightarrow> (errno + unit) \<times> 'w"
  sys_cond_wait :: "nat \<Rightarrow> 'w \<Rightarrow> nat \<times> 'w"
  sys_sem_init :: "'w \<Rightarrow> (errno + unit) \<times> 'w"
  sys_sem_destroy :: "'w \<Rightarrow> 'w"
  sys_sem_wait :: "'w \<Rightarrow> (errno + unit) \<times> 'w"
  sys_kqueue :: "'w \<Rightarrow> (errno + int) \<times> 'w"
  sys_pipe :: "'w \<Rightarrow> (errno + int \<times> int) \<times> 'w"
  sys_socket :: "int \<Rightarrow> 32 word \<Rightarrow> int \<Rightarrow> 'w \<Rightarrow> (errno + int) \<times> 'w"
  sys_socketpair :: "int \<Rightarrow> 32 word \<Rightarrow> int \<Rightarrow> 'w \<Rightarrow> (errno + int \<times> int) \<times> 'w"
  sys_fcntl :: "int \<Rightarrow> int \<Rightarrow> 32 word \<Rightarrow> 'w \<Rightarrow> (errno + 32 word) \<times> 'w"
  sys_ppoll :: "pollfd list \<Rightarrow> timespec option \<Rightarrow> sigset option \<Rightarrow> 'w \<Rightarrow> (errno + int \<times> pollfd list) \<times> 'w"
  sys_sigpending :: "'w \<Rightarrow> (errno + sigset) \<times> 'w"
  sys_sigaction :: "nat \<Rightarrow> 'w \<Rightarrow> (errno + sigaction) \<times> 'w"
  sys_sigaction_set :: "nat \<Rightarrow> sigaction \<Rightarrow> 'w \<Rightarrow> 'w"
  sys_sigtimedwait :: "sigset \<Rightarrow> 'w \<Rightarrow> (errno + 32 word \<times> siginfo) \<times> 'w"
  sys_sigwait :: "sigset \<Rightarrow> 'w \<Rightarrow> (errno + 32 word) \<times> 'w"
  sys_thrsigdivert :: "sigset \<Rightarrow> 'w \<Rightarrow> (errno + 32 word) \<times> 'w"
  sys_sigfillset :: "'w \<Rightarrow> (errno + sigset) \<times> 'w"
  sys_sigmask_get :: "'w \<Rightarrow> (errno + sigset) \<times> 'w"
  sys_sigmask_block :: "sigset \<Rightarrow> 'w \<Rightarrow> (errno + sigset) \<times> 'w"
  sys_sigmask_set :: "sigset \<Rightarrow> 'w \<Rightarrow> sigset \<times> 'w"
  sys_thread_create :: "64 word \<Rightarrow> timespec \<Rightarrow> 'w \<Rightarrow> (errno + unit) \<times> 'w"
  sys_nanosleep :: "timespec \<Rightarrow> 'w \<Rightarrow> 'w"
  vt_poll_fun :: "addr \<Rightarrow> int \<Rightarrow> 32 word option \<Rightarrow> 'w \<Rightarrow> 32 word option \<times> 'w"
  vt_ref_fun :: "addr \<Rightarrow> 'w \<Rightarrow> 'w"
  vt_unref_fun :: "addr \<Rightarrow> 'w \<Rightarrow> 'w"

text \<open>
  A platform on which every call succeeds and nothing is ever ready: the starting point of
  the concrete platforms that witnesses evaluate. A change submitted with \<open>EV_RECEIPT\<close> comes
  back with \<open>EV_ERROR\<close> set and \<open>data = 0\<close>, as kqueue(2) documents.
\<close>

definition receipt_ok :: "kevent \<Rightarrow> kevent" where
  "receipt_ok k = k\<lparr>kev_flags := kev_flags k OR EV_ERROR, kev_data := 0\<rparr>"

definition quiet_platform :: "'w platform" where
  "quiet_platform =
     \<lparr>cfg_EVFILT_USER = True, cfg_EVFILT_EXCEPT = False, cfg_NOTE_USECONDS = True,
      cfg_APPLE = False, cfg_FreeBSD = True, cfg_NetBSD = False, cfg_DragonFly = False,
      cfg_quirky_timer = False, cfg_quirk_timer_zero = False, cfg_data32 = False, cfg_CLK_TCK = 100,
      cfg_POLLRDHUP = Some 0x4000, cfg_PIPE_BUF = 512,
      cfg_SIZE_MAX = 18446744073709551615, cfg_sizeof_kevent = 64, cfg_sizeof_pollfd = 8,
      cfg_stack_kevent = EV_SET 0 EVFILT_READ 0 0 0 None,
      cfg_OpenBSD = False,
      cfg_SIG_MAXSIG = 128,
      cfg_NSIG = 32,
      cfg_default_ignored = [20, 16, 19, 23, 28, 29],
      cfg_SIGKILL = 9,
      cfg_SIGSTOP = 17,
      cfg_sizeof_ptr = 8,
      cfg_sizeof_epoll_event = 12,
      sys_kevent = (\<lambda>kq ch n w. (Inr (map receipt_ok (take n ch)), w)),
      sys_kqueue1 = (\<lambda>fl w. (Inr 3, w)),
      sys_poll = (\<lambda>pfds t w. (Inr (0, map (pfd_revents_update (\<lambda>_. 0)) pfds), w)),
      sys_read = (\<lambda>fd n w. (Inl EAGAIN, w)),
      sys_write = (\<lambda>fd bs w. (Inr (length bs), w)),
      sys_close = (\<lambda>fd w. (Inr (), w)),
      sys_pipe2 = (\<lambda>fl w. (Inr (4, 5), w)),
      sys_fcntl_getfl = (\<lambda>fd w. (Inr O_RDWR, w)),
      sys_ioctl_fionread = (\<lambda>fd w. (Inr (), w)),
      sys_ioctl_fionbio = (\<lambda>fd b w. (Inr (), w)),
      sys_cap_rights = (\<lambda>fd w. (None, w)),
      sys_fstat = (\<lambda>fd w. (if fd < 0 then Inl EBADF else Inr S_IFSOCK, w)),
      sys_clock_gettime = (\<lambda>c w. (Inr \<lparr>tv_sec = 100, tv_nsec = 0\<rparr>, w)),
      sys_boottime = (\<lambda>w. (Inr (0, 0), w)),
      sys_basetime = (\<lambda>w. (Inr ts_zero, w)),
      sys_malloc = (\<lambda>w. (Inr 4096, w)),
      sys_realloc = (\<lambda>n w. (Inr (), w)),
      sys_free = (\<lambda>p w. w),
      sys_mutex_init = (\<lambda>w. (Inr (), w)),
      sys_mutex_destroy = (\<lambda>w. (Inr (), w)),
      sys_cond_init = (\<lambda>w. (Inr (), w)),
      sys_cond_destroy = (\<lambda>w. (Inr (), w)),
      sys_cond_wait = (\<lambda>n w. (0, w)),
      sys_sem_init = (\<lambda>w. (Inr (), w)),
      sys_sem_destroy = (\<lambda>w. w),
      sys_sem_wait = (\<lambda>w. (Inr (), w)),
      sys_kqueue = (\<lambda>w. (Inr 3, w)),
      sys_pipe = (\<lambda>w. (Inr (4, 5), w)),
      sys_socket = (\<lambda>d t p w. (Inr 6, w)),
      sys_socketpair = (\<lambda>d t p w. (Inr (6, 7), w)),
      sys_fcntl = (\<lambda>fd cmd arg w. (Inr 0, w)),
      sys_ppoll = (\<lambda>pfds t m w. (Inr (0, map (pfd_revents_update (\<lambda>_. 0)) pfds), w)),
      sys_sigpending = (\<lambda>w. (Inr 0, w)),
      sys_sigaction = (\<lambda>i w. (Inr \<lparr>sa_flags = 0, sa_handler = SIG_DFL\<rparr>, w)),
      sys_sigaction_set = (\<lambda>i a w. w),
      sys_sigtimedwait = (\<lambda>m w. (Inl EAGAIN, w)),
      sys_sigwait = (\<lambda>m w. (Inl EINVAL, w)),
      sys_thrsigdivert = (\<lambda>m w. (Inl EINVAL, w)),
      sys_sigfillset = (\<lambda>w. (Inr (- 1), w)),
      sys_sigmask_get = (\<lambda>w. (Inr 0, w)),
      sys_sigmask_block = (\<lambda>m w. (Inr 0, w)),
      sys_sigmask_set = (\<lambda>m w. (0, w)),
      sys_thread_create = (\<lambda>g t w. (Inr (), w)),
      sys_nanosleep = (\<lambda>t w. w),
      vt_poll_fun = (\<lambda>p fd r w. (map_option (\<lambda>_. EPOLLIN) r, w)),
      vt_ref_fun = (\<lambda>p w. w),
      vt_unref_fun = (\<lambda>p w. w)\<rparr>"

lemma quiet_sel [simp]:
  "cfg_EVFILT_USER quiet_platform"
  "\<not> cfg_EVFILT_EXCEPT quiet_platform"
  "cfg_NOTE_USECONDS quiet_platform"
  "\<not> cfg_APPLE quiet_platform"
  "cfg_FreeBSD quiet_platform"
  "\<not> cfg_NetBSD quiet_platform"
  "\<not> cfg_DragonFly quiet_platform"
  "\<not> cfg_quirky_timer quiet_platform"
  "\<not> cfg_quirk_timer_zero quiet_platform"
  "\<not> cfg_data32 quiet_platform"
  "cfg_CLK_TCK quiet_platform = 100"
  "cfg_POLLRDHUP quiet_platform = Some 0x4000"
  "cfg_PIPE_BUF quiet_platform = 512"
  "cfg_SIZE_MAX quiet_platform = 18446744073709551615"
  "cfg_sizeof_kevent quiet_platform = 64"
  "cfg_sizeof_pollfd quiet_platform = 8"
  "cfg_stack_kevent quiet_platform = EV_SET 0 EVFILT_READ 0 0 0 None"
  "\<not> cfg_OpenBSD quiet_platform"
  "cfg_SIG_MAXSIG quiet_platform = 128"
  "cfg_NSIG quiet_platform = 32"
  "cfg_default_ignored quiet_platform = [20, 16, 19, 23, 28, 29]"
  "cfg_SIGKILL quiet_platform = 9"
  "cfg_SIGSTOP quiet_platform = 17"
  "cfg_sizeof_ptr quiet_platform = 8"
  "cfg_sizeof_epoll_event quiet_platform = 12"
  "sys_kevent quiet_platform = (\<lambda>kq ch n w. (Inr (map receipt_ok (take n ch)), w))"
  "sys_kqueue1 quiet_platform = (\<lambda>fl w. (Inr 3, w))"
  "sys_poll quiet_platform = (\<lambda>pfds t w. (Inr (0, map (pfd_revents_update (\<lambda>_. 0)) pfds), w))"
  "sys_read quiet_platform = (\<lambda>fd n w. (Inl EAGAIN, w))"
  "sys_write quiet_platform = (\<lambda>fd bs w. (Inr (length bs), w))"
  "sys_close quiet_platform = (\<lambda>fd w. (Inr (), w))"
  "sys_pipe2 quiet_platform = (\<lambda>fl w. (Inr (4, 5), w))"
  "sys_fcntl_getfl quiet_platform = (\<lambda>fd w. (Inr O_RDWR, w))"
  "sys_ioctl_fionread quiet_platform = (\<lambda>fd w. (Inr (), w))"
  "sys_ioctl_fionbio quiet_platform = (\<lambda>fd b w. (Inr (), w))"
  "sys_cap_rights quiet_platform = (\<lambda>fd w. (None, w))"
  "sys_fstat quiet_platform = (\<lambda>fd w. (if fd < 0 then Inl EBADF else Inr S_IFSOCK, w))"
  "sys_clock_gettime quiet_platform = (\<lambda>c w. (Inr \<lparr>tv_sec = 100, tv_nsec = 0\<rparr>, w))"
  "sys_boottime quiet_platform = (\<lambda>w. (Inr (0, 0), w))"
  "sys_basetime quiet_platform = (\<lambda>w. (Inr ts_zero, w))"
  "sys_malloc quiet_platform = (\<lambda>w. (Inr 4096, w))"
  "sys_realloc quiet_platform = (\<lambda>n w. (Inr (), w))"
  "sys_free quiet_platform = (\<lambda>p w. w)"
  "sys_mutex_init quiet_platform = (\<lambda>w. (Inr (), w))"
  "sys_mutex_destroy quiet_platform = (\<lambda>w. (Inr (), w))"
  "sys_cond_init quiet_platform = (\<lambda>w. (Inr (), w))"
  "sys_cond_destroy quiet_platform = (\<lambda>w. (Inr (), w))"
  "sys_cond_wait quiet_platform = (\<lambda>n w. (0, w))"
  "sys_sem_init quiet_platform = (\<lambda>w. (Inr (), w))"
  "sys_sem_destroy quiet_platform = (\<lambda>w. w)"
  "sys_sem_wait quiet_platform = (\<lambda>w. (Inr (), w))"
  "sys_kqueue quiet_platform = (\<lambda>w. (Inr 3, w))"
  "sys_pipe quiet_platform = (\<lambda>w. (Inr (4, 5), w))"
  "sys_socket quiet_platform = (\<lambda>d t p w. (Inr 6, w))"
  "sys_socketpair quiet_platform = (\<lambda>d t p w. (Inr (6, 7), w))"
  "sys_fcntl quiet_platform = (\<lambda>fd cmd arg w. (Inr 0, w))"
  "sys_ppoll quiet_platform = (\<lambda>pfds t m w. (Inr (0, map (pfd_revents_update (\<lambda>_. 0)) pfds), w))"
  "sys_sigpending quiet_platform = (\<lambda>w. (Inr 0, w))"
  "sys_sigaction quiet_platform = (\<lambda>i w. (Inr \<lparr>sa_flags = 0, sa_handler = SIG_DFL\<rparr>, w))"
  "sys_sigaction_set quiet_platform = (\<lambda>i a w. w)"
  "sys_sigtimedwait quiet_platform = (\<lambda>m w. (Inl EAGAIN, w))"
  "sys_sigwait quiet_platform = (\<lambda>m w. (Inl EINVAL, w))"
  "sys_thrsigdivert quiet_platform = (\<lambda>m w. (Inl EINVAL, w))"
  "sys_sigfillset quiet_platform = (\<lambda>w. (Inr (- 1), w))"
  "sys_sigmask_get quiet_platform = (\<lambda>w. (Inr 0, w))"
  "sys_sigmask_block quiet_platform = (\<lambda>m w. (Inr 0, w))"
  "sys_sigmask_set quiet_platform = (\<lambda>m w. (0, w))"
  "sys_thread_create quiet_platform = (\<lambda>g t w. (Inr (), w))"
  "sys_nanosleep quiet_platform = (\<lambda>t w. w)"
  "vt_poll_fun quiet_platform = (\<lambda>p fd r w. (map_option (\<lambda>_. EPOLLIN) r, w))"
  "vt_ref_fun quiet_platform = (\<lambda>p w. w)"
  "vt_unref_fun quiet_platform = (\<lambda>p w. w)"
  by (simp_all add: quiet_platform_def)

section \<open>Documented behaviour of the kernel\<close>

text \<open>
  The facts about system calls that the components rely on, each a named predicate on a
  platform: kqueue(2) answers a change list submitted with \<open>EV_RECEIPT\<close> with one record per
  change that has \<open>EV_ERROR\<close> set; clock_gettime(2) returns a normalised, non-negative time.
\<close>

definition kevent_receipts :: "'w platform \<Rightarrow> bool" where
  "kevent_receipts P \<longleftrightarrow>
     (\<forall>kq ch w out w'. sys_kevent P kq ch (length ch) w = (Inr out, w') \<longrightarrow>
        (\<forall>k \<in> set ch. has_bits (kev_flags k) EV_RECEIPT) \<longrightarrow>
        length out = length ch \<and> (\<forall>k \<in> set out. has_bits (kev_flags k) EV_ERROR))"

lemma kevent_receiptsD:
  assumes "kevent_receipts P" "sys_kevent P kq ch (length ch) w = (Inr out, w')"
    and "\<And>k. k \<in> set ch \<Longrightarrow> has_bits (kev_flags k) EV_RECEIPT"
  shows "length out = length ch" and "i < length ch \<Longrightarrow> has_bits (kev_flags (out ! i)) EV_ERROR"
  using assms unfolding kevent_receipts_def by fastforce+

lemma quiet_kevent_receipts [simp]: "kevent_receipts quiet_platform"
  by (simp add: kevent_receipts_def receipt_ok_def has_bits_or)
    (simp add: has_bits_def)

text \<open>poll(2) reports only requested events, errors, hang-ups and invalid descriptors.\<close>

definition poll_ok :: "'w platform \<Rightarrow> bool" where
  "poll_ok P \<longleftrightarrow>
     (\<forall>pfds t w k out w'. sys_poll P pfds t w = (Inr (k, out), w') \<longrightarrow>
        length out = length pfds \<and>
        (\<forall>i < length pfds.
           subset_bits (pfd_revents (out ! i)) (pfd_events (pfds ! i) OR POLLERR OR POLLHUP OR POLLNVAL)))"

lemma poll_okD:
  assumes "poll_ok P" "sys_poll P [p] t w = (Inr (k, out), w')"
  shows "subset_bits (pfd_revents (hd out)) (pfd_events p OR POLLERR OR POLLHUP OR POLLNVAL)"
proof -
  have "length out = 1"
    and "subset_bits (pfd_revents (out ! 0)) (pfd_events p OR POLLERR OR POLLHUP OR POLLNVAL)"
    using assms unfolding poll_ok_def by fastforce+
  then show ?thesis by (cases out) auto
qed

lemma quiet_poll_ok [simp]: "poll_ok quiet_platform"
  by (simp add: poll_ok_def)

end
