(* ===== verification/Kqueue_Event.thy ===== *)
theory Kqueue_Event
  imports Platform
begin

text \<open>
  \<open>src/kqueue_event.c\<close>: a flag that makes a kqueue readable, built on \<open>EVFILT_USER\<close> or on a
  pipe where that filter does not exist. The two loops that empty a pipe and a kqueue run until
  the kernel has nothing more to deliver, so they are \<open>partial_function\<close>s: \<open>None\<close> is a loop that
  never ends, and \<open>drain_kq_total\<close> and \<open>drain_pipe_total\<close> give the condition under which they end.

  The locale \<open>event_flag\<close> is the contract the owners of a flag (eventfd, signalfd) rely on; it is
  interpreted on the operations below for every platform and kqueue.
\<close>

section \<open>Emptying a pipe and a kqueue\<close>

partial_function (option) drain_pipe :: "'w platform \<Rightarrow> int \<Rightarrow> 'w \<Rightarrow> 'w option" where
  "drain_pipe plat fd w =
     (case sys_read plat fd 32 w of
        (Inl e, w1) \<Rightarrow> Some w1
      | (Inr bs, w1) \<Rightarrow> drain_pipe plat fd w1)"

partial_function (option) drain_kq :: "'w platform \<Rightarrow> int \<Rightarrow> 'w \<Rightarrow> 'w option" where
  "drain_kq plat kq w =
     (case sys_kevent plat kq [] 32 w of
        (Inl e, w1) \<Rightarrow> Some w1
      | (Inr kevs, w1) \<Rightarrow> if kevs = [] then Some w1 else drain_kq plat kq w1)"

lemma drain_pipe_total:
  assumes "\<And>v bs v'. sys_read P fd 32 v = (Inr bs, v') \<Longrightarrow> m v' < (m v :: nat)"
  shows "\<exists>w'. drain_pipe P fd w = Some w'"
proof (induction "m w" arbitrary: w rule: less_induct)
  case less
  show ?case
  proof (cases "sys_read P fd 32 w")
    case (Pair r w1)
    then show ?thesis
      using less assms [of w] by (cases r) (simp_all add: drain_pipe.simps)
  qed
qed

lemma drain_kq_total:
  assumes "\<And>v kevs v'. sys_kevent P kq [] 32 v = (Inr kevs, v') \<Longrightarrow> kevs \<noteq> [] \<Longrightarrow> m v' < (m v :: nat)"
  shows "\<exists>w'. drain_kq P kq w = Some w'"
proof (induction "m w" arbitrary: w rule: less_induct)
  case less
  show ?case
  proof (cases "sys_kevent P kq [] 32 w")
    case (Pair r w1)
    then show ?thesis
      using less assms [of w] by (cases r) (simp_all add: drain_kq.simps)
  qed
qed

lemma quiet_drains [simp]:
  "drain_pipe quiet_platform fd w = Some w"
  "drain_kq quiet_platform kq w = Some w"
  by (simp_all add: drain_pipe.simps drain_kq.simps)

text \<open>A non-blocking pipe is emptied in finitely many reads.\<close>

definition pipes_drain :: "'w platform \<Rightarrow> bool" where
  "pipes_drain P \<longleftrightarrow> (\<forall>fd w. \<exists>w'. drain_pipe P fd w = Some w')"

lemma quiet_pipes_drain [simp]: "pipes_drain quiet_platform"
  by (simp add: pipes_drain_def)

section \<open>State and operations\<close>

record KQueueEvent =
  is_triggered :: bool
  kqe_self_pipe :: "int \<times> int"

definition kqueue_event_is_triggered :: "KQueueEvent \<Rightarrow> bool" where
  "kqueue_event_is_triggered e = is_triggered e"

definition kqueue_event_terminate :: "'w platform \<Rightarrow> KQueueEvent \<Rightarrow> 'w \<Rightarrow> (errno + unit) \<times> 'w" where
  "kqueue_event_terminate P e w =
     (if cfg_EVFILT_USER P then (Inr (), w)
      else
        (let (r0, w1) = sys_close P (fst (kqe_self_pipe e)) w;
             (r1, w2) = sys_close P (snd (kqe_self_pipe e)) w1
         in (case r0 of Inl ec \<Rightarrow> Inl ec | Inr _ \<Rightarrow> r1, w2)))"

definition kqueue_event_trigger ::
  "'w platform \<Rightarrow> int \<Rightarrow> KQueueEvent \<Rightarrow> 'w \<Rightarrow> (errno + unit) \<times> KQueueEvent \<times> 'w" where
  "kqueue_event_trigger P kq e w =
     (if is_triggered e then (Inr (), e, w)
      else if cfg_EVFILT_USER P
      then (case sys_kevent P kq [EV_SET 0 EVFILT_USER 0 NOTE_TRIGGER 0 None] 0 w of
              (Inl ec, w1) \<Rightarrow> (Inl ec, e, w1)
            | (Inr _, w1) \<Rightarrow> (Inr (), e\<lparr>is_triggered := True\<rparr>, w1))
      else (case sys_write P (snd (kqe_self_pipe e)) [0] w of
              (Inl ec, w1) \<Rightarrow>
                if ec \<noteq> EAGAIN \<and> ec \<noteq> EWOULDBLOCK then (Inl ec, e, w1)
                else (Inr (), e\<lparr>is_triggered := True\<rparr>, w1)
            | (Inr _, w1) \<Rightarrow> (Inr (), e\<lparr>is_triggered := True\<rparr>, w1)))"

definition kqueue_event_clear ::
  "'w platform \<Rightarrow> int \<Rightarrow> KQueueEvent \<Rightarrow> 'w \<Rightarrow> (KQueueEvent \<times> 'w) option" where
  "kqueue_event_clear P kq e w = do {
     w1 \<leftarrow> (if cfg_EVFILT_USER P then Some w else drain_pipe P (fst (kqe_self_pipe e)) w);
     w2 \<leftarrow> drain_kq P kq w1;
     Some (e\<lparr>is_triggered := False\<rparr>, w2)
   }"

text \<open>\<open>kqueue_event_init\<close> returns the kevents that its caller submits.\<close>

definition kqueue_event_init ::
  "'w platform \<Rightarrow> bool \<Rightarrow> 'w \<Rightarrow> ((errno + kevent list) \<times> KQueueEvent \<times> 'w) option" where
  "kqueue_event_init P should_trigger w =
     (let e0 = \<lparr>is_triggered = False, kqe_self_pipe = (-1, -1)\<rparr>
      in if cfg_EVFILT_USER P
         then Some (Inr (EV_SET 0 EVFILT_USER (EV_ADD OR EV_CLEAR) 0 0 None #
                (if should_trigger then [EV_SET 0 EVFILT_USER 0 NOTE_TRIGGER 0 None] else [])),
              e0\<lparr>is_triggered := should_trigger\<rparr>, w)
         else (case sys_pipe2 P (O_NONBLOCK OR O_CLOEXEC) w of
             (Inl ec, w1) \<Rightarrow> Some (Inl ec, e0, w1)
           | (Inr p, w1) \<Rightarrow>
               (let e1 = e0\<lparr>kqe_self_pipe := p\<rparr>;
                    kev = EV_SET (fst p) EVFILT_READ (EV_ADD OR EV_CLEAR) 0 0 None
                in if should_trigger
                   then (case kqueue_event_trigger P (-1) e1 w1 of
                       (Inl ec, e2, w2) \<Rightarrow> Some (Inl ec, e2, snd (kqueue_event_terminate P e2 w2))
                     | (Inr _, e2, w2) \<Rightarrow> do { c_assert (is_triggered e2); Some (Inr [kev], e2, w2) })
                   else Some (Inr [kev], e1, w1))))"

section \<open>The contract of a flag\<close>

locale event_flag =
  fixes trigger :: "'e \<Rightarrow> 'w \<Rightarrow> (errno + unit) \<times> 'e \<times> 'w"
    and clear :: "'e \<Rightarrow> 'w \<Rightarrow> ('e \<times> 'w) option"
    and triggered :: "'e \<Rightarrow> bool"
  assumes trigger_set: "trigger e w = (Inr u, e', w') \<Longrightarrow> triggered e'"
    and trigger_err: "trigger e w = (Inl ec, e', w') \<Longrightarrow> e' = e \<and> \<not> triggered e"
    and trigger_idem: "triggered e \<Longrightarrow> trigger e w = (Inr (), e, w)"
    and clear_reset: "clear e w = Some (e', w') \<Longrightarrow> \<not> triggered e'"
begin

text \<open>The flag follows a condition: raise it when the condition holds, clear it when it stops.\<close>

lemma raise_follows:
  assumes "trigger e w = (r, e', w')" "triggered e \<longrightarrow> cond" "cond"
  shows "r = Inr () \<and> triggered e' \<or> (\<exists>ec. r = Inl ec) \<and> e' = e"
  using assms trigger_set [of e w _ e' w'] trigger_err [of e w _ e' w'] by (cases r) auto

lemma lower_follows:
  assumes "(if triggered e \<and> \<not> cond then clear e w else Some (e, w)) = Some (e', w')"
    and "cond \<longrightarrow> triggered e"
  shows "triggered e' \<longleftrightarrow> cond"
  using assms clear_reset by (auto split: if_splits)

lemma raise_twice:
  assumes "trigger e w = (Inr u, e1, w1)"
  shows "trigger e1 w2 = (Inr (), e1, w2)"
  using assms trigger_set trigger_idem by blast

end

interpretation kqev: event_flag "kqueue_event_trigger P kq" "kqueue_event_clear P kq"
  kqueue_event_is_triggered for P kq
  by unfold_locales
    (auto simp: kqueue_event_trigger_def kqueue_event_clear_def kqueue_event_is_triggered_def
      split: if_splits prod.splits sum.splits Option.bind_splits)

lemma kqueue_event_init_flag:
  assumes "kqueue_event_init P trig w = Some (Inr kevs, e, w')"
  shows "kqueue_event_is_triggered e = trig" and "kevs \<noteq> []"
  using assms kqev.trigger_set [of P "-1"]
  by (auto simp: kqueue_event_init_def Let_def kqueue_event_is_triggered_def
      split: if_splits prod.splits sum.splits Option.bind_splits)

end
