(* ===== verification/Epoll_Node.thy ===== *)
theory Epoll_Node
  imports Kqueue_Event
begin

text \<open>
  The first part of \<open>src/epollfd_ctx.c\<close>: one registered descriptor (\<open>RegisteredFDsNode\<close>), the
  choice of kqueue filters for the events a caller asked for, and the translation of a delivered
  kevent into epoll event bits. A node lives at an address; the address is what the code stores in
  \<open>udata\<close> and what it uses as the identity of its \<open>EVFILT_USER\<close> event.

  The union \<open>node_data\<close> is modelled by its members: \<open>fifo\<close> is read only for fifos and \<open>kqueue\<close>
  only for kqueues, and no node changes between the two.
\<close>

section \<open>Event masks and pollable descriptors\<close>

text \<open>\<open>EPOLLRDHUP\<close> is \<open>POLLRDHUP\<close> where the system has it and the value of Linux otherwise.\<close>

definition EPOLLRDHUP :: "'w platform \<Rightarrow> 32 word" where
  "EPOLLRDHUP P = (case cfg_POLLRDHUP P of None \<Rightarrow> 0x2000 | Some v \<Rightarrow> v)"

definition pollable_desc_poll ::
  "'w platform \<Rightarrow> addr option \<Rightarrow> int \<Rightarrow> 32 word option \<Rightarrow> 'w \<Rightarrow> 32 word option \<times> 'w" where
  "pollable_desc_poll P d fd revents w =
     (case d of None \<Rightarrow> (revents, w) | Some p \<Rightarrow> vt_poll_fun P p fd revents w)"

definition pollable_desc_ref :: "'w platform \<Rightarrow> addr option \<Rightarrow> 'w \<Rightarrow> 'w" where
  "pollable_desc_ref P d w = (case d of None \<Rightarrow> w | Some p \<Rightarrow> vt_ref_fun P p w)"

definition pollable_desc_unref :: "'w platform \<Rightarrow> addr option \<Rightarrow> 'w \<Rightarrow> 'w" where
  "pollable_desc_unref P d w = (case d of None \<Rightarrow> w | Some p \<Rightarrow> vt_unref_fun P p w)"

section \<open>Nodes\<close>

datatype NodeType =
    NODE_TYPE_NONE | NODE_TYPE_FIFO | NODE_TYPE_SOCKET | NODE_TYPE_KQUEUE | NODE_TYPE_OTHER
  | NODE_TYPE_POLL

abbreviation EOF_STATE_READ_EOF :: "32 word" where "EOF_STATE_READ_EOF \<equiv> 0x01"
abbreviation EOF_STATE_WRITE_EOF :: "32 word" where "EOF_STATE_WRITE_EOF \<equiv> 0x02"
abbreviation EOF_STATE_BOTH :: "32 word" where
  "EOF_STATE_BOTH \<equiv> EOF_STATE_READ_EOF OR EOF_STATE_WRITE_EOF"

record RegisteredFDsNode =
  node_fd :: int
  node_data :: "64 word"
  is_registered :: bool
  has_evfilt_read :: bool
  has_evfilt_write :: bool
  has_evfilt_except :: bool
  got_evfilt_read :: bool
  got_evfilt_write :: bool
  got_evfilt_except :: bool
  node_type :: NodeType
  fifo_readable :: bool
  fifo_writable :: bool
  pollable_desc :: "addr option"
  eof_state :: "32 word"
  pollpri_active :: bool
  events :: "16 word"
  needs_rdhup_translation :: bool
  revents :: "32 word"
  is_edge_triggered :: bool
  is_oneshot :: bool
  is_on_pollfd_list :: bool
  node_self_pipe :: "int \<times> int"

record epoll_event =
  ev_events :: "32 word"
  ev_data :: "64 word"

text \<open>The \<open>events\<close> field promoted to the width of the masks it is compared with.\<close>

abbreviation events32 :: "RegisteredFDsNode \<Rightarrow> 32 word" where
  "events32 n \<equiv> ucast (events n)"

text \<open>The fresh node of \<open>registered_fds_node_create\<close>: zero except for the descriptor and the pipe.\<close>

definition fresh_node :: "int \<Rightarrow> RegisteredFDsNode" where
  "fresh_node fd =
     \<lparr>node_fd = fd, node_data = 0, is_registered = False,
      has_evfilt_read = False, has_evfilt_write = False, has_evfilt_except = False,
      got_evfilt_read = False, got_evfilt_write = False, got_evfilt_except = False,
      node_type = NODE_TYPE_NONE, fifo_readable = False, fifo_writable = False, pollable_desc = None,
      eof_state = 0, pollpri_active = False, events = 0, needs_rdhup_translation = False,
      revents = 0, is_edge_triggered = False, is_oneshot = False, is_on_pollfd_list = False,
      node_self_pipe = (-1, -1)\<rparr>"

definition registered_fds_node_create ::
  "'w platform \<Rightarrow> int \<Rightarrow> 'w \<Rightarrow> (addr \<times> RegisteredFDsNode) option \<times> 'w" where
  "registered_fds_node_create P fd w =
     (case sys_malloc P w of
        (Inl _, w1) \<Rightarrow> (None, w1)
      | (Inr a, w1) \<Rightarrow> (Some (a, fresh_node fd), w1))"

definition registered_fds_node_destroy ::
  "'w platform \<Rightarrow> addr \<Rightarrow> RegisteredFDsNode \<Rightarrow> 'w \<Rightarrow> 'w" where
  "registered_fds_node_destroy P a n w =
     (let w1 = (if node_type n = NODE_TYPE_KQUEUE then pollable_desc_unref P (pollable_desc n) w else w);
          w2 = (if fst (node_self_pipe n) \<ge> 0 \<and> snd (node_self_pipe n) \<ge> 0
                then snd (sys_close P (snd (node_self_pipe n)) (snd (sys_close P (fst (node_self_pipe n)) w1)))
                else w1)
      in sys_free P a w2)"

section \<open>The filters a node needs\<close>

text \<open>Each field is 0, 1 or \<open>EV_CLEAR\<close>: no filter, a level-triggered or an edge-triggered one.\<close>

record NeededFilters =
  evfilt_read :: "16 word"
  evfilt_write :: "16 word"
  evfilt_except :: "16 word"

abbreviation filters :: "16 word \<Rightarrow> 16 word \<Rightarrow> 16 word \<Rightarrow> NeededFilters" where
  "filters r w x \<equiv> \<lparr>evfilt_read = r, evfilt_write = w, evfilt_except = x\<rparr>"

definition flag01 :: "bool \<Rightarrow> 16 word" where
  "flag01 b = (if b then 1 else 0)"

definition level_if_eof :: "RegisteredFDsNode \<Rightarrow> 16 word" where
  "level_if_eof n = (if eof_state n \<noteq> 0 then 1 else EV_CLEAR)"

definition needed_fifo :: "RegisteredFDsNode \<Rightarrow> NeededFilters option" where
  "needed_fifo n =
     (let r = flag01 (has_bits (events32 n) EPOLLIN); w = flag01 (has_bits (events32 n) EPOLLOUT)
      in if fifo_readable n \<and> fifo_writable n
         then Some (filters (if events n = 0 then level_if_eof n else r) w 0)
         else if fifo_readable n
         then Some (filters (if r = 0 then level_if_eof n else r) 0 0)
         else if fifo_writable n
         then Some (filters 0 (if w = 0 then level_if_eof n else w) 0)
         else None)"

definition needed_kqueue :: "RegisteredFDsNode \<Rightarrow> NeededFilters option" where
  "needed_kqueue n =
     (let r = flag01 (has_bits (events32 n) EPOLLIN)
      in do {
           c_assert (eof_state n = 0);
           Some (filters (if r = 0 then EV_CLEAR else r) 0 0)
         })"

definition needed_socket :: "'w platform \<Rightarrow> RegisteredFDsNode \<Rightarrow> NeededFilters" where
  "needed_socket P n =
     (let r0 = flag01 (has_bits (events32 n) EPOLLIN);
          r1 = (if r0 = 0 \<and> has_bits (events32 n) (EPOLLRDHUP P)
                then (if has_bits (eof_state n) EOF_STATE_READ_EOF then 1 else EV_CLEAR) else r0);
          x = (if cfg_EVFILT_EXCEPT P then flag01 (has_bits (events32 n) EPOLLPRI) else 0);
          r2 = (if \<not> cfg_EVFILT_EXCEPT P \<and> r1 = 0 \<and> has_bits (events32 n) EPOLLPRI
                then (if pollpri_active n then 1 else EV_CLEAR) else r1);
          w2 = flag01 (has_bits (events32 n) EPOLLOUT);
          r3 = (if eof_state n = EOF_STATE_BOTH \<and> r2 \<noteq> 1 \<and> w2 \<noteq> 1 then 1 else r2);
          w3 = (if eof_state n = EOF_STATE_BOTH \<and> r3 \<noteq> 0 then 0 else w2);
          r4 = (if eof_state n = 0 \<and> r3 = 0 \<and> w3 = 0 then EV_CLEAR else r3);
          w5 = (if eof_state n = EOF_STATE_READ_EOF \<and> w3 = 0 then EV_CLEAR else w3);
          r5 = (if eof_state n = EOF_STATE_WRITE_EOF \<and> r4 = 0 then EV_CLEAR else r4)
      in filters r5 w5 x)"

definition needed_other :: "RegisteredFDsNode \<Rightarrow> NeededFilters" where
  "needed_other n =
     filters
       (if events n = 0 then level_if_eof n else flag01 (has_bits (events32 n) EPOLLIN))
       (flag01 (has_bits (events32 n) EPOLLOUT)) 0"

definition edge_filters :: "NeededFilters \<Rightarrow> NeededFilters" where
  "edge_filters f =
     filters (if evfilt_read f \<noteq> 0 then EV_CLEAR else 0)
       (if evfilt_write f \<noteq> 0 then EV_CLEAR else 0)
       (if evfilt_except f \<noteq> 0 then EV_CLEAR else 0)"

definition filter_value :: "16 word \<Rightarrow> bool" where
  "filter_value v \<longleftrightarrow> v = 0 \<or> v = 1 \<or> v = EV_CLEAR"

definition needed_by_type :: "'w platform \<Rightarrow> RegisteredFDsNode \<Rightarrow> NeededFilters option" where
  "needed_by_type P n =
     (case node_type n of
        NODE_TYPE_FIFO \<Rightarrow> needed_fifo n
      | NODE_TYPE_KQUEUE \<Rightarrow> needed_kqueue n
      | NODE_TYPE_SOCKET \<Rightarrow> Some (needed_socket P n)
      | _ \<Rightarrow> Some (needed_other n))"

definition get_needed_filters :: "'w platform \<Rightarrow> RegisteredFDsNode \<Rightarrow> NeededFilters option" where
  "get_needed_filters P n = do {
     f0 \<leftarrow> needed_by_type P n;
     let f = (if is_edge_triggered n then edge_filters f0 else f0);
     c_assert (evfilt_read f \<noteq> 0 \<or> evfilt_write f \<noteq> 0);
     c_assert (filter_value (evfilt_read f));
     c_assert (filter_value (evfilt_write f));
     c_assert (filter_value (evfilt_except f));
     Some f
   }"

section \<open>Flags of a registration\<close>

definition registered_fds_node_update_flags_from_epoll_event ::
  "'w platform \<Rightarrow> RegisteredFDsNode \<Rightarrow> epoll_event \<Rightarrow> RegisteredFDsNode option" where
  "registered_fds_node_update_flags_from_epoll_event P n ev =
     (let e0 = (ucast (ev_events ev AND (EPOLLIN OR EPOLLPRI OR EPOLLRDHUP P OR EPOLLOUT)) :: 16 word);
          translate = (EPOLLRDHUP P \<noteq> 0x2000 \<and> has_bits (ev_events ev) 0x2000);
          oneshot = has_bits (ev_events ev) EPOLLONESHOT
      in do {
           c_assert (translate \<longrightarrow> \<not> has_bits (ev_events ev) (EPOLLRDHUP P));
           Some (n\<lparr>events := (if translate then e0 OR ucast (EPOLLRDHUP P) else e0),
                   needs_rdhup_translation := translate,
                   node_data := ev_data ev,
                   is_edge_triggered := has_bits (ev_events ev) EPOLLET \<or> oneshot,
                   is_oneshot := oneshot\<rparr>)
         })"

text \<open>A single change without an event list: the error code or success.\<close>

definition submit_kev :: "'w platform \<Rightarrow> int \<Rightarrow> kevent \<Rightarrow> 'w \<Rightarrow> (errno + unit) \<times> 'w" where
  "submit_kev P kq kev w =
     (case sys_kevent P kq [kev] 0 w of (Inl ec, w1) \<Rightarrow> (Inl ec, w1) | (Inr _, w1) \<Rightarrow> (Inr (), w1))"

definition registered_fds_node_add_self_trigger ::
  "'w platform \<Rightarrow> addr \<Rightarrow> RegisteredFDsNode \<Rightarrow> int \<Rightarrow> 'w \<Rightarrow>
   ((errno + unit) \<times> RegisteredFDsNode \<times> 'w) option" where
  "registered_fds_node_add_self_trigger P a n kq w =
     (let finish = (\<lambda>n kev w. (let (r, w1) = submit_kev P kq kev w in Some (r, n, w1)));
          pipe_kev = (\<lambda>n. EV_SET (fst (node_self_pipe n)) EVFILT_READ (EV_ADD OR EV_CLEAR) 0 0 (Some a))
      in if cfg_EVFILT_USER P
         then finish n (EV_SET (int a) EVFILT_USER (EV_ADD OR EV_CLEAR) 0 0 (Some a)) w
         else if fst (node_self_pipe n) < 0 \<and> snd (node_self_pipe n) < 0
         then (case sys_pipe2 P (O_NONBLOCK OR O_CLOEXEC) w of
                 (Inl e, w1) \<Rightarrow> Some (Inl e, n\<lparr>node_self_pipe := (-1, -1)\<rparr>, w1)
               | (Inr p, w1) \<Rightarrow> do {
                   c_assert (fst p \<ge> 0);
                   c_assert (snd p \<ge> 0);
                   let n1 = n\<lparr>node_self_pipe := p\<rparr>;
                   finish n1 (pipe_kev n1) w1
                 })
         else finish n (pipe_kev n) w)"

definition registered_fds_node_trigger_self ::
  "'w platform \<Rightarrow> addr \<Rightarrow> RegisteredFDsNode \<Rightarrow> int \<Rightarrow> 'w \<Rightarrow> 'w option" where
  "registered_fds_node_trigger_self P a n kq w =
     (if cfg_EVFILT_USER P
      then Some (snd (sys_kevent P kq [EV_SET (int a) EVFILT_USER 0 NOTE_TRIGGER 0 (Some a)] 0 w))
      else do {
        c_assert (snd (node_self_pipe n) \<ge> 0);
        Some (snd (sys_write P (snd (node_self_pipe n)) [0] w))
      })"

section \<open>Feeding a delivered kevent into a node\<close>

abbreviation node_mask :: "RegisteredFDsNode \<Rightarrow> 32 word" where
  "node_mask n \<equiv> events32 n OR EPOLLHUP OR EPOLLERR"

text \<open>The label \<open>maybe_translate_rdhup\<close>.\<close>

definition maybe_translate_rdhup :: "'w platform \<Rightarrow> RegisteredFDsNode \<Rightarrow> RegisteredFDsNode" where
  "maybe_translate_rdhup P n =
     (if has_bits (revents n) (EPOLLRDHUP P) \<and> needs_rdhup_translation n
      then n\<lparr>revents := (revents n AND NOT (EPOLLRDHUP P)) OR 0x2000\<rparr>
      else n)"

text \<open>A descriptor that only supports poll: the kevent is its self trigger, so poll it.\<close>

definition poll_revents_mask :: "'w platform \<Rightarrow> 32 word" where
  "poll_revents_mask P =
     EPOLLIN OR EPOLLOUT OR EPOLLERR OR EPOLLHUP OR
     (case cfg_POLLRDHUP P of None \<Rightarrow> 0 | Some v \<Rightarrow> v)"

definition feed_poll ::
  "'w platform \<Rightarrow> RegisteredFDsNode \<Rightarrow> kevent \<Rightarrow> 'w \<Rightarrow> (RegisteredFDsNode \<times> 'w) option" where
  "feed_poll P n kev w = do {
     c_assert (revents n = 0);
     w1 \<leftarrow> (if cfg_EVFILT_USER P
             then do { c_assert (kev_filter kev = EVFILT_USER); Some w }
             else drain_pipe P (fst (node_self_pipe n)) w);
     let (r, w2) = sys_poll P [\<lparr>pfd_fd = node_fd n, pfd_events = events n, pfd_revents = 0\<rparr>] 0 w1;
     let rv = (case r of Inl _ \<Rightarrow> EPOLLERR | Inr (_, pfds) \<Rightarrow> (scast (pfd_revents (hd pfds)) :: 32 word));
     let rv1 = (if has_bits rv (ucast POLLNVAL) then 0 else rv);
     c_assert (subset_bits rv1 (poll_revents_mask P));
     Some (n\<lparr>revents := rv1\<rparr>, w2)
   }"

text \<open>The label \<open>out\<close>: the new event bits are merged and masked with what the caller asked for.\<close>

definition got_filter :: "'w platform \<Rightarrow> kfilter \<Rightarrow> RegisteredFDsNode \<Rightarrow> RegisteredFDsNode" where
  "got_filter P f n =
     (case f of
        EVFILT_READ \<Rightarrow> n\<lparr>got_evfilt_read := True\<rparr>
      | EVFILT_WRITE \<Rightarrow> n\<lparr>got_evfilt_write := True\<rparr>
      | EVFILT_EXCEPT \<Rightarrow> if cfg_EVFILT_EXCEPT P then n\<lparr>got_evfilt_except := True\<rparr> else n
      | _ \<Rightarrow> n)"

definition feed_out ::
  "'w platform \<Rightarrow> RegisteredFDsNode \<Rightarrow> kevent \<Rightarrow> 32 word \<Rightarrow> 'w \<Rightarrow> RegisteredFDsNode \<times> 'w" where
  "feed_out P n kev rv w =
     (let n1 = n\<lparr>revents := (revents n OR rv) AND node_mask n\<rparr>;
          n2 = (if revents n1 \<noteq> 0 \<and> node_fd n1 = kev_ident kev then got_filter P (kev_filter kev) n1 else n1)
      in if node_type n2 = NODE_TYPE_KQUEUE
         then (let (r, w1) = pollable_desc_poll P (pollable_desc n2) (node_fd n2) (Some (revents n2)) w
               in (n2\<lparr>revents := (case r of None \<Rightarrow> revents n2 | Some v \<Rightarrow> v) AND node_mask n2\<rparr>, w1))
         else (n2, w))"

text \<open>The self trigger of a fifo whose write filter could not be registered: try again.\<close>

definition is_fifo_self_trigger :: "'w platform \<Rightarrow> RegisteredFDsNode \<Rightarrow> kevent \<Rightarrow> bool" where
  "is_fifo_self_trigger P n kev \<longleftrightarrow>
     node_type n = NODE_TYPE_FIFO \<and>
     (if cfg_EVFILT_USER P then kev_filter kev = EVFILT_USER
      else fst (node_self_pipe n) \<ge> 0 \<and> kev_ident kev = fst (node_self_pipe n))"

definition feed_fifo_self_trigger ::
  "'w platform \<Rightarrow> addr \<Rightarrow> RegisteredFDsNode \<Rightarrow> int \<Rightarrow> kevent \<Rightarrow> 'w \<Rightarrow> (RegisteredFDsNode \<times> 'w) option" where
  "feed_fifo_self_trigger P a n kq kev w = do {
     c_assert (revents n = 0);
     c_assert (\<not> has_evfilt_read n);
     c_assert (\<not> has_evfilt_write n);
     c_assert (\<not> has_evfilt_except n);
     f \<leftarrow> get_needed_filters P n;
     c_assert (evfilt_write f \<noteq> 0);
     let nkev = EV_SET (node_fd n) EVFILT_WRITE
                  (EV_ADD OR (evfilt_write f AND EV_CLEAR) OR EV_RECEIPT) 0 0 (Some a);
     let (r, w1) = sys_kevent P kq [nkev] 1 w;
     if (case r of Inl _ \<Rightarrow> True | Inr out \<Rightarrow> length out \<noteq> 1 \<or> kev_data (hd out) \<noteq> 0)
     then do {
       w2 \<leftarrow> (if \<not> is_edge_triggered n then registered_fds_node_trigger_self P a n kq w1 else Some w1);
       Some (feed_out P n kev (EPOLLERR OR EPOLLOUT) w2)
     }
     else Some (n\<lparr>has_evfilt_write := True\<rparr>, w1)
   }"

text \<open>Without \<open>EVFILT_EXCEPT\<close>, a poll decides whether a read event carries priority data.\<close>

definition feed_pollpri ::
  "'w platform \<Rightarrow> RegisteredFDsNode \<Rightarrow> 'w \<Rightarrow> 32 word \<times> RegisteredFDsNode \<times> 'w" where
  "feed_pollpri P n w =
     (if \<not> cfg_EVFILT_EXCEPT P \<and> has_bits (events32 n) EPOLLPRI
      then (case sys_poll P [\<lparr>pfd_fd = node_fd n, pfd_events = POLLPRI, pfd_revents = 0\<rparr>] 0 w of
              (Inr (k, pfds), w1) \<Rightarrow>
                if k = 1 \<and> has_bits (pfd_revents (hd pfds)) POLLPRI
                then (EPOLLPRI, n\<lparr>pollpri_active := True\<rparr>, w1)
                else (0, n\<lparr>pollpri_active := False\<rparr>, w1)
            | (Inl _, w1) \<Rightarrow> (0, n\<lparr>pollpri_active := False\<rparr>, w1))
      else (0, n, w))"

text \<open>
  An out-of-band event. On macOS the event is checked against a second kqueue and the filter is
  reset where it would not fire again.
\<close>

definition except_reset ::
  "'w platform \<Rightarrow> addr \<Rightarrow> RegisteredFDsNode \<Rightarrow> int \<Rightarrow> 'w \<Rightarrow> 'w" where
  "except_reset P a n kq w =
     (let w1 = snd (sys_kevent P kq [EV_SET (node_fd n) EVFILT_EXCEPT EV_DELETE 0 0 None] 0 w)
      in snd (sys_kevent P kq
               [EV_SET (node_fd n) EVFILT_EXCEPT (EV_ADD OR EV_CLEAR) NOTE_OOB 0 (Some a)] 0 w1))"

definition except_still_pending ::
  "'w platform \<Rightarrow> addr \<Rightarrow> RegisteredFDsNode \<Rightarrow> int \<Rightarrow> 'w \<Rightarrow> bool \<times> 'w" where
  "except_still_pending P a n tmp_kq w =
     (case sys_kevent P tmp_kq
             [EV_SET (node_fd n) EVFILT_EXCEPT (EV_ADD OR EV_ONESHOT) NOTE_OOB 0 (Some a)] 0 w of
        (Inl _, w1) \<Rightarrow> (False, w1)
      | (Inr _, w1) \<Rightarrow>
          (case sys_kevent P tmp_kq [] 1 w1 of
             (Inl _, w2) \<Rightarrow> (False, w2)
           | (Inr out, w2) \<Rightarrow> (length out = 1 \<and> has_bits (kev_fflags (hd out)) NOTE_OOB, w2)))"

definition feed_except ::
  "'w platform \<Rightarrow> addr \<Rightarrow> RegisteredFDsNode \<Rightarrow> int \<Rightarrow> kevent \<Rightarrow> 'w \<Rightarrow> (32 word \<times> 'w) option" where
  "feed_except P a n kq kev w =
     (if \<not> cfg_APPLE P then do {
        c_assert (has_bits (kev_fflags kev) NOTE_OOB);
        Some (EPOLLPRI, w)
      }
      else if \<not> has_bits (kev_fflags kev) NOTE_OOB then Some (0, w)
      else (case sys_kqueue1 P 0 w of
          (Inl _, w1) \<Rightarrow> Some (0, w1)
        | (Inr tmp_kq, w1) \<Rightarrow>
            (let (pending, w2) = except_still_pending P a n tmp_kq w1
             in do {
                  need_reset \<leftarrow> (if pending then do {
                      f \<leftarrow> get_needed_filters P n;
                      Some (evfilt_except f \<noteq> 0 \<and> \<not> has_bits (evfilt_except f) EV_CLEAR)
                    } else Some True);
                  let w3 = snd (sys_close P tmp_kq w2);
                  Some (if pending then EPOLLPRI else 0,
                        if need_reset then except_reset P a n kq w3 else w3)
                })))"

text \<open>The end-of-file state after a read or write event.\<close>

definition feed_eof_state :: "RegisteredFDsNode \<Rightarrow> kevent \<Rightarrow> 32 word" where
  "feed_eof_state n kev =
     (let eof = has_bits (kev_flags kev) EV_EOF
      in if node_type n = NODE_TYPE_SOCKET
         then (case kev_filter kev of
                 EVFILT_READ \<Rightarrow>
                   if eof then eof_state n OR EOF_STATE_READ_EOF else eof_state n AND NOT EOF_STATE_READ_EOF
               | EVFILT_WRITE \<Rightarrow>
                   if eof then eof_state n OR EOF_STATE_WRITE_EOF else eof_state n AND NOT EOF_STATE_WRITE_EOF
               | _ \<Rightarrow> eof_state n)
         else (case kev_filter kev of
                 EVFILT_READ \<Rightarrow> if eof then EOF_STATE_BOTH else 0
               | EVFILT_WRITE \<Rightarrow> if eof then EOF_STATE_BOTH else 0
               | _ \<Rightarrow> eof_state n))"

definition feed_errors :: "kevent \<Rightarrow> 32 word" where
  "feed_errors kev =
     (if has_bits (kev_flags kev) EV_ERROR \<or> has_bits (kev_flags kev) EV_EOF \<and> kev_fflags kev \<noteq> 0
      then EPOLLERR else 0)"

definition socket_eof_events :: "'w platform \<Rightarrow> 32 word \<Rightarrow> 32 word" where
  "socket_eof_events P eof =
     (if has_bits eof EOF_STATE_READ_EOF then EPOLLIN OR EPOLLRDHUP P else 0) OR
     (if has_bits eof EOF_STATE_WRITE_EOF then EPOLLOUT else 0) OR
     (if eof = EOF_STATE_BOTH then EPOLLHUP else 0)"

text \<open>
  The event bits of a node at end of file: \<open>Some (Some rv)\<close> are the bits to merge, \<open>Some None\<close> is
  the write event of a fifo that is also watched for reading, which only adds \<open>POLLHUP\<close> to events
  that are already pending, and \<open>None\<close> is unreachable in the code.
\<close>

definition feed_eof_events ::
  "'w platform \<Rightarrow> RegisteredFDsNode \<Rightarrow> kevent \<Rightarrow> 32 word \<Rightarrow> 32 word option option" where
  "feed_eof_events P n kev rv =
     (case node_type n of
        NODE_TYPE_FIFO \<Rightarrow>
          (case kev_filter kev of
             EVFILT_READ \<Rightarrow>
               Some (Some ((if kev_data kev = 0 then rv AND NOT EPOLLIN else rv) OR EPOLLHUP))
           | EVFILT_WRITE \<Rightarrow>
               if has_evfilt_read n then do {
                 c_assert (fifo_readable n);
                 c_assert (fifo_writable n);
                 Some None
               }
               else Some (Some ((if kev_data kev < cfg_PIPE_BUF P then rv AND NOT EPOLLOUT else rv) OR EPOLLERR))
           | _ \<Rightarrow> None)
      | NODE_TYPE_SOCKET \<Rightarrow> Some (Some (rv OR socket_eof_events P (eof_state n)))
      | _ \<Rightarrow> Some (Some (rv OR EPOLLHUP)))"

definition add_pollhup :: "RegisteredFDsNode \<Rightarrow> RegisteredFDsNode" where
  "add_pollhup n = (if revents n \<noteq> 0 then n\<lparr>revents := revents n OR EPOLLHUP\<rparr> else n)"

definition feed_filter_revents ::
  "'w platform \<Rightarrow> RegisteredFDsNode \<Rightarrow> kevent \<Rightarrow> 'w \<Rightarrow> 32 word \<times> RegisteredFDsNode \<times> 'w" where
  "feed_filter_revents P n kev w =
     (if kev_filter kev = EVFILT_READ
      then (let (pri, n1, w1) = feed_pollpri P n w in (EPOLLIN OR pri, n1, w1))
      else (EPOLLOUT, n, w))"

definition feed_read_write ::
  "'w platform \<Rightarrow> RegisteredFDsNode \<Rightarrow> kevent \<Rightarrow> 'w \<Rightarrow> (RegisteredFDsNode \<times> 'w) option" where
  "feed_read_write P n kev w =
     (let (rv0, n1, w1) = feed_filter_revents P n kev w;
          n2 = n1\<lparr>eof_state := feed_eof_state n1 kev\<rparr>;
          rv1 = rv0 OR feed_errors kev
      in if eof_state n2 \<noteq> 0 then do {
           r \<leftarrow> feed_eof_events P n2 kev rv1;
           (case r of
              None \<Rightarrow> Some (add_pollhup n2, w1)
            | Some rv2 \<Rightarrow> Some (feed_out P n2 kev rv2 w1))
         }
         else Some (feed_out P n2 kev rv1 w1))"

definition feed_filter_ok :: "'w platform \<Rightarrow> kfilter \<Rightarrow> bool" where
  "feed_filter_ok P f \<longleftrightarrow>
     f = EVFILT_READ \<or> f = EVFILT_WRITE \<or> (cfg_EVFILT_EXCEPT P \<and> f = EVFILT_EXCEPT)"

definition registered_fds_node_feed_event ::
  "'w platform \<Rightarrow> addr \<Rightarrow> RegisteredFDsNode \<Rightarrow> int \<Rightarrow> kevent \<Rightarrow> 'w \<Rightarrow> (RegisteredFDsNode \<times> 'w) option" where
  "registered_fds_node_feed_event P a n kq kev w = do {
     (n1, w1) \<leftarrow>
       (if node_type n = NODE_TYPE_POLL then feed_poll P n kev w
        else if is_fifo_self_trigger P n kev then feed_fifo_self_trigger P a n kq kev w
        else do {
          c_assert (feed_filter_ok P (kev_filter kev));
          c_assert (kev_ident kev = node_fd n);
          if kev_filter kev = EVFILT_EXCEPT then do {
            (rv, w1) \<leftarrow> feed_except P a n kq kev w;
            Some (feed_out P n kev rv w1)
          }
          else feed_read_write P n kev w
        });
     Some (maybe_translate_rdhup P n1, w1)
   }"

section \<open>Completion\<close>

definition completion_kevs :: "'w platform \<Rightarrow> addr \<Rightarrow> RegisteredFDsNode \<Rightarrow> kevent list option" where
  "completion_kevs P a n = do {
     let fl = EV_ADD OR EV_ONESHOT OR EV_RECEIPT;
     let r = (if has_evfilt_read n \<and> \<not> got_evfilt_read n
              then [EV_SET (node_fd n) EVFILT_READ fl 0 0 (Some a)] else []);
     let wr = (if has_evfilt_write n \<and> \<not> got_evfilt_write n
              then [EV_SET (node_fd n) EVFILT_WRITE fl 0 0 (Some a)] else []);
     let want_except = (has_evfilt_except n \<and> \<not> got_evfilt_except n);
     c_assert (want_except \<longrightarrow> cfg_EVFILT_EXCEPT P);
     Some (r @ wr @ (if want_except then [EV_SET (node_fd n) EVFILT_EXCEPT fl NOTE_OOB 0 (Some a)] else []))
   }"

text \<open>A completion kqueue of \<open>-1\<close> does not exist yet.\<close>

definition registered_fds_node_register_for_completion ::
  "'w platform \<Rightarrow> int \<Rightarrow> addr \<Rightarrow> RegisteredFDsNode \<Rightarrow> 'w \<Rightarrow> (int \<times> 'w) option" where
  "registered_fds_node_register_for_completion P kq a n w = do {
     kevs \<leftarrow> completion_kevs P a n;
     if kevs = [] then Some (kq, w)
     else
       (let (kq1, w1) =
          (if kq < 0
           then (case sys_kqueue1 P O_CLOEXEC w of (Inl _, w1) \<Rightarrow> (-1, w1) | (Inr q, w1) \<Rightarrow> (q, w1))
           else (kq, w))
        in Some (kq1, if kq1 \<ge> 0 then snd (sys_kevent P kq1 kevs (length kevs) w1) else w1))
   }"

section \<open>Well-formed nodes\<close>

abbreviation EPOLL_REQUESTS :: "'w platform \<Rightarrow> 32 word" where
  "EPOLL_REQUESTS P \<equiv> EPOLLIN OR EPOLLPRI OR EPOLLRDHUP P OR EPOLLOUT"

definition node_wf :: "'w platform \<Rightarrow> RegisteredFDsNode \<Rightarrow> bool" where
  "node_wf P n \<longleftrightarrow>
     subset_bits (events32 n) (EPOLL_REQUESTS P) \<and>
     (node_type n \<noteq> NODE_TYPE_SOCKET \<longrightarrow> subset_bits (events32 n) (EPOLLIN OR EPOLLOUT)) \<and>
     subset_bits (eof_state n) 3 \<and>
     (node_type n = NODE_TYPE_FIFO \<longrightarrow> fifo_readable n \<or> fifo_writable n) \<and>
     (node_type n = NODE_TYPE_KQUEUE \<longrightarrow> eof_state n = 0) \<and>
     (is_oneshot n \<longrightarrow> is_edge_triggered n) \<and>
     (has_evfilt_except n \<longrightarrow> cfg_EVFILT_EXCEPT P) \<and>
     (fst (node_self_pipe n) \<ge> 0 \<longleftrightarrow> snd (node_self_pipe n) \<ge> 0) \<and>
     (node_type n = NODE_TYPE_FIFO \<longrightarrow>
        (has_evfilt_read n \<longrightarrow> fifo_readable n) \<and> (has_evfilt_write n \<longrightarrow> fifo_writable n))"

text \<open>Pending events are events the caller asked for, hang-up, error, or the translated \<open>EPOLLRDHUP\<close>.\<close>

definition revents_ok :: "RegisteredFDsNode \<Rightarrow> bool" where
  "revents_ok n \<longleftrightarrow>
     subset_bits (revents n) (node_mask n OR (if needs_rdhup_translation n then 0x2000 else 0))"

lemma flag01_simps [simp]: "flag01 b = 0 \<longleftrightarrow> \<not> b" "flag01 b = 1 \<longleftrightarrow> b"
  by (simp_all add: flag01_def)

lemma filter_value_simps [simp]:
  "filter_value 0" "filter_value 1" "filter_value EV_CLEAR" "filter_value (flag01 b)"
  by (simp_all add: filter_value_def flag01_def)

lemma level_if_eof_simps [simp]: "level_if_eof n \<noteq> 0" "filter_value (level_if_eof n)"
  by (simp_all add: level_if_eof_def)

lemma events32_0 [simp]: "events32 n = 0 \<longleftrightarrow> events n = 0"
proof -
  have "unat (events32 n) = unat (events n)"
    using unsigned_less [of "events n", where 'a = nat]
    by (simp add: unsigned_ucast_eq take_bit_nat_eq_self)
  then show ?thesis by (simp flip: unat_eq_zero)
qed

lemma in_out_cases:
  assumes "subset_bits (events32 n) (EPOLLIN OR EPOLLOUT)" "events n \<noteq> 0"
  shows "has_bits (events32 n) EPOLLIN \<or> has_bits (events32 n) EPOLLOUT"
  using subset_bits_has_bits [OF assms(1)] assms(2) by (simp add: has_bits_mask_or [symmetric])

lemmas needed_defs = needed_fifo_def needed_kqueue_def needed_socket_def needed_other_def

text \<open>What the choice of filters guarantees before edge triggering is applied.\<close>

definition filters_cover :: "'w platform \<Rightarrow> RegisteredFDsNode \<Rightarrow> NeededFilters \<Rightarrow> bool" where
  "filters_cover P n f \<longleftrightarrow>
     (evfilt_read f \<noteq> 0 \<or> evfilt_write f \<noteq> 0) \<and>
     filter_value (evfilt_read f) \<and> filter_value (evfilt_write f) \<and> filter_value (evfilt_except f) \<and>
     (has_bits (events32 n) EPOLLIN \<and> (node_type n = NODE_TYPE_FIFO \<longrightarrow> fifo_readable n)
        \<longrightarrow> evfilt_read f \<noteq> 0) \<and>
     (has_bits (events32 n) EPOLLOUT \<and> node_type n \<noteq> NODE_TYPE_KQUEUE \<and>
        (node_type n = NODE_TYPE_FIFO \<longrightarrow> fifo_writable n) \<and>
        (node_type n = NODE_TYPE_SOCKET \<longrightarrow> eof_state n \<noteq> EOF_STATE_BOTH)
        \<longrightarrow> evfilt_write f \<noteq> 0) \<and>
     (has_bits (events32 n) EPOLLPRI \<and> node_type n = NODE_TYPE_SOCKET
        \<longrightarrow> (if cfg_EVFILT_EXCEPT P then evfilt_except f \<noteq> 0 else evfilt_read f \<noteq> 0))"

text \<open>A level-triggered request is watched by a level-triggered filter.\<close>

definition filters_level :: "RegisteredFDsNode \<Rightarrow> NeededFilters \<Rightarrow> bool" where
  "filters_level n f \<longleftrightarrow>
     (has_bits (events32 n) EPOLLIN \<longrightarrow> evfilt_read f \<noteq> EV_CLEAR) \<and>
     (has_bits (events32 n) EPOLLOUT \<longrightarrow> evfilt_write f \<noteq> EV_CLEAR) \<and>
     evfilt_except f \<noteq> EV_CLEAR"

lemma flag01_clear [simp]: "flag01 b \<noteq> EV_CLEAR"
  by (simp add: flag01_def)

lemma needed_fifo_cover:
  assumes "node_wf P n" "node_type n = NODE_TYPE_FIFO"
  shows "\<exists>f. needed_fifo n = Some f \<and> filters_cover P n f \<and> filters_level n f"
  using assms in_out_cases [of n]
  by (auto simp: node_wf_def needed_fifo_def filters_cover_def filters_level_def Let_def)

lemma needed_kqueue_cover:
  assumes "node_wf P n" "node_type n = NODE_TYPE_KQUEUE"
  shows "\<exists>f. needed_kqueue n = Some f \<and> filters_cover P n f \<and> filters_level n f"
  using assms by (auto simp: node_wf_def needed_kqueue_def filters_cover_def filters_level_def Let_def)

lemma needed_other_cover:
  assumes "node_wf P n" "node_type n \<noteq> NODE_TYPE_SOCKET" "node_type n \<noteq> NODE_TYPE_FIFO"
  shows "filters_cover P n (needed_other n) \<and> filters_level n (needed_other n)"
  using assms in_out_cases [of n]
  by (auto simp: node_wf_def needed_other_def filters_cover_def filters_level_def Let_def)

lemma needed_socket_cover:
  assumes "node_wf P n" "node_type n = NODE_TYPE_SOCKET"
  shows "filters_cover P n (needed_socket P n) \<and> filters_level n (needed_socket P n)"
proof -
  have "eof_state n = 0 \<or> eof_state n = 1 \<or> eof_state n = 2 \<or> eof_state n = 3"
    using assms(1) subset_bits_3 by (simp add: node_wf_def)
  then show ?thesis
    using assms(2)
    by (elim disjE)
      (auto simp: needed_socket_def filters_cover_def filters_level_def Let_def has_bits_def)
qed

lemma edge_filters_cover:
  assumes "filters_cover P n f"
  shows "filters_cover P n (edge_filters f)"
  using assms by (auto simp: filters_cover_def edge_filters_def)

section \<open>What feeding an event changes\<close>

text \<open>The registration itself is never changed by a delivered event.\<close>

definition same_request :: "RegisteredFDsNode \<Rightarrow> RegisteredFDsNode \<Rightarrow> bool" where
  "same_request n n' \<longleftrightarrow>
     node_fd n' = node_fd n \<and> node_data n' = node_data n \<and> node_type n' = node_type n \<and>
     events n' = events n \<and> is_registered n' = is_registered n \<and>
     needs_rdhup_translation n' = needs_rdhup_translation n \<and>
     is_edge_triggered n' = is_edge_triggered n \<and> is_oneshot n' = is_oneshot n \<and>
     is_on_pollfd_list n' = is_on_pollfd_list n \<and> node_self_pipe n' = node_self_pipe n \<and>
     fifo_readable n' = fifo_readable n \<and> fifo_writable n' = fifo_writable n \<and>
     pollable_desc n' = pollable_desc n \<and> has_evfilt_read n' = has_evfilt_read n \<and>
     has_evfilt_except n' = has_evfilt_except n"

lemma same_request_refl [simp]: "same_request n n"
  by (simp add: same_request_def)

lemma same_request_trans: "same_request a b \<Longrightarrow> same_request b c \<Longrightarrow> same_request a c"
  by (simp add: same_request_def)

lemma got_filter_sel [simp]:
  "same_request n (got_filter P f n)"
  "revents (got_filter P f n) = revents n" "eof_state (got_filter P f n) = eof_state n"
  "has_evfilt_write (got_filter P f n) = has_evfilt_write n"
  "node_type (got_filter P f n) = node_type n" "events (got_filter P f n) = events n"
  by (simp_all add: got_filter_def same_request_def split: kfilter.splits)

lemma feed_out_props:
  assumes "feed_out P n kev rv w = (n', w')"
  shows "same_request n n'" and "eof_state n' = eof_state n"
    and "has_evfilt_write n' = has_evfilt_write n"
    and "subset_bits (revents n') (node_mask n)"
    and "node_type n \<noteq> NODE_TYPE_KQUEUE \<Longrightarrow> revents n' = (revents n OR rv) AND node_mask n"
proof -
  have g: "same_request n (got_filter P f (n\<lparr>revents := r\<rparr>))" for f r
    using got_filter_sel(1) [of "n\<lparr>revents := r\<rparr>" P f] by (simp add: same_request_def)
  then have "same_request n (got_filter P f (n\<lparr>revents := r\<rparr>)\<lparr>revents := r'\<rparr>)" for f r r'
    by (simp add: same_request_def)
  moreover have "same_request n (n\<lparr>revents := r\<rparr>)" for r by (simp add: same_request_def)
  ultimately show "same_request n n'"
    using assms g by (auto simp: feed_out_def Let_def split: if_splits prod.splits)
  show "eof_state n' = eof_state n" "has_evfilt_write n' = has_evfilt_write n"
    "subset_bits (revents n') (node_mask n)"
    "node_type n \<noteq> NODE_TYPE_KQUEUE \<Longrightarrow> revents n' = (revents n OR rv) AND node_mask n"
    using assms by (auto simp: feed_out_def Let_def split: if_splits prod.splits)
qed

lemma maybe_translate_props:
  "same_request n (maybe_translate_rdhup P n)"
  "eof_state (maybe_translate_rdhup P n) = eof_state n"
  "has_evfilt_write (maybe_translate_rdhup P n) = has_evfilt_write n"
  by (simp_all add: maybe_translate_rdhup_def same_request_def)

lemma maybe_translate_revents_ok:
  assumes "revents_ok n"
  shows "revents_ok (maybe_translate_rdhup P n)"
  using assms
  by (auto simp: maybe_translate_rdhup_def revents_ok_def intro!: subset_bits_and_left intro: subset_bits_orI)

lemma node_wf_same:
  assumes "same_request n n'" "node_wf P n" "subset_bits (eof_state n') 3"
    and "node_type n = NODE_TYPE_KQUEUE \<longrightarrow> eof_state n' = 0"
    and "has_evfilt_write n' \<longrightarrow> has_evfilt_write n \<or> fifo_writable n"
  shows "node_wf P n'"
  using assms unfolding node_wf_def same_request_def by metis

lemma node_wf_eq:
  assumes "same_request n n'" "eof_state n' = eof_state n" "has_evfilt_write n' = has_evfilt_write n"
  shows "node_wf P n' = node_wf P n"
  using assms unfolding node_wf_def same_request_def by simp

text \<open>The kevents that the kernel delivers for a node, given the filters registered for it.\<close>

definition delivery_ok :: "'w platform \<Rightarrow> RegisteredFDsNode \<Rightarrow> kevent \<Rightarrow> bool" where
  "delivery_ok P n kev \<longleftrightarrow>
     (if node_type n = NODE_TYPE_POLL
      then revents n = 0 \<and> (cfg_EVFILT_USER P \<longrightarrow> kev_filter kev = EVFILT_USER)
      else if is_fifo_self_trigger P n kev
      then revents n = 0 \<and> \<not> has_evfilt_read n \<and> \<not> has_evfilt_write n \<and> \<not> has_evfilt_except n \<and>
           fifo_writable n \<and> (fifo_readable n \<longrightarrow> has_bits (events32 n) EPOLLOUT)
      else feed_filter_ok P (kev_filter kev) \<and> kev_ident kev = node_fd n \<and>
           (kev_filter kev = EVFILT_EXCEPT \<longrightarrow>
              node_type n = NODE_TYPE_SOCKET \<and> has_bits (kev_fflags kev) NOTE_OOB) \<and>
           (node_type n = NODE_TYPE_KQUEUE \<longrightarrow> \<not> has_bits (kev_flags kev) EV_EOF) \<and>
           (node_type n = NODE_TYPE_FIFO \<and> kev_filter kev = EVFILT_WRITE \<longrightarrow> fifo_writable n))"

lemma subset_3_simps [simp]: "subset_bits (1 :: 32 word) 3" "subset_bits (2 :: 32 word) 3"
  by (simp_all add: subset_bits_def)

lemma feed_eof_state_bound:
  assumes "subset_bits (eof_state n) 3"
  shows "subset_bits (feed_eof_state n kev) 3"
  using assms
  by (auto simp: feed_eof_state_def Let_def intro: subset_bits_and_left split: kfilter.splits)

lemma feed_eof_state_kqueue:
  assumes "node_type n = NODE_TYPE_KQUEUE" "eof_state n = 0" "\<not> has_bits (kev_flags kev) EV_EOF"
  shows "feed_eof_state n kev = 0"
  using assms by (simp add: feed_eof_state_def split: kfilter.splits)

lemma feed_pollpri_props:
  assumes "feed_pollpri P n w = (pri, n1, w1)"
  shows "\<exists>b. n1 = n\<lparr>pollpri_active := b\<rparr>" and "pri = 0 \<or> pri = EPOLLPRI"
proof -
  have "\<exists>b. m = m\<lparr>pollpri_active := b\<rparr>" for m :: RegisteredFDsNode
    by (rule exI [of _ "pollpri_active m"]) simp
  then show "\<exists>b. n1 = n\<lparr>pollpri_active := b\<rparr>"
    using assms unfolding feed_pollpri_def by (auto split: if_splits prod.splits sum.splits)
  show "pri = 0 \<or> pri = EPOLLPRI"
    using assms by (auto simp: feed_pollpri_def split: if_splits prod.splits sum.splits)
qed

text \<open>A feed step keeps the node well-formed and its pending events within the request.\<close>

definition feed_keeps :: "'w platform \<Rightarrow> RegisteredFDsNode \<Rightarrow> RegisteredFDsNode \<Rightarrow> bool" where
  "feed_keeps P n n' \<longleftrightarrow> same_request n n' \<and> node_wf P n' \<and> revents_ok n'"

lemma same_request_mask: "same_request n n' \<Longrightarrow> node_mask n' = node_mask n"
  by (simp add: same_request_def)

lemma feed_out_keeps:
  assumes "feed_out P n kev rv w = (n', w')" "node_wf P n"
  shows "feed_keeps P n n'"
proof -
  note p = feed_out_props [OF assms(1)]
  have "node_wf P n'"
    using node_wf_same [OF p(1) assms(2)] p(2,3) assms(2) by (simp add: node_wf_def)
  moreover have "revents_ok n'"
    unfolding revents_ok_def same_request_mask [OF p(1)] using p(4) by (rule subset_bits_orI [OF disjI1])
  ultimately show ?thesis using p(1) by (simp add: feed_keeps_def)
qed

lemma feed_eof_events_total:
  assumes "kev_filter kev = EVFILT_READ \<or> kev_filter kev = EVFILT_WRITE"
    and "node_type n = NODE_TYPE_FIFO \<longrightarrow> (has_evfilt_read n \<longrightarrow> fifo_readable n)"
    and "node_type n = NODE_TYPE_FIFO \<and> kev_filter kev = EVFILT_WRITE \<longrightarrow> fifo_writable n"
  shows "\<exists>r. feed_eof_events P n kev rv = Some r"
  using assms by (auto simp: feed_eof_events_def split: NodeType.splits)

lemma add_pollhup_keeps:
  assumes "node_wf P n" "revents_ok n"
  shows "feed_keeps P n (add_pollhup n)"
proof -
  have s: "same_request n (add_pollhup n)" by (simp add: add_pollhup_def same_request_def)
  have "node_wf P (add_pollhup n)"
    by (rule node_wf_same [OF s assms(1)]) (use assms(1) in \<open>simp_all add: node_wf_def add_pollhup_def\<close>)
  moreover have "revents_ok (add_pollhup n)"
  proof (cases "revents n = 0")
    case False
    have "subset_bits EPOLLHUP (node_mask n OR x)" for x
      by (meson subset_bits_orI subset_bits_refl)
    then show ?thesis
      using assms(2) False unfolding revents_ok_def add_pollhup_def by simp
  qed (use assms(2) in \<open>simp add: add_pollhup_def\<close>)
  ultimately show ?thesis using s by (simp add: feed_keeps_def)
qed

lemma feed_filter_revents_props:
  assumes "feed_filter_revents P n kev w = (rv, n1, w1)"
  shows "\<exists>b. n1 = n\<lparr>pollpri_active := b\<rparr>"
proof (cases "kev_filter kev = EVFILT_READ")
  case True
  then obtain pri where "feed_pollpri P n w = (pri, n1, w1)"
    using assms by (auto simp: feed_filter_revents_def split: prod.splits)
  then show ?thesis by (rule feed_pollpri_props(1))
next
  case False
  then show ?thesis
    using assms by (intro exI [of _ "pollpri_active n"]) (simp add: feed_filter_revents_def)
qed

lemma feed_read_write_safe:
  assumes "node_wf P n" "revents_ok n" "delivery_ok P n kev"
    and "node_type n \<noteq> NODE_TYPE_POLL" "\<not> is_fifo_self_trigger P n kev" "kev_filter kev \<noteq> EVFILT_EXCEPT"
  shows "\<exists>n' w'. feed_read_write P n kev w = Some (n', w') \<and> feed_keeps P n n'"
proof -
  have f: "kev_filter kev = EVFILT_READ \<or> kev_filter kev = EVFILT_WRITE"
    using assms(3-6) by (auto simp: delivery_ok_def feed_filter_ok_def)
  obtain rv0 n1 w1 where d: "feed_filter_revents P n kev w = (rv0, n1, w1)"
    by (metis prod_cases3)
  obtain b where n1: "n1 = n\<lparr>pollpri_active := b\<rparr>" using feed_filter_revents_props [OF d] by auto
  define n2 where "n2 = n1\<lparr>eof_state := feed_eof_state n1 kev\<rparr>"
  have s: "same_request n n2" by (simp add: n2_def n1 same_request_def)
  have "subset_bits (eof_state n2) 3" and "node_type n = NODE_TYPE_KQUEUE \<longrightarrow> eof_state n2 = 0"
    using assms feed_eof_state_bound [of n1 kev] feed_eof_state_kqueue [of n1 kev]
    by (auto simp: n2_def n1 node_wf_def delivery_ok_def)
  then have wf2: "node_wf P n2" and r2: "revents_ok n2"
    using node_wf_same [OF s assms(1)] assms(2) by (simp_all add: n2_def n1 revents_ok_def)
  have keep: "feed_keeps P n m" if "feed_keeps P n2 m" for m
    using that s same_request_trans by (auto simp: feed_keeps_def)
  have out: "\<exists>n' w'. Some (feed_out P n2 kev rv v) = Some (n', w') \<and> feed_keeps P n n'" for rv v
    using feed_out_keeps [OF _ wf2] keep by (metis surj_pair)
  have "\<exists>r. feed_eof_events P n2 kev rv = Some r" for rv
    using feed_eof_events_total [OF f, of n2 P rv] wf2 assms(3-5) s
    by (auto simp: node_wf_def delivery_ok_def same_request_def n2_def n1)
  then obtain r where "feed_eof_events P n2 kev (rv0 OR feed_errors kev) = Some r" by blast
  then show ?thesis
    unfolding feed_read_write_def d Let_def prod.case n2_def [symmetric]
    using out keep [OF add_pollhup_keeps [OF wf2 r2]]
    by (cases "eof_state n2 = 0"; cases r) simp_all
qed

lemma scast_small:
  assumes "\<not> bit (a :: 16 word) 15"
  shows "(scast a :: 32 word) = ucast a"
proof (rule bit_eqI)
  fix k assume "possible_bit TYPE(32 word) k"
  have k: "bit a k \<Longrightarrow> k < 16" using bit_imp_le_length [of a k] by simp
  show "bit (scast a :: 32 word) k \<longleftrightarrow> bit (ucast a :: 32 word) k"
    using assms k by (cases "k = 15") (auto simp: bit_signed_iff bit_unsigned_iff min_def)
qed

lemma subset_bits_ucast: "subset_bits a b \<Longrightarrow> subset_bits (ucast a :: 'b::len word) (ucast b)"
  by (simp add: subset_bits_iff bit_unsigned_iff)

lemma subset_bits_drop: "subset_bits a (m OR n OR k) \<Longrightarrow> \<not> has_bits a k \<Longrightarrow> subset_bits a (m OR n)"
  by (auto simp: subset_bits_iff has_bits_iff bit_or_iff)

lemma subset_bits_rotate: "subset_bits a ((x OR y) OR z) \<Longrightarrow> subset_bits a (x OR z OR y)"
  by (auto simp: subset_bits_iff bit_or_iff)

lemma poll_revents_bound:
  assumes r: "subset_bits r (e OR POLLERR OR POLLHUP OR POLLNVAL)"
    and e: "subset_bits (ucast e :: 32 word) (EPOLLIN OR EPOLLOUT)"
    and nval: "\<not> has_bits (scast r :: 32 word) (ucast POLLNVAL)"
  shows "subset_bits (scast r :: 32 word) (ucast e OR EPOLLHUP OR EPOLLERR)"
proof -
  have "\<not> bit (EPOLLIN OR EPOLLOUT) 15" by simp
  then have "\<not> bit e 15"
    using e [unfolded subset_bits_iff, rule_format, of 15] by (auto simp: bit_unsigned_iff)
  moreover have "\<not> bit (POLLERR OR POLLHUP OR POLLNVAL) 15" by simp
  ultimately have "\<not> bit r 15"
    using r unfolding subset_bits_iff bit_or_iff by blast
  then have s: "(scast r :: 32 word) = ucast r" by (rule scast_small)
  have "subset_bits (ucast r :: 32 word) ((ucast e OR EPOLLERR) OR EPOLLHUP OR ucast POLLNVAL)"
    using subset_bits_ucast [OF r, where 'b = 32] by (simp add: unsigned_or_eq or.assoc)
  from subset_bits_rotate [OF subset_bits_drop [OF this]] nval show ?thesis
    unfolding s by blast
qed

lemma feed_poll_safe:
  assumes "node_wf P n" "delivery_ok P n kev" "node_type n = NODE_TYPE_POLL"
    and "poll_ok P" "pipes_drain P"
  shows "\<exists>n' w'. feed_poll P n kev w = Some (n', w') \<and> feed_keeps P n n'"
proof -
  obtain w1 where w1: "(if cfg_EVFILT_USER P
      then do { c_assert (kev_filter kev = EVFILT_USER); Some w }
      else drain_pipe P (fst (node_self_pipe n)) w) = Some w1"
    using assms(2,3,5) by (cases "cfg_EVFILT_USER P") (auto simp: delivery_ok_def pipes_drain_def)
  obtain r w2 where p: "sys_poll P [\<lparr>pfd_fd = node_fd n, pfd_events = events n, pfd_revents = 0\<rparr>] 0 w1 = (r, w2)"
    by fastforce
  define rv where "rv = (case r of Inl _ \<Rightarrow> EPOLLERR | Inr (_, pfds) \<Rightarrow> (scast (pfd_revents (hd pfds)) :: 32 word))"
  define rv1 where "rv1 = (if has_bits rv (ucast POLLNVAL) then 0 else rv)"
  have e: "subset_bits (events32 n) (EPOLLIN OR EPOLLOUT)" using assms(1,3) by (simp add: node_wf_def)
  have "subset_bits EPOLLERR (node_mask n)" by (meson subset_bits_orI subset_bits_refl)
  then have m: "subset_bits rv1 (node_mask n)"
  proof (cases r)
    case (Inr q)
    obtain k out where q: "q = (k, out)" by (cases q)
    note b = poll_okD [OF assms(4) p [unfolded Inr q]]
    from poll_revents_bound [of "pfd_revents (hd out)" "events n", OF _ e] b show ?thesis
      by (simp add: rv1_def rv_def Inr q)
  qed (simp add: rv1_def rv_def)
  have "subset_bits (node_mask n) ((EPOLLIN OR EPOLLOUT) OR EPOLLHUP OR EPOLLERR)"
    using e unfolding subset_bits_or_left by (meson subset_bits_orI subset_bits_refl)
  moreover have "subset_bits ((EPOLLIN OR EPOLLOUT) OR EPOLLHUP OR EPOLLERR) (poll_revents_mask P)"
    unfolding poll_revents_mask_def subset_bits_or_left by (meson subset_bits_orI subset_bits_refl)
  ultimately have "subset_bits rv1 (poll_revents_mask P)" using m subset_bits_trans by blast
  then have f: "feed_poll P n kev w = Some (n\<lparr>revents := rv1\<rparr>, w2)"
    using assms(2,3) unfolding feed_poll_def w1
    by (simp add: p delivery_ok_def rv1_def rv_def Let_def split: if_splits)
  have s: "same_request n (n\<lparr>revents := rv1\<rparr>)" by (simp add: same_request_def)
  have "node_wf P (n\<lparr>revents := rv1\<rparr>)"
    by (rule node_wf_same [OF s assms(1)]) (use assms(1) in \<open>simp_all add: node_wf_def\<close>)
  moreover have "revents_ok (n\<lparr>revents := rv1\<rparr>)"
    using subset_bits_orI [OF disjI1 [OF m]] by (simp add: revents_ok_def)
  ultimately show ?thesis using f s by (simp add: feed_keeps_def)
qed

lemma get_needed_filters_cover:
  assumes "node_wf P n"
  shows "\<exists>f. get_needed_filters P n = Some f \<and> filters_cover P n f \<and>
    (\<not> is_edge_triggered n \<longrightarrow> filters_level n f) \<and>
    (is_edge_triggered n \<longrightarrow> evfilt_read f \<noteq> 1 \<and> evfilt_write f \<noteq> 1 \<and> evfilt_except f \<noteq> 1)"
proof -
  obtain f0 where f0: "needed_by_type P n = Some f0" and c: "filters_cover P n f0" "filters_level n f0"
    using needed_fifo_cover [OF assms] needed_kqueue_cover [OF assms] needed_socket_cover [OF assms]
      needed_other_cover [OF assms]
    by (cases "node_type n") (auto simp: needed_by_type_def)
  define f where "f = (if is_edge_triggered n then edge_filters f0 else f0)"
  have cf: "filters_cover P n f" using c(1) edge_filters_cover [OF c(1)] by (simp add: f_def)
  moreover have "get_needed_filters P n = Some f"
    using cf unfolding get_needed_filters_def f0 by (simp add: filters_cover_def Let_def flip: f_def)
  ultimately show ?thesis using c(2) by (auto simp: f_def edge_filters_def)
qed

lemma get_needed_filters_base:
  assumes "get_needed_filters P n = Some f"
  obtains f0 where "needed_by_type P n = Some f0" "f = (if is_edge_triggered n then edge_filters f0 else f0)"
    "evfilt_read f \<noteq> 0 \<or> evfilt_write f \<noteq> 0"
  using assms
  by (auto simp: get_needed_filters_def Let_def bind_c_assert_eq_Some split: Option.bind_splits)

lemma edge_filters_zero:
  "evfilt_read (edge_filters f) = 0 \<longleftrightarrow> evfilt_read f = 0"
  "evfilt_write (edge_filters f) = 0 \<longleftrightarrow> evfilt_write f = 0"
  "evfilt_except (edge_filters f) = 0 \<longleftrightarrow> evfilt_except f = 0"
  by (simp_all add: edge_filters_def)

lemma trigger_self_total:
  assumes "cfg_EVFILT_USER P \<or> snd (node_self_pipe n) \<ge> 0"
  shows "\<exists>w'. registered_fds_node_trigger_self P a n kq w = Some w'"
  using assms by (auto simp: registered_fds_node_trigger_self_def)

lemma feed_fifo_self_trigger_safe:
  assumes "node_wf P n" "delivery_ok P n kev" "is_fifo_self_trigger P n kev"
  shows "\<exists>n' w'. feed_fifo_self_trigger P a n kq kev w = Some (n', w') \<and> feed_keeps P n n'"
proof -
  have ty: "node_type n = NODE_TYPE_FIFO" using assms(3) by (simp add: is_fifo_self_trigger_def)
  obtain f where f: "get_needed_filters P n = Some f" "filters_cover P n f"
    using get_needed_filters_cover [OF assms(1)] by blast
  have d: "revents n = 0" "\<not> has_evfilt_read n" "\<not> has_evfilt_write n" "\<not> has_evfilt_except n"
    "fifo_writable n" "fifo_readable n \<longrightarrow> has_bits (events32 n) EPOLLOUT"
    using assms(2,3) ty by (simp_all add: delivery_ok_def)
  have "evfilt_write f \<noteq> 0"
  proof (cases "fifo_readable n")
    case True
    then show ?thesis using f(2) d ty by (simp add: filters_cover_def)
  next
    case False
    then have "evfilt_read f = 0"
      using f(1) d ty
      by (auto simp: get_needed_filters_def needed_by_type_def needed_fifo_def edge_filters_def Let_def
          bind_c_assert_eq_Some)
    then show ?thesis using f(2) by (simp add: filters_cover_def)
  qed
  obtain r w1 where k: "sys_kevent P kq [EV_SET (node_fd n) EVFILT_WRITE
      (EV_ADD OR (evfilt_write f AND EV_CLEAR) OR EV_RECEIPT) 0 0 (Some a)] 1 w = (r, w1)"
    by fastforce
  have "cfg_EVFILT_USER P \<or> snd (node_self_pipe n) \<ge> 0"
    using assms(1,3) by (cases "cfg_EVFILT_USER P") (simp_all add: is_fifo_self_trigger_def node_wf_def)
  then obtain w2 where w2: "registered_fds_node_trigger_self P a n kq w1 = Some w2"
    using trigger_self_total [of P n a kq w1] by auto
  have s: "same_request n (n\<lparr>has_evfilt_write := True\<rparr>)" by (simp add: same_request_def)
  have "feed_keeps P n (n\<lparr>has_evfilt_write := True\<rparr>)"
    using node_wf_same [OF s assms(1)] s assms(1) d by (simp add: feed_keeps_def node_wf_def revents_ok_def)
  moreover have "\<exists>n' w'. Some (feed_out P n kev rv v) = Some (n', w') \<and> feed_keeps P n n'" for rv v
    using feed_out_keeps [OF _ assms(1)] by (metis surj_pair)
  ultimately show ?thesis
    unfolding feed_fifo_self_trigger_def f(1)
    using d \<open>evfilt_write f \<noteq> 0\<close> k w2 by (simp add: Let_def)
qed

lemma feed_except_total:
  assumes "node_wf P n" "cfg_APPLE P \<or> has_bits (kev_fflags kev) NOTE_OOB"
  shows "\<exists>rv w'. feed_except P a n kq kev w = Some (rv, w')"
proof -
  obtain f where "get_needed_filters P n = Some f" using get_needed_filters_cover [OF assms(1)] by blast
  then show ?thesis
    using assms(2) by (auto simp: feed_except_def Let_def split: prod.splits sum.splits)
qed

lemma feed_event_keeps:
  assumes "node_wf P n" "revents_ok n" "delivery_ok P n kev" "poll_ok P" "pipes_drain P"
  shows "\<exists>n' w'. registered_fds_node_feed_event P a n kq kev w = Some (n', w') \<and> feed_keeps P n n'"
proof -
  have "\<exists>n1 w1. (if node_type n = NODE_TYPE_POLL then feed_poll P n kev w
        else if is_fifo_self_trigger P n kev then feed_fifo_self_trigger P a n kq kev w
        else do {
          c_assert (feed_filter_ok P (kev_filter kev));
          c_assert (kev_ident kev = node_fd n);
          if kev_filter kev = EVFILT_EXCEPT then do {
            (rv, w1) \<leftarrow> feed_except P a n kq kev w;
            Some (feed_out P n kev rv w1)
          }
          else feed_read_write P n kev w
        }) = Some (n1, w1) \<and> feed_keeps P n n1"
  proof (cases "node_type n = NODE_TYPE_POLL \<or> is_fifo_self_trigger P n kev")
    case True
    then show ?thesis
      using feed_poll_safe [OF assms(1,3) _ assms(4,5)] feed_fifo_self_trigger_safe [OF assms(1,3)] by auto
  next
    case False
    then have d: "feed_filter_ok P (kev_filter kev)" "kev_ident kev = node_fd n"
      "kev_filter kev = EVFILT_EXCEPT \<longrightarrow> has_bits (kev_fflags kev) NOTE_OOB"
      using assms(3) by (simp_all add: delivery_ok_def)
    have "feed_keeps P n (fst (feed_out P n kev rv v))" for rv v
      using feed_out_keeps [OF _ assms(1)] by (metis prod.collapse)
    then show ?thesis
      using False d feed_except_total [OF assms(1), of kev a kq w] feed_read_write_safe [OF assms(1-3), of w]
      by (cases "kev_filter kev = EVFILT_EXCEPT") (auto simp: prod_eq_iff)
  qed
  then obtain n1 w1 where
    f: "registered_fds_node_feed_event P a n kq kev w = Some (maybe_translate_rdhup P n1, w1)"
    and k: "feed_keeps P n n1"
    unfolding registered_fds_node_feed_event_def by auto
  have "node_wf P (maybe_translate_rdhup P n1)"
    using k by (simp add: feed_keeps_def node_wf_eq [OF maybe_translate_props])
  then have "feed_keeps P n (maybe_translate_rdhup P n1)"
    using k same_request_trans [OF _ maybe_translate_props(1), of n n1 P] maybe_translate_revents_ok [of n1 P]
    by (simp add: feed_keeps_def)
  then show ?thesis using f by blast
qed

text \<open>Pending events are not lost by later events of the same pass.\<close>

lemma feed_out_mono:
  assumes "feed_out P n kev rv w = (n', w')" "node_type n \<noteq> NODE_TYPE_KQUEUE"
    and "revents_ok n" "\<not> needs_rdhup_translation n"
  shows "subset_bits (revents n) (revents n')"
  using feed_out_props(5) [OF assms(1,2)] assms(3,4)
  by (auto simp: revents_ok_def subset_bits_iff bit_and_iff bit_or_iff)

lemma subset_bits_or_either: "subset_bits a b \<Longrightarrow> subset_bits a (b OR c)" "subset_bits a c \<Longrightarrow> subset_bits a (b OR c)"
  by (simp_all add: subset_bits_orI)

lemma add_pollhup_mono: "subset_bits (revents n) (revents (add_pollhup n))"
  by (simp add: add_pollhup_def subset_bits_or_either)

lemma maybe_translate_mono:
  assumes "subset_bits a (revents n)" "\<not> has_bits (EPOLLRDHUP P) a \<or> \<not> needs_rdhup_translation n"
  shows "subset_bits a (revents (maybe_translate_rdhup P n))"
  using assms by (auto simp: maybe_translate_rdhup_def intro: subset_bits_minus)

text \<open>Outside kqueues, and without the translation of \<open>EPOLLRDHUP\<close>, feeding only adds pending events.\<close>

lemma feed_read_write_mono:
  assumes "feed_read_write P n kev w = Some (n', w')" "node_type n \<noteq> NODE_TYPE_KQUEUE"
    and "revents_ok n" "\<not> needs_rdhup_translation n"
  shows "subset_bits (revents n) (revents n')" and "needs_rdhup_translation n' = needs_rdhup_translation n"
proof -
  obtain rv0 n1 w1 where d: "feed_filter_revents P n kev w = (rv0, n1, w1)" by (metis prod_cases3)
  obtain b where n1: "n1 = n\<lparr>pollpri_active := b\<rparr>" using feed_filter_revents_props [OF d] by auto
  define n2 where "n2 = n1\<lparr>eof_state := feed_eof_state n1 kev\<rparr>"
  have eq: "revents n2 = revents n" "node_type n2 = node_type n" "revents_ok n2 = revents_ok n"
    "needs_rdhup_translation n2 = needs_rdhup_translation n"
    by (simp_all add: n2_def n1 revents_ok_def)
  have "(\<exists>rv v. feed_out P n2 kev rv v = (n', w')) \<or> n' = add_pollhup n2"
    using assms(1) unfolding feed_read_write_def d Let_def prod.case n2_def [symmetric]
    by (auto split: if_splits option.splits Option.bind_splits)
  then show "subset_bits (revents n) (revents n')" "needs_rdhup_translation n' = needs_rdhup_translation n"
    using feed_out_mono [of P n2 kev _ _ n' w'] feed_out_props(1) [of P n2 kev _ _ n' w']
      add_pollhup_mono [of n2] assms(2-4)
    by (auto simp: eq same_request_def add_pollhup_def split: if_splits)
qed

lemma feed_event_mono:
  assumes "registered_fds_node_feed_event P a n kq kev w = Some (n', w')" "node_type n \<noteq> NODE_TYPE_KQUEUE"
    and "revents_ok n" "\<not> needs_rdhup_translation n"
  shows "subset_bits (revents n) (revents n')"
proof (cases "revents n = 0")
  case False
  then obtain n1 w1 where n': "n' = maybe_translate_rdhup P n1"
    and "(\<exists>rv v. feed_out P n kev rv v = (n1, w1)) \<or> feed_read_write P n kev w = Some (n1, w1)"
    using assms(1)
    by (auto simp: registered_fds_node_feed_event_def feed_poll_def feed_fifo_self_trigger_def
        bind_c_assert_eq_Some split: if_splits Option.bind_splits)
  then have "subset_bits (revents n) (revents n1)" "\<not> needs_rdhup_translation n1"
    using feed_out_mono [of P n kev _ _ n1 w1] feed_read_write_mono [of P n kev w n1 w1] assms(2-4)
      feed_out_props(1) [of P n kev _ _ n1 w1]
    by (auto simp: same_request_def)
  then show ?thesis unfolding n' by (auto intro: maybe_translate_mono)
qed simp

section \<open>Properties\<close>


definition demo_node :: "NodeType \<Rightarrow> 16 word \<Rightarrow> RegisteredFDsNode" where
  "demo_node ty ev = (fresh_node 7)\<lparr>node_type := ty, events := ev, fifo_readable := True, is_registered := True\<rparr>"




text \<open>The bits of \<open>EPOLLRDHUP\<close> are not those of another event.\<close>

definition rdhup_ok :: "'w platform \<Rightarrow> bool" where
  "rdhup_ok P \<longleftrightarrow>
     \<not> has_bits (EPOLLRDHUP P) EPOLLIN \<and> \<not> has_bits (EPOLLRDHUP P) EPOLLOUT \<and>
     \<not> has_bits (EPOLLRDHUP P) EPOLLHUP"

lemma feed_socket_eof:
  assumes "registered_fds_node_feed_event P a n kq kev w = Some (n', w')"
    and ty: "node_type n = NODE_TYPE_SOCKET"
    and f: "kev_filter kev = EVFILT_READ \<or> kev_filter kev = EVFILT_WRITE"
    and eof: "feed_eof_state n kev \<noteq> 0"
  shows "\<exists>m. n' = maybe_translate_rdhup P m \<and> eof_state n' = feed_eof_state n kev \<and>
    same_request n m \<and>
    subset_bits (socket_eof_events P (feed_eof_state n kev) AND node_mask n) (revents m)"
proof -
  obtain rv0 n1 w1 where d: "feed_filter_revents P n kev w = (rv0, n1, w1)" by (metis prod_cases3)
  obtain b where n1: "n1 = n\<lparr>pollpri_active := b\<rparr>" using feed_filter_revents_props [OF d] by auto
  define n2 where "n2 = n1\<lparr>eof_state := feed_eof_state n1 kev\<rparr>"
  have e1: "feed_eof_state n1 kev = feed_eof_state n kev" 
    by (simp add: n1 feed_eof_state_def Let_def split: kfilter.splits)
  have "registered_fds_node_feed_event P a n kq kev w =
      map_option (\<lambda>(m, v). (maybe_translate_rdhup P m, v)) (feed_read_write P n kev w)"
    using assms(1) f ty
    by (auto simp: registered_fds_node_feed_event_def is_fifo_self_trigger_def bind_c_assert_eq_Some
        split: if_splits Option.bind_splits)
  then obtain m where m: "feed_read_write P n kev w = Some (m, w')" "n' = maybe_translate_rdhup P m"
    using assms(1) by (cases "feed_read_write P n kev w") auto
  then have o: "feed_out P n2 kev ((rv0 OR feed_errors kev) OR socket_eof_events P (feed_eof_state n kev)) w1 = (m, w')"
    using eof ty unfolding feed_read_write_def d Let_def prod.case n2_def [symmetric]
    by (simp add: n2_def n1 feed_eof_events_def e1 [unfolded n1])
  note p = feed_out_props [OF o]
  have "same_request n m" "eof_state m = feed_eof_state n kev"
    using p(1,2) by (simp_all add: n2_def n1 same_request_def e1 [unfolded n1])
  moreover have "revents m = (revents n OR ((rv0 OR feed_errors kev) OR
      socket_eof_events P (feed_eof_state n kev))) AND node_mask n"
    using p(5) ty by (simp add: n2_def n1)
  then have "subset_bits (socket_eof_events P (feed_eof_state n kev) AND node_mask n) (revents m)"
    by (auto simp: subset_bits_iff bit_and_iff bit_or_iff)
  ultimately show ?thesis using m(2) by (auto simp: maybe_translate_props(2))
qed

text \<open>C20: a socket that is shut down on both sides reports a hang-up. When the end-of-file event
  for one direction arrives on a socket whose other direction is already at end of file, the node
  has \<open>EPOLLHUP\<close> pending whether or not it was asked for, together with the requested ones of
  \<open>EPOLLIN\<close> and \<open>EPOLLOUT\<close>; a requested \<open>EPOLLRDHUP\<close> is pending too, as the bit \<open>0x2000\<close> for a caller
  that asked with Linux's value.\<close>

theorem socket_shutdown_hangup:
  assumes "registered_fds_node_feed_event P a n kq kev w = Some (n', w')"
    and "node_type n = NODE_TYPE_SOCKET" and "has_bits (kev_flags kev) EV_EOF"
    and "kev_filter kev = EVFILT_READ \<and> eof_state n = EOF_STATE_WRITE_EOF \<or>
         kev_filter kev = EVFILT_WRITE \<and> eof_state n = EOF_STATE_READ_EOF"
    and "rdhup_ok P"
  shows "eof_state n' = EOF_STATE_BOTH \<and> has_bits (revents n') EPOLLHUP \<and>
    (has_bits (events32 n) EPOLLIN \<longrightarrow> has_bits (revents n') EPOLLIN) \<and>
    (has_bits (events32 n) EPOLLOUT \<longrightarrow> has_bits (revents n') EPOLLOUT) \<and>
    (has_bits (events32 n) (EPOLLRDHUP P) \<longrightarrow>
       has_bits (revents n') (if needs_rdhup_translation n then 0x2000 else EPOLLRDHUP P))"
proof -
  have e: "feed_eof_state n kev = EOF_STATE_BOTH"
    using assms(2-4) by (auto simp: feed_eof_state_def)
  have f: "kev_filter kev = EVFILT_READ \<or> kev_filter kev = EVFILT_WRITE" using assms(4) by blast
  obtain m where n': "n' = maybe_translate_rdhup P m" and eof: "eof_state n' = EOF_STATE_BOTH"
    and s: "same_request n m"
    and m: "subset_bits (socket_eof_events P EOF_STATE_BOTH AND node_mask n) (revents m)"
    using feed_socket_eof [OF assms(1,2) f] e by auto
  have ev: "socket_eof_events P EOF_STATE_BOTH = EPOLLIN OR EPOLLRDHUP P OR EPOLLOUT OR EPOLLHUP"
    by (simp add: socket_eof_events_def has_bits_def or.assoc)
  have pending: "has_bits (revents m) q"
    if "has_bits (socket_eof_events P EOF_STATE_BOTH AND node_mask n) q" for q
    using has_bits_subset [OF that m] .
  have keep: "has_bits (revents n') q" if "has_bits (revents m) q" "\<not> has_bits (EPOLLRDHUP P) q" for q
    using that unfolding n' maybe_translate_rdhup_def by (simp add: has_bits_minus)
  have req: "has_bits (socket_eof_events P EOF_STATE_BOTH AND node_mask n) q"
    if "has_bits (node_mask n) q" "subset_bits q (EPOLLIN OR EPOLLRDHUP P OR EPOLLOUT OR EPOLLHUP)" for q
    using that unfolding ev has_bits_iff subset_bits_iff bit_and_iff by blast
  have any: "has_bits (revents m) q"
    if "has_bits (node_mask n) q" "subset_bits q (EPOLLIN OR EPOLLRDHUP P OR EPOLLOUT OR EPOLLHUP)" for q
    using pending [OF req [OF that]] .
  have sub: "subset_bits EPOLLIN (EPOLLIN OR EPOLLRDHUP P OR EPOLLOUT OR EPOLLHUP)"
    "subset_bits EPOLLOUT (EPOLLIN OR EPOLLRDHUP P OR EPOLLOUT OR EPOLLHUP)"
    "subset_bits EPOLLHUP (EPOLLIN OR EPOLLRDHUP P OR EPOLLOUT OR EPOLLHUP)"
    "subset_bits (EPOLLRDHUP P) (EPOLLIN OR EPOLLRDHUP P OR EPOLLOUT OR EPOLLHUP)"
    by (meson subset_bits_orI subset_bits_refl)+
  have hup: "has_bits (node_mask n) EPOLLHUP"
    by (simp add: has_bits_or) (simp add: has_bits_def)
  have mask: "has_bits (events32 n) q \<Longrightarrow> has_bits (node_mask n) q" for q
    by (simp add: has_bits_or)
  have rd: "has_bits (revents n') (if needs_rdhup_translation n then 0x2000 else EPOLLRDHUP P)"
    if "has_bits (events32 n) (EPOLLRDHUP P)"
  proof -
    have "has_bits (revents m) (EPOLLRDHUP P)" using any [OF mask [OF that] sub(4)] .
    moreover have "needs_rdhup_translation m = needs_rdhup_translation n"
      using s by (simp add: same_request_def)
    moreover have "has_bits (x OR 0x2000) (0x2000 :: 32 word)" for x
      by (simp add: has_bits_or) (simp add: has_bits_def)
    ultimately show ?thesis unfolding n' maybe_translate_rdhup_def by simp
  qed
  show ?thesis
    using eof keep any sub hup mask rd assms(5) unfolding rdhup_ok_def by blast
qed

theorem socket_shutdown_hangup_witness:
  "\<exists>n' w'. registered_fds_node_feed_event quiet_platform 64
      ((demo_node NODE_TYPE_SOCKET 0x4001)\<lparr>eof_state := EOF_STATE_WRITE_EOF, needs_rdhup_translation := True\<rparr>) 3
      (EV_SET 7 EVFILT_READ EV_EOF 0 0 (Some 64)) (0::nat) = Some (n', w') \<and>
    has_bits (revents n') EPOLLHUP \<and> has_bits (revents n') 0x2000"
proof -
  let ?n = "(demo_node NODE_TYPE_SOCKET 0x4001)\<lparr>eof_state := EOF_STATE_WRITE_EOF, needs_rdhup_translation := True\<rparr>"
  let ?k = "EV_SET 7 EVFILT_READ EV_EOF 0 0 (Some 64)"
  have "\<exists>n' w'. registered_fds_node_feed_event quiet_platform 64 ?n 3 ?k (0::nat) = Some (n', w')"
    by (simp add: registered_fds_node_feed_event_def is_fifo_self_trigger_def feed_filter_ok_def
        feed_read_write_def feed_filter_revents_def feed_pollpri_def feed_eof_events_def
        demo_node_def fresh_node_def feed_out_def Let_def has_bits_def split: prod.splits)
  then obtain n' w' where f: "registered_fds_node_feed_event quiet_platform 64 ?n 3 ?k (0::nat) = Some (n', w')"
    by blast
  have r: "rdhup_ok (quiet_platform :: nat platform)"
    by (simp add: rdhup_ok_def EPOLLRDHUP_def has_bits_def)
  show ?thesis
    using f socket_shutdown_hangup [OF f _ _ _ r]
    by (simp add: demo_node_def fresh_node_def EPOLLRDHUP_def has_bits_def)
qed



end
