(* ===== verification/Fd_Set.thy ===== *)
theory Fd_Set
  imports Prelude
begin

text \<open>
  The set of registered descriptors: the red-black tree that \<open>src/epollfd_ctx.c\<close> generates from
  \<open>sys/tree.h\<close> with \<open>fd_cmp\<close>. The tree is represented by its in-order sequence of (descriptor, node
  address) pairs; \<open>RB_FIND\<close>, \<open>RB_INSERT\<close> and \<open>RB_REMOVE\<close> search and update that sequence with the
  comparison of the source, and \<open>RB_FOREACH\<close> is the sequence itself.

  The locale \<open>fd_table\<close> is the contract the epoll context relies on: the set is a finite map from
  descriptors to nodes, an insert reports a collision and then changes nothing.
\<close>

section \<open>The tree\<close>

definition fd_cmp :: "int \<Rightarrow> int \<Rightarrow> int" where
  "fd_cmp a b = (if a < b then -1 else if a > b then 1 else 0)"

type_synonym fd_tree = "(int \<times> addr) list"

fun rb_find :: "int \<Rightarrow> fd_tree \<Rightarrow> addr option" where
  "rb_find fd [] = None"
| "rb_find fd ((g, b) # t) =
     (if fd_cmp fd g < 0 then None else if fd_cmp fd g = 0 then Some b else rb_find fd t)"

fun rb_insert :: "int \<Rightarrow> addr \<Rightarrow> fd_tree \<Rightarrow> addr option \<times> fd_tree" where
  "rb_insert fd a [] = (None, [(fd, a)])"
| "rb_insert fd a ((g, b) # t) =
     (if fd_cmp fd g < 0 then (None, (fd, a) # (g, b) # t)
      else if fd_cmp fd g = 0 then (Some b, (g, b) # t)
      else (let (r, t') = rb_insert fd a t in (r, (g, b) # t')))"

fun rb_remove :: "int \<Rightarrow> fd_tree \<Rightarrow> fd_tree" where
  "rb_remove fd [] = []"
| "rb_remove fd ((g, b) # t) = (if fd_cmp fd g = 0 then t else (g, b) # rb_remove fd t)"

text \<open>The order that the comparison maintains.\<close>

definition rb_ordered :: "fd_tree \<Rightarrow> bool" where
  "rb_ordered t \<longleftrightarrow> sorted_wrt (<) (map fst t)"

lemma fd_cmp_simps [simp]:
  "fd_cmp a b < 0 \<longleftrightarrow> a < b" "fd_cmp a b = 0 \<longleftrightarrow> a = b"
  by (auto simp: fd_cmp_def)

lemma rb_ordered_Nil [simp]: "rb_ordered []"
  by (simp add: rb_ordered_def)

lemma rb_ordered_Cons: "rb_ordered ((g, b) # t) \<longleftrightarrow> (\<forall>p \<in> set t. g < fst p) \<and> rb_ordered t"
  by (auto simp: rb_ordered_def)

lemma rb_above_None: "\<forall>p \<in> set (t :: fd_tree). g < fst p \<Longrightarrow> fd \<le> g \<Longrightarrow> map_of t fd = None"
  by (induction t) auto

lemma rb_find_map: "rb_ordered t \<Longrightarrow> rb_find fd t = map_of t fd"
proof (induction t)
  case (Cons p t)
  obtain g b where p: "p = (g, b)" by (cases p)
  have "map_of t fd = None" if "fd < g"
    using Cons.prems that rb_above_None [of t g fd] by (simp add: p rb_ordered_Cons)
  then show ?case using Cons by (auto simp: p rb_ordered_Cons)
qed simp

lemma rb_insert_set: "rb_insert fd a t = (r, t') \<Longrightarrow> set t' \<subseteq> insert (fd, a) (set t)"
proof (induction t arbitrary: t')
  case (Cons p t)
  then show ?case by (cases p) (fastforce split: if_splits prod.splits)
qed simp

lemma rb_insert_ordered:
  assumes "rb_ordered t" "rb_insert fd a t = (r, t')"
  shows "rb_ordered t'"
  using assms
proof (induction t arbitrary: t')
  case (Cons p t)
  then show ?case
    by (cases p)
      (fastforce simp: rb_ordered_Cons dest: rb_insert_set split: if_splits prod.splits)
qed (auto simp: rb_ordered_Cons)

lemma rb_insert_spec:
  assumes "rb_ordered t"
  shows "rb_insert fd a t =
    (case map_of t fd of None \<Rightarrow> (None, snd (rb_insert fd a t)) | Some b \<Rightarrow> (Some b, t))"
    and "map_of t fd = None \<Longrightarrow> map_of (snd (rb_insert fd a t)) = (map_of t)(fd \<mapsto> a)"
    and "map_of t fd = None \<Longrightarrow> length (snd (rb_insert fd a t)) = Suc (length t)"
proof -
  have "rb_insert fd a t =
    (case map_of t fd of None \<Rightarrow> (None, snd (rb_insert fd a t)) | Some b \<Rightarrow> (Some b, t)) \<and>
    (map_of t fd = None \<longrightarrow> map_of (snd (rb_insert fd a t)) = (map_of t)(fd \<mapsto> a) \<and>
       length (snd (rb_insert fd a t)) = Suc (length t))"
    using assms
  proof (induction t)
    case (Cons p t)
    obtain g b where p: "p = (g, b)" by (cases p)
    have "map_of t fd = None" if "fd < g"
      using Cons.prems that rb_above_None [of t g fd] by (simp add: p rb_ordered_Cons)
    then show ?case
      using Cons by (auto simp: p rb_ordered_Cons fun_eq_iff split: prod.splits option.splits)
  qed simp
  then show "rb_insert fd a t =
    (case map_of t fd of None \<Rightarrow> (None, snd (rb_insert fd a t)) | Some b \<Rightarrow> (Some b, t))"
    and "map_of t fd = None \<Longrightarrow> map_of (snd (rb_insert fd a t)) = (map_of t)(fd \<mapsto> a)"
    and "map_of t fd = None \<Longrightarrow> length (snd (rb_insert fd a t)) = Suc (length t)"
    by blast+
qed

lemma rb_remove_set: "set (rb_remove fd t) \<subseteq> set t"
  by (induction t rule: rb_remove.induct) auto

lemma rb_remove_ordered: "rb_ordered t \<Longrightarrow> rb_ordered (rb_remove fd t)"
proof (induction t)
  case (Cons p t)
  then show ?case using rb_remove_set [of fd t] by (cases p) (auto simp: rb_ordered_Cons)
qed simp

lemma rb_remove_spec:
  assumes "rb_ordered t"
  shows "map_of (rb_remove fd t) = (map_of t)(fd := None)"
    and "map_of t fd = Some a \<Longrightarrow> Suc (length (rb_remove fd t)) = length t"
proof -
  have "map_of (rb_remove fd t) = (map_of t)(fd := None) \<and>
    (map_of t fd = Some a \<longrightarrow> Suc (length (rb_remove fd t)) = length t)"
    using assms
  proof (induction t)
    case (Cons p t)
    obtain g b where p: "p = (g, b)" by (cases p)
    have "map_of t g = None" using Cons.prems rb_above_None [of t g g] by (simp add: p rb_ordered_Cons)
    then show ?case using Cons by (auto simp: p rb_ordered_Cons fun_eq_iff)
  qed simp
  then show "map_of (rb_remove fd t) = (map_of t)(fd := None)"
    and "map_of t fd = Some a \<Longrightarrow> Suc (length (rb_remove fd t)) = length t"
    by blast+
qed

section \<open>The contract\<close>

locale fd_table =
  fixes find :: "int \<Rightarrow> 's \<Rightarrow> addr option"
    and ins :: "int \<Rightarrow> addr \<Rightarrow> 's \<Rightarrow> addr option \<times> 's"
    and rem :: "int \<Rightarrow> 's \<Rightarrow> 's"
    and card_of :: "'s \<Rightarrow> nat"
    and inv :: "'s \<Rightarrow> bool"
  assumes ins_inv: "inv s \<Longrightarrow> inv (snd (ins fd a s))"
    and rem_inv: "inv s \<Longrightarrow> inv (rem fd s)"
    and ins_collide: "inv s \<Longrightarrow> find fd s = Some b \<Longrightarrow> ins fd a s = (Some b, s)"
    and ins_result: "inv s \<Longrightarrow> find fd s = None \<Longrightarrow> fst (ins fd a s) = None"
    and find_ins: "inv s \<Longrightarrow> find fd s = None \<Longrightarrow>
          find g (snd (ins fd a s)) = (if g = fd then Some a else find g s)"
    and find_rem: "inv s \<Longrightarrow> find g (rem fd s) = (if g = fd then None else find g s)"
    and card_ins: "inv s \<Longrightarrow> find fd s = None \<Longrightarrow> card_of (snd (ins fd a s)) = Suc (card_of s)"
    and card_rem: "inv s \<Longrightarrow> find fd s = Some a \<Longrightarrow> card_of s = Suc (card_of (rem fd s))"
begin

text \<open>Adding a descriptor and removing it again gives the old contents.\<close>

lemma ins_rem_find:
  assumes "inv s" "find fd s = None"
  shows "find g (rem fd (snd (ins fd a s))) = find g s"
  using assms by (simp add: find_rem find_ins ins_inv)

lemma ins_rem_card:
  assumes "inv s" "find fd s = None"
  shows "card_of (rem fd (snd (ins fd a s))) = card_of s"
  using assms card_rem [OF ins_inv, of s fd fd a a] by (simp add: find_ins card_ins)

lemma addresses_ins:
  assumes "inv s" "find fd s = None"
  shows "{b. \<exists>g. find g (snd (ins fd a s)) = Some b} = insert a {b. \<exists>g. find g s = Some b}"
  using assms by (force simp: find_ins split: if_splits)

end

interpretation rb: fd_table rb_find rb_insert rb_remove length rb_ordered
proof unfold_locales
  fix s fd g a b
  assume s: "rb_ordered s"
  show "rb_ordered (snd (rb_insert fd a s))" using rb_insert_ordered [OF s] by (metis prod.collapse)
  then have i: "rb_find h (snd (rb_insert fd a s)) = map_of (snd (rb_insert fd a s)) h" for h
    by (rule rb_find_map)
  show r: "rb_ordered (rb_remove fd s)" using s by (rule rb_remove_ordered)
  show "rb_find g (rb_remove fd s) = (if g = fd then None else rb_find g s)"
    unfolding rb_find_map [OF r] rb_find_map [OF s] rb_remove_spec(1) [OF s] by simp
  show "rb_find fd s = Some b \<Longrightarrow> rb_insert fd a s = (Some b, s)"
    using rb_insert_spec(1) [OF s, of fd a] by (simp add: rb_find_map [OF s])
  show "length s = Suc (length (rb_remove fd s))" if "rb_find fd s = Some a"
    using that rb_remove_spec(2) [OF s, of fd a] by (simp add: rb_find_map [OF s])
  assume n: "rb_find fd s = None"
  then show "fst (rb_insert fd a s) = None"
    using rb_insert_spec(1) [OF s, of fd a] by (metis fst_conv option.case(1) rb_find_map [OF s])
  show "rb_find g (snd (rb_insert fd a s)) = (if g = fd then Some a else rb_find g s)"
    using n rb_insert_spec(2) [OF s, of fd a] by (simp add: i rb_find_map [OF s])
  show "length (snd (rb_insert fd a s)) = Suc (length s)"
    using n rb_insert_spec(3) [OF s, of fd a] by (simp add: rb_find_map [OF s])
qed

lemma rb_find_mem: "rb_ordered t \<Longrightarrow> rb_find fd t = Some a \<longleftrightarrow> (fd, a) \<in> set t"
proof -
  assume t: "rb_ordered t"
  then have "distinct (map fst t)" unfolding rb_ordered_def using strict_sorted_iff by blast
  then show ?thesis by (simp add: rb_find_map [OF t] map_of_eq_Some_iff)
qed

end
