(* ===== verification/Epollfd_Ctx.thy ===== *)
theory Epollfd_Ctx
  imports Epoll_Node Fd_Set
begin

text \<open>
  The second part of \<open>src/epollfd_ctx.c\<close>: the set of registered descriptors of one epoll instance
  and the operations \<open>ctl\<close> and \<open>wait\<close> on it. The nodes live in an explicit store \<open>nodes\<close>, indexed by
  their addresses; the tree, the list of poll-only descriptors and the \<open>udata\<close> of the kernel hold
  addresses, and an access to an address that is not allocated is \<open>None\<close>. The two growing buffers
  \<open>kevs\<close> and \<open>pfds\<close> are represented by their lengths. A write past the caller's event buffer is
  \<open>None\<close> as well.
\<close>

section \<open>State\<close>

record EpollFDCtx =
  poll_fds :: "addr list"
  poll_fds_size :: nat
  registered_fds :: fd_tree
  registered_fds_size :: nat
  kevs_length :: nat
  pfds_length :: nat
  nr_polling_threads :: nat
  epoll_self_pipe :: "int \<times> int"
  nodes :: "addr \<rightharpoonup> RegisteredFDsNode"

definition set_node :: "addr \<Rightarrow> RegisteredFDsNode \<Rightarrow> EpollFDCtx \<Rightarrow> EpollFDCtx" where
  "set_node a n e = e\<lparr>nodes := (nodes e)(a \<mapsto> n)\<rparr>"

definition empty_epollfd :: EpollFDCtx where
  "empty_epollfd =
     \<lparr>poll_fds = [], poll_fds_size = 0, registered_fds = [], registered_fds_size = 0,
      kevs_length = 0, pfds_length = 0, nr_polling_threads = 0, epoll_self_pipe = (-1, -1),
      nodes = Map.empty\<rparr>"

definition epollfd_ctx_init :: "'w platform \<Rightarrow> 'w \<Rightarrow> (errno + EpollFDCtx) \<times> 'w" where
  "epollfd_ctx_init P w =
     (case sys_mutex_init P w of
        (Inl ec, w1) \<Rightarrow> (Inl ec, w1)
      | (Inr _, w1) \<Rightarrow>
          (case sys_cond_init P w1 of
             (Inl ec, w2) \<Rightarrow> (Inl ec, snd (sys_mutex_destroy P w2))
           | (Inr _, w2) \<Rightarrow> (Inr empty_epollfd, w2)))"

fun destroy_nodes ::
  "'w platform \<Rightarrow> fd_tree \<Rightarrow> EpollFDCtx \<Rightarrow> 'w \<Rightarrow> (EpollFDCtx \<times> 'w) option" where
  "destroy_nodes P [] e w = Some (e, w)"
| "destroy_nodes P ((fd, a) # t) e w = do {
     n \<leftarrow> nodes e a;
     destroy_nodes P t
       (e\<lparr>registered_fds := rb_remove fd (registered_fds e), nodes := (nodes e)(a := None)\<rparr>)
       (registered_fds_node_destroy P a n w)
   }"

definition epollfd_ctx_terminate ::
  "'w platform \<Rightarrow> EpollFDCtx \<Rightarrow> 'w \<Rightarrow> ((errno + unit) \<times> EpollFDCtx \<times> 'w) option" where
  "epollfd_ctx_terminate P e w =
     (let (r0, w1) = sys_cond_destroy P w;
          (r1, w2) = sys_mutex_destroy P w1
      in do {
           (e1, w3) \<leftarrow> destroy_nodes P (registered_fds e) e w2;
           let w4 = (if fst (epoll_self_pipe e1) \<ge> 0 \<and> snd (epoll_self_pipe e1) \<ge> 0
                     then snd (sys_close P (snd (epoll_self_pipe e1)) (snd (sys_close P (fst (epoll_self_pipe e1)) w3)))
                     else w3);
           Some (case r0 of Inl ec \<Rightarrow> Inl ec | Inr _ \<Rightarrow> r1, e1, w4)
         })"

section \<open>Buffers and triggers\<close>

definition epollfd_ctx_make_kevs_space ::
  "'w platform \<Rightarrow> EpollFDCtx \<Rightarrow> nat \<Rightarrow> 'w \<Rightarrow> ((errno + unit) \<times> EpollFDCtx \<times> 'w) option" where
  "epollfd_ctx_make_kevs_space P e cnt w = do {
     c_assert (cnt > 0);
     if cnt \<le> kevs_length e then Some (Inr (), e, w)
     else if cnt * cfg_sizeof_kevent P > cfg_SIZE_MAX P then Some (Inl ENOMEM, e, w)
     else (case sys_realloc P (cnt * cfg_sizeof_kevent P) w of
             (Inl ec, w1) \<Rightarrow> Some (Inl ec, e, w1)
           | (Inr _, w1) \<Rightarrow> Some (Inr (), e\<lparr>kevs_length := cnt\<rparr>, w1))
   }"

definition epollfd_ctx_make_pfds_space ::
  "'w platform \<Rightarrow> EpollFDCtx \<Rightarrow> 'w \<Rightarrow> (errno + unit) \<times> EpollFDCtx \<times> 'w" where
  "epollfd_ctx_make_pfds_space P e w =
     (let cnt = 1 + poll_fds_size e
      in if cnt \<le> pfds_length e then (Inr (), e, w)
         else if cnt * cfg_sizeof_pollfd P > cfg_SIZE_MAX P then (Inl ENOMEM, e, w)
         else (case sys_realloc P (cnt * cfg_sizeof_pollfd P) w of
                 (Inl ec, w1) \<Rightarrow> (Inl ec, e, w1)
               | (Inr _, w1) \<Rightarrow> (Inr (), e\<lparr>pfds_length := cnt\<rparr>, w1)))"

definition epollfd_ctx__add_self_trigger ::
  "'w platform \<Rightarrow> EpollFDCtx \<Rightarrow> int \<Rightarrow> 'w \<Rightarrow> ((errno + unit) \<times> EpollFDCtx \<times> 'w) option" where
  "epollfd_ctx__add_self_trigger P e kq w =
     (let finish = (\<lambda>e kev w. (let (r, w1) = submit_kev P kq kev w in Some (r, e, w1)));
          pipe_kev = (\<lambda>e. EV_SET (fst (epoll_self_pipe e)) EVFILT_READ (EV_ADD OR EV_CLEAR) 0 0 None)
      in if cfg_EVFILT_USER P
         then finish e (EV_SET 0 EVFILT_USER (EV_ADD OR EV_CLEAR) 0 0 None) w
         else if fst (epoll_self_pipe e) < 0 \<and> snd (epoll_self_pipe e) < 0
         then (case sys_pipe2 P (O_NONBLOCK OR O_CLOEXEC) w of
                 (Inl ec, w1) \<Rightarrow> Some (Inl ec, e\<lparr>epoll_self_pipe := (-1, -1)\<rparr>, w1)
               | (Inr p, w1) \<Rightarrow> do {
                   c_assert (fst p \<ge> 0);
                   c_assert (snd p \<ge> 0);
                   let e1 = e\<lparr>epoll_self_pipe := p\<rparr>;
                   finish e1 (pipe_kev e1) w1
                 })
         else finish e (pipe_kev e) w)"

definition epollfd_ctx__trigger_self ::
  "'w platform \<Rightarrow> EpollFDCtx \<Rightarrow> int \<Rightarrow> 'w \<Rightarrow> 'w option" where
  "epollfd_ctx__trigger_self P e kq w =
     (if cfg_EVFILT_USER P
      then Some (snd (sys_kevent P kq [EV_SET 0 EVFILT_USER 0 NOTE_TRIGGER 0 None] 0 w))
      else do {
        c_assert (fst (epoll_self_pipe e) \<ge> 0);
        c_assert (snd (epoll_self_pipe e) \<ge> 0);
        Some (snd (sys_write P (snd (epoll_self_pipe e)) [0] w))
      })"

text \<open>
  The loop around \<open>pthread_cond_wait\<close>. Other threads change the counter while the mutex is released,
  so a wait is a call of the platform that returns the new counter.
\<close>

partial_function (option) wait_polling_threads ::
  "'w platform \<Rightarrow> nat \<Rightarrow> 'w \<Rightarrow> 'w option" where
  "wait_polling_threads plat nr w =
     (if nr = 0 then Some w
      else (case sys_cond_wait plat nr w of (nr1, w1) \<Rightarrow> wait_polling_threads plat nr1 w1))"

definition epollfd_ctx__trigger_repoll ::
  "'w platform \<Rightarrow> EpollFDCtx \<Rightarrow> int \<Rightarrow> 'w \<Rightarrow> (EpollFDCtx \<times> 'w) option" where
  "epollfd_ctx__trigger_repoll P e kq w =
     (if nr_polling_threads e = 0 then Some (e, w)
      else do {
        w1 \<leftarrow> epollfd_ctx__trigger_self P e kq w;
        w2 \<leftarrow> wait_polling_threads P (nr_polling_threads e) w1;
        w3 \<leftarrow> (if cfg_EVFILT_USER P then Some w2 else drain_pipe P (fst (epoll_self_pipe e)) w2);
        Some (e\<lparr>nr_polling_threads := 0\<rparr>, w3)
      })"

section \<open>Removing a node from the kqueue\<close>

definition remove_from_pollfd_list ::
  "'w platform \<Rightarrow> EpollFDCtx \<Rightarrow> int \<Rightarrow> addr \<Rightarrow> 'w \<Rightarrow> (EpollFDCtx \<times> 'w) option" where
  "remove_from_pollfd_list P e kq a w = do {
     n \<leftarrow> nodes e a;
     if is_on_pollfd_list n then do {
       c_assert (poll_fds_size e \<noteq> 0);
       epollfd_ctx__trigger_repoll P
         (set_node a (n\<lparr>is_on_pollfd_list := False\<rparr>)
           (e\<lparr>poll_fds := remove1 a (poll_fds e), poll_fds_size := poll_fds_size e - 1\<rparr>)) kq w
     }
     else Some (e, w)
   }"

definition remove_kevs :: "'w platform \<Rightarrow> addr \<Rightarrow> int \<Rightarrow> kevent list" where
  "remove_kevs P a fd2 =
     [EV_SET fd2 EVFILT_READ (EV_DELETE OR EV_RECEIPT) 0 0 None,
      EV_SET fd2 EVFILT_WRITE (EV_DELETE OR EV_RECEIPT) 0 0 None,
      (if cfg_EVFILT_USER P then EV_SET (int a) EVFILT_USER (EV_DELETE OR EV_RECEIPT) 0 0 None
       else cfg_stack_kevent P)]"

definition epollfd_ctx__remove_node_from_kq ::
  "'w platform \<Rightarrow> EpollFDCtx \<Rightarrow> int \<Rightarrow> addr \<Rightarrow> 'w \<Rightarrow> (EpollFDCtx \<times> 'w) option" where
  "epollfd_ctx__remove_node_from_kq P e kq a w = do {
     (e1, w1) \<leftarrow> remove_from_pollfd_list P e kq a w;
     n \<leftarrow> nodes e1 a;
     w2 \<leftarrow> (if fst (node_self_pipe n) \<ge> 0
             then drain_pipe P (fst (node_self_pipe n))
                    (snd (sys_kevent P kq [EV_SET (fst (node_self_pipe n)) EVFILT_READ EV_DELETE 0 0 None] 0 w1))
             else Some w1);
     if node_type n = NODE_TYPE_POLL
     then Some (e1, if cfg_EVFILT_USER P
                    then snd (sys_kevent P kq [EV_SET (int a) EVFILT_USER EV_DELETE 0 0 None] 0 w2)
                    else w2)
     else Some (set_node a
                  (n\<lparr>has_evfilt_read := False, has_evfilt_write := False, has_evfilt_except := False\<rparr>) e1,
                snd (sys_kevent P kq (remove_kevs P a (node_fd n)) 3 w2))
   }"

section \<open>Registering a node with the kqueue\<close>

text \<open>Only sockets support \<open>EPOLLRDHUP\<close> and \<open>EPOLLPRI\<close>.\<close>

definition restrict_events :: "'w platform \<Rightarrow> RegisteredFDsNode \<Rightarrow> RegisteredFDsNode" where
  "restrict_events P n =
     (if node_type n \<noteq> NODE_TYPE_SOCKET
      then n\<lparr>events := events n AND NOT (ucast (EPOLLRDHUP P)) AND NOT (ucast EPOLLPRI)\<rparr>
      else n)"

text \<open>The changes for the filters a node needs, in the order read, write, except.\<close>

definition register_kevs ::
  "'w platform \<Rightarrow> addr \<Rightarrow> int \<Rightarrow> NeededFilters \<Rightarrow> kevent list" where
  "register_kevs P a fd2 f =
     (if evfilt_read f \<noteq> 0
      then [EV_SET fd2 EVFILT_READ ((EV_ADD OR (evfilt_read f AND EV_CLEAR)) OR EV_RECEIPT) 0 0 (Some a)] else []) @
     (if evfilt_write f \<noteq> 0
      then [EV_SET fd2 EVFILT_WRITE ((EV_ADD OR (evfilt_write f AND EV_CLEAR)) OR EV_RECEIPT) 0 0 (Some a)] else []) @
     (if evfilt_except f \<noteq> 0
      then [EV_SET fd2 EVFILT_EXCEPT
              ((EV_ADD OR (if cfg_APPLE P then EV_CLEAR else evfilt_except f AND EV_CLEAR)) OR EV_RECEIPT)
              NOTE_OOB 0 (Some a)] else [])"

definition with_filters :: "NeededFilters \<Rightarrow> RegisteredFDsNode \<Rightarrow> RegisteredFDsNode" where
  "with_filters f n = n\<lparr>has_evfilt_read := evfilt_read f \<noteq> 0, has_evfilt_write := evfilt_write f \<noteq> 0,
                        has_evfilt_except := evfilt_except f \<noteq> 0\<rparr>"

text \<open>
  The first half of \<open>epollfd_ctx__register_events\<close> for a node that is not poll-only: the node is taken
  out of the kqueue if it is in there, and the filters it needs are submitted. The result carries
  the \<open>data\<close> fields of the four receipts and the filters.
\<close>

definition register_filters ::
  "'w platform \<Rightarrow> EpollFDCtx \<Rightarrow> int \<Rightarrow> addr \<Rightarrow> 'w \<Rightarrow>
   ((errno + int list \<times> NeededFilters) \<times> EpollFDCtx \<times> 'w) option" where
  "register_filters P e kq a w = do {
     n0 \<leftarrow> nodes e a;
     (e1, w1) \<leftarrow> (if is_registered n0 then epollfd_ctx__remove_node_from_kq P e kq a w else Some (e, w));
     n \<leftarrow> nodes e1 a;
     c_assert (\<not> has_evfilt_read n);
     c_assert (\<not> has_evfilt_write n);
     c_assert (\<not> has_evfilt_except n);
     f \<leftarrow> get_needed_filters P n;
     c_assert (evfilt_read f \<noteq> 0 \<or> evfilt_write f \<noteq> 0);
     c_assert (evfilt_except f \<noteq> 0 \<longrightarrow> cfg_EVFILT_EXCEPT P);
     let e2 = set_node a (with_filters f n) e1;
     let kev = register_kevs P a (node_fd n) f;
     (case sys_kevent P kq kev (length kev) w1 of
        (Inl ec, w2) \<Rightarrow> Some (Inl ec, e2, w2)
      | (Inr out, w2) \<Rightarrow> do {
          c_assert (length out = length kev);
          c_assert (\<forall>k \<in> set out. has_bits (kev_flags k) EV_ERROR);
          Some (Inr (map kev_data out @ replicate (4 - length out) 0, f), e2, w2)
        })
   }"

text \<open>The branch for descriptors that only support poll, and the list it puts them on.\<close>

definition poll_only :: "RegisteredFDsNode \<Rightarrow> RegisteredFDsNode" where
  "poll_only n = n\<lparr>has_evfilt_read := False, has_evfilt_write := False, has_evfilt_except := False,
                   node_type := NODE_TYPE_POLL\<rparr>"

definition enlist_poll_node ::
  "'w platform \<Rightarrow> EpollFDCtx \<Rightarrow> int \<Rightarrow> addr \<Rightarrow> RegisteredFDsNode \<Rightarrow> 'w \<Rightarrow>
   ((errno + unit) \<times> EpollFDCtx \<times> 'w) option" where
  "enlist_poll_node P e kq a n w =
     (if is_on_pollfd_list n then Some (Inr (), e, w)
      else do {
        (r1, e2, w2) \<leftarrow> epollfd_ctx__add_self_trigger P e kq w;
        Some (r1, case r1 of
            Inl _ \<Rightarrow> e2
          | Inr _ \<Rightarrow> set_node a (n\<lparr>is_on_pollfd_list := True\<rparr>)
              (e2\<lparr>poll_fds := poll_fds e2 @ [a], poll_fds_size := Suc (poll_fds_size e2)\<rparr>), w2)
      })"

definition register_poll_only ::
  "'w platform \<Rightarrow> EpollFDCtx \<Rightarrow> int \<Rightarrow> addr \<Rightarrow> 'w \<Rightarrow> ((errno + unit) \<times> EpollFDCtx \<times> 'w) option" where
  "register_poll_only P e kq a w = do {
     n \<leftarrow> nodes e a;
     c_assert (subset_bits (events32 n) (EPOLLIN OR EPOLLOUT));
     c_assert (is_registered n \<or> node_type n = NODE_TYPE_OTHER);
     (r, n2, w1) \<leftarrow> registered_fds_node_add_self_trigger P a (poll_only n) kq w;
     (case r of
        Inl ec \<Rightarrow> Some (Inl ec, set_node a n2 e, w1)
      | Inr _ \<Rightarrow> do {
          (r1, e2, w2) \<leftarrow> enlist_poll_node P (set_node a n2 e) kq a n2 w1;
          (case r1 of
             Inl ec \<Rightarrow> Some (Inl ec, e2, w2)
           | Inr _ \<Rightarrow> do {
               (e3, w3) \<leftarrow> epollfd_ctx__trigger_repoll P e2 kq w2;
               Some (Inr (), e3, w3)
             })
        })
   }"

text \<open>The loop over the receipts; \<open>i\<close> is the index of the first one in the list.\<close>

definition write_eof_receipt :: "'w platform \<Rightarrow> NeededFilters \<Rightarrow> nat \<Rightarrow> int \<Rightarrow> RegisteredFDsNode \<Rightarrow> bool" where
  "write_eof_receipt P f i d n \<longleftrightarrow>
     (d = EPIPE \<or> cfg_NetBSD P \<and> d = EBADF) \<and>
     evfilt_write f \<noteq> 0 \<and> i = (if evfilt_read f \<noteq> 0 then 1 else 0) \<and> node_type n = NODE_TYPE_FIFO"

fun register_receipts ::
  "'w platform \<Rightarrow> int \<Rightarrow> addr \<Rightarrow> NeededFilters \<Rightarrow> nat \<Rightarrow> int list \<Rightarrow> RegisteredFDsNode \<Rightarrow> 'w \<Rightarrow>
   ((errno + unit) \<times> RegisteredFDsNode \<times> 'w) option" where
  "register_receipts P kq a f i [] n w = Some (Inr (), n, w)"
| "register_receipts P kq a f i (d # ds) n w =
     (if d = 0 then register_receipts P kq a f (Suc i) ds n w
      else if \<not> write_eof_receipt P f i d n then Some (Inl d, n, w)
      else
        (let n1 = n\<lparr>eof_state := EOF_STATE_BOTH, has_evfilt_write := False\<rparr>
         in if evfilt_read f \<noteq> 0 then register_receipts P kq a f (Suc i) ds n1 w
            else do {
              (r, n2, w1) \<leftarrow> registered_fds_node_add_self_trigger P a n1 kq w;
              (case r of
                 Inl ec \<Rightarrow> Some (Inl ec, n2, w1)
               | Inr _ \<Rightarrow> do {
                   w2 \<leftarrow> registered_fds_node_trigger_self P a n2 kq w1;
                   register_receipts P kq a f (Suc i) ds n2 w2
                 })
            }))"

definition epollfd_ctx__register_events ::
  "'w platform \<Rightarrow> EpollFDCtx \<Rightarrow> int \<Rightarrow> addr \<Rightarrow> 'w \<Rightarrow> ((errno + unit) \<times> EpollFDCtx \<times> 'w) option" where
  "epollfd_ctx__register_events P e kq a w = do {
     n \<leftarrow> nodes e a;
     let e0 = set_node a (restrict_events P n) e;
     c_assert (node_fd n \<ge> 0);
     if node_type n = NODE_TYPE_POLL then register_poll_only P e0 kq a w
     else do {
       (r, e1, w1) \<leftarrow> register_filters P e0 kq a w;
       (case r of
          Inl ec \<Rightarrow> Some (Inl ec, e1, w1)
        | Inr (ds, f) \<Rightarrow> do {
            n1 \<leftarrow> nodes e1 a;
            if node_type n1 = NODE_TYPE_OTHER \<and> hd ds = ENODEV then register_poll_only P e1 kq a w1
            else do {
              (r1, n2, w2) \<leftarrow> register_receipts P kq a f 0 ds n1 w1;
              Some (r1, set_node a n2 e1, w2)
            }
          })
     }
   }"

section \<open>Adding, changing and removing nodes\<close>

definition epollfd_ctx_remove_node ::
  "'w platform \<Rightarrow> EpollFDCtx \<Rightarrow> int \<Rightarrow> addr \<Rightarrow> 'w \<Rightarrow> (EpollFDCtx \<times> 'w) option" where
  "epollfd_ctx_remove_node P e kq a w = do {
     (e1, w1) \<leftarrow> epollfd_ctx__remove_node_from_kq P e kq a w;
     n \<leftarrow> nodes e1 a;
     c_assert (registered_fds_size e1 > 0);
     Some (e1\<lparr>registered_fds := rb_remove (node_fd n) (registered_fds e1),
              registered_fds_size := registered_fds_size e1 - 1,
              nodes := (nodes e1)(a := None)\<rparr>,
           registered_fds_node_destroy P a n w1)
   }"

definition modify_fifo_rights_from_capabilities ::
  "'w platform \<Rightarrow> RegisteredFDsNode \<Rightarrow> 'w \<Rightarrow> (RegisteredFDsNode \<times> 'w) option" where
  "modify_fifo_rights_from_capabilities P n w = do {
     c_assert (fifo_readable n);
     c_assert (fifo_writable n);
     Some (case sys_cap_rights P (node_fd n) w of
         (None, w1) \<Rightarrow> (n, w1)
       | (Some (r, wr), w1) \<Rightarrow>
           (if r \<noteq> wr then n\<lparr>fifo_readable := r, fifo_writable := wr\<rparr> else n, w1))
   }"

text \<open>
  The first half of \<open>epollfd_ctx_add_node\<close>: what kind of descriptor is it? The result is the node, or
  the error code after which the code destroys it.
\<close>

definition classify_kqueue ::
  "'w platform \<Rightarrow> int \<Rightarrow> addr option \<Rightarrow> RegisteredFDsNode \<Rightarrow> 'w \<Rightarrow> RegisteredFDsNode \<times> 'w" where
  "classify_kqueue P fd2 desc n w =
     (let (is_kq, w1) =
        (if cfg_FreeBSD P
         then (case sys_kevent P (node_fd n) [] 0 w of (Inl _, w1) \<Rightarrow> (False, w1) | (Inr _, w1) \<Rightarrow> (True, w1))
         else (True, w))
      in if is_kq
         then (n\<lparr>node_type := NODE_TYPE_KQUEUE, pollable_desc := desc\<rparr>,
               snd (pollable_desc_poll P desc fd2 None (pollable_desc_ref P desc w1)))
         else (n\<lparr>node_type := NODE_TYPE_OTHER\<rparr>, w1))"

definition classify_fifo ::
  "'w platform \<Rightarrow> int \<Rightarrow> RegisteredFDsNode \<Rightarrow> 'w \<Rightarrow> ((errno + RegisteredFDsNode) \<times> RegisteredFDsNode \<times> 'w) option" where
  "classify_fifo P fd2 n w =
     (let n1 = n\<lparr>node_type := NODE_TYPE_FIFO\<rparr>
      in (case sys_fcntl_getfl P fd2 w of
            (Inl ec, w1) \<Rightarrow> Some (Inl ec, n1, w1)
          | (Inr fl0, w1) \<Rightarrow>
              (let fl = fl0 AND O_ACCMODE
               in if fl = O_RDWR then
                    (let n2 = n1\<lparr>fifo_readable := True, fifo_writable := True\<rparr>
                     in if cfg_FreeBSD P then do {
                          (n3, w2) \<leftarrow> modify_fifo_rights_from_capabilities P n2 w1;
                          Some (Inr n3, n3, w2)
                        }
                        else Some (Inr n2, n2, w1))
                  else if fl = O_WRONLY then
                    (let n2 = n1\<lparr>fifo_writable := True\<rparr> in Some (Inr n2, n2, w1))
                  else if fl = O_RDONLY then
                    (let n2 = n1\<lparr>fifo_readable := True\<rparr> in Some (Inr n2, n2, w1))
                  else Some (Inl EINVAL, n1, w1))))"

definition classify_node ::
  "'w platform \<Rightarrow> int \<Rightarrow> addr option \<Rightarrow> file_type \<Rightarrow> RegisteredFDsNode \<Rightarrow> 'w \<Rightarrow>
   ((errno + RegisteredFDsNode) \<times> RegisteredFDsNode \<times> 'w) option" where
  "classify_node P fd2 desc st n w =
     (case st of
        S_IFIFO \<Rightarrow>
          (case sys_ioctl_fionread P (node_fd n) w of
             (Inl ec, w1) \<Rightarrow>
               if ec = ENOTTY
               then (let (n1, w2) = classify_kqueue P fd2 desc n w1 in Some (Inr n1, n1, w2))
               else classify_fifo P fd2 n w1
           | (Inr _, w1) \<Rightarrow> classify_fifo P fd2 n w1)
      | S_IFSOCK \<Rightarrow> (let n1 = n\<lparr>node_type := NODE_TYPE_SOCKET\<rparr> in Some (Inr n1, n1, w))
      | S_IFOTHER \<Rightarrow> (let n1 = n\<lparr>node_type := NODE_TYPE_OTHER\<rparr> in Some (Inr n1, n1, w)))"

definition epollfd_ctx_add_node ::
  "'w platform \<Rightarrow> EpollFDCtx \<Rightarrow> int \<Rightarrow> int \<Rightarrow> addr option \<Rightarrow> epoll_event \<Rightarrow> file_type \<Rightarrow> 'w \<Rightarrow>
   ((errno + unit) \<times> EpollFDCtx \<times> 'w) option" where
  "epollfd_ctx_add_node P e kq fd2 desc ev st w =
     (case registered_fds_node_create P fd2 w of
        (None, w1) \<Rightarrow> Some (Inl ENOMEM, e, w1)
      | (Some (a, n0), w1) \<Rightarrow> do {
          (c, n1, w2) \<leftarrow> classify_node P fd2 desc st n0 w1;
          (case c of
             Inl ec \<Rightarrow> Some (Inl ec, e, registered_fds_node_destroy P a n1 w2)
           | Inr _ \<Rightarrow> do {
               n2 \<leftarrow> registered_fds_node_update_flags_from_epoll_event P n1 ev;
               let (colliding, t) = rb_insert fd2 a (registered_fds e);
               c_assert (colliding = None);
               let e1 = set_node a n2
                 (e\<lparr>registered_fds := t, registered_fds_size := Suc (registered_fds_size e)\<rparr>);
               (r, e2, w3) \<leftarrow> epollfd_ctx__register_events P e1 kq a w2;
               (case r of
                  Inl ec \<Rightarrow> do {
                    (e3, w4) \<leftarrow> epollfd_ctx_remove_node P e2 kq a w3;
                    Some (Inl ec, e3, w4)
                  }
                | Inr _ \<Rightarrow> do {
                    n3 \<leftarrow> nodes e2 a;
                    Some (Inr (), set_node a (n3\<lparr>is_registered := True\<rparr>) e2, w3)
                  })
             })
        })"

definition epollfd_ctx_modify_node ::
  "'w platform \<Rightarrow> EpollFDCtx \<Rightarrow> int \<Rightarrow> addr \<Rightarrow> epoll_event \<Rightarrow> 'w \<Rightarrow>
   ((errno + unit) \<times> EpollFDCtx \<times> 'w) option" where
  "epollfd_ctx_modify_node P e kq a ev w = do {
     n \<leftarrow> nodes e a;
     n1 \<leftarrow> registered_fds_node_update_flags_from_epoll_event P n ev;
     c_assert (is_registered n1);
     (r, e2, w1) \<leftarrow> epollfd_ctx__register_events P (set_node a n1 e) kq a w;
     (case r of
        Inl ec \<Rightarrow> do {
          (e3, w2) \<leftarrow> epollfd_ctx_remove_node P e2 kq a w1;
          Some (Inl ec, e3, w2)
        }
      | Inr _ \<Rightarrow> Some (Inr (), e2, w1))
   }"

definition epollfd_ctx_remove_fd ::
  "'w platform \<Rightarrow> EpollFDCtx \<Rightarrow> int \<Rightarrow> int \<Rightarrow> 'w \<Rightarrow> (EpollFDCtx \<times> 'w) option" where
  "epollfd_ctx_remove_fd P e kq fd2 w =
     (case rb_find fd2 (registered_fds e) of
        None \<Rightarrow> Some (e, w)
      | Some a \<Rightarrow> epollfd_ctx_remove_node P e kq a w)"

abbreviation EPOLL_CTL_ADD :: int where "EPOLL_CTL_ADD \<equiv> 1"
abbreviation EPOLL_CTL_DEL :: int where "EPOLL_CTL_DEL \<equiv> 2"
abbreviation EPOLL_CTL_MOD :: int where "EPOLL_CTL_MOD \<equiv> 3"

definition ctl_events_valid :: "'w platform \<Rightarrow> 32 word \<Rightarrow> bool" where
  "ctl_events_valid P evs \<longleftrightarrow>
     subset_bits evs (EPOLLIN OR EPOLLOUT OR EPOLLRDHUP P OR 0x2000 OR EPOLLPRI OR EPOLLHUP OR EPOLLERR OR
       EPOLLET OR EPOLLONESHOT) \<and>
     \<not> (EPOLLRDHUP P \<noteq> 0x2000 \<and> has_bits evs (EPOLLRDHUP P) \<and> has_bits evs 0x2000)"

text \<open>The event argument is \<open>None\<close> for a null pointer.\<close>

definition epollfd_ctx_ctl ::
  "'w platform \<Rightarrow> EpollFDCtx \<Rightarrow> int \<Rightarrow> int \<Rightarrow> int \<Rightarrow> addr option \<Rightarrow> epoll_event option \<Rightarrow> 'w \<Rightarrow>
   ((errno + unit) \<times> EpollFDCtx \<times> 'w) option" where
  "epollfd_ctx_ctl P e kq op fd2 desc ev w = do {
     c_assert (op = EPOLL_CTL_DEL \<or> ev \<noteq> None);
     if kq = fd2 then Some (Inl EINVAL, e, w)
     else if op \<noteq> EPOLL_CTL_DEL \<and> \<not> ctl_events_valid P (ev_events (the ev)) then Some (Inl EINVAL, e, w)
     else
       (let fd2_node = rb_find fd2 (registered_fds e)
        in (case sys_fstat P fd2 w of
              (Inl ec, w1) \<Rightarrow>
                (case fd2_node of
                   None \<Rightarrow> Some (Inl ec, e, w1)
                 | Some a \<Rightarrow> do {
                     (e1, w2) \<leftarrow> epollfd_ctx_remove_node P e kq a w1;
                     Some (Inl ec, e1, w2)
                   })
            | (Inr st, w1) \<Rightarrow>
                if op = EPOLL_CTL_ADD
                then (if fd2_node \<noteq> None then Some (Inl EEXIST, e, w1)
                      else epollfd_ctx_add_node P e kq fd2 desc (the ev) st w1)
                else if op = EPOLL_CTL_DEL
                then (case fd2_node of
                        None \<Rightarrow> Some (Inl ENOENT, e, w1)
                      | Some a \<Rightarrow> do {
                          (e1, w2) \<leftarrow> epollfd_ctx_remove_node P e kq a w1;
                          Some (Inr (), e1, w2)
                        })
                else if op = EPOLL_CTL_MOD
                then (case fd2_node of
                        None \<Rightarrow> Some (Inl ENOENT, e, w1)
                      | Some a \<Rightarrow> epollfd_ctx_modify_node P e kq a (the ev) w1)
                else Some (Inl EINVAL, e, w1)))
   }"

section \<open>Waiting\<close>

definition poll_entry :: "RegisteredFDsNode \<Rightarrow> pollfd" where
  "poll_entry n =
     \<lparr>pfd_fd = node_fd n,
      pfd_events = (if node_type n = NODE_TYPE_POLL then events n else POLLPRI), pfd_revents = 0\<rparr>"

fun poll_entries :: "(addr \<rightharpoonup> RegisteredFDsNode) \<Rightarrow> addr list \<Rightarrow> pollfd list option" where
  "poll_entries st [] = Some []"
| "poll_entries st (a # as) = do { n \<leftarrow> st a; ps \<leftarrow> poll_entries st as; Some (poll_entry n # ps) }"

definition epollfd_ctx_fill_pollfds :: "EpollFDCtx \<Rightarrow> int \<Rightarrow> pollfd list option" where
  "epollfd_ctx_fill_pollfds e kq = do {
     ps \<leftarrow> poll_entries (nodes e) (poll_fds e);
     Some (\<lparr>pfd_fd = kq, pfd_events = POLLIN, pfd_revents = 0\<rparr> # ps)
   }"

text \<open>
  The loop over the poll-only descriptors after the poll: invalid ones are removed, ready ones
  trigger their own kevent. The list is the one at the start of the loop, paired with the entries
  of \<open>pfds\<close>.
\<close>

fun wait_poll_nodes ::
  "'w platform \<Rightarrow> int \<Rightarrow> (addr \<times> pollfd) list \<Rightarrow> EpollFDCtx \<Rightarrow> 'w \<Rightarrow> (EpollFDCtx \<times> 'w) option" where
  "wait_poll_nodes P kq [] e w = Some (e, w)"
| "wait_poll_nodes P kq ((a, pfd) # ps) e w =
     (if has_bits (pfd_revents pfd) POLLNVAL then do {
        (e1, w1) \<leftarrow> epollfd_ctx_remove_node P e kq a w;
        wait_poll_nodes P kq ps e1 w1
      }
      else if pfd_revents pfd \<noteq> 0 then do {
        n \<leftarrow> nodes e a;
        w1 \<leftarrow> registered_fds_node_trigger_self P a n kq w;
        wait_poll_nodes P kq ps e w1
      }
      else wait_poll_nodes P kq ps e w)"

text \<open>The number of kevents to ask for; \<open>None\<close> is the overflow that returns \<open>ENOMEM\<close>.\<close>

definition wait_kevs_count :: "EpollFDCtx \<Rightarrow> int \<Rightarrow> int option" where
  "wait_kevs_count e cnt =
     (if nat cnt \<ge> registered_fds_size e
      then (case fits32 (cnt + 1) of None \<Rightarrow> None | Some c \<Rightarrow> fits32 (c * 3))
      else Some cnt)"

text \<open>One delivered kevent: the node takes it in, and is registered anew if its filters changed.\<close>

definition refresh_filters ::
  "'w platform \<Rightarrow> int \<Rightarrow> addr \<Rightarrow> NeededFilters \<Rightarrow> EpollFDCtx \<Rightarrow> 'w \<Rightarrow> (EpollFDCtx \<times> 'w) option" where
  "refresh_filters P kq a old e w = do {
     n \<leftarrow> nodes e a;
     if node_type n \<noteq> NODE_TYPE_POLL \<and>
        \<not> (is_edge_triggered n \<and> eof_state n = EOF_STATE_BOTH \<and> node_type n \<noteq> NODE_TYPE_FIFO)
     then do {
       new \<leftarrow> get_needed_filters P n;
       if evfilt_read old \<noteq> evfilt_read new \<or> evfilt_write old \<noteq> evfilt_write new then do {
         (r, e1, w1) \<leftarrow> epollfd_ctx__register_events P e kq a w;
         (case r of Inr _ \<Rightarrow> Some (e1, w1) | Inl _ \<Rightarrow> epollfd_ctx__remove_node_from_kq P e1 kq a w1)
       }
       else Some (e, w)
     }
     else Some (e, w)
   }"

definition wait_feed_one ::
  "'w platform \<Rightarrow> int \<Rightarrow> nat \<Rightarrow> kevent \<Rightarrow> addr list \<Rightarrow> EpollFDCtx \<Rightarrow> 'w \<Rightarrow>
   (addr list \<times> EpollFDCtx \<times> 'w) option" where
  "wait_feed_one P kq cap kev js e w =
     (case kev_udata kev of
        None \<Rightarrow> do {
          c_assert (kev_filter kev = (if cfg_EVFILT_USER P then EVFILT_USER else EVFILT_READ));
          Some (js, e, w)
        }
      | Some a \<Rightarrow> do {
          n \<leftarrow> nodes e a;
          old \<leftarrow> get_needed_filters P n;
          (n1, w1) \<leftarrow> registered_fds_node_feed_event P a n kq kev w;
          (e2, w2) \<leftarrow> refresh_filters P kq a old (set_node a n1 e) w1;
          n2 \<leftarrow> nodes e2 a;
          if revents n2 \<noteq> 0 \<and> revents n = 0 then do {
            c_assert (length js < cap);
            Some (js @ [a], e2, w2)
          }
          else Some (js, e2, w2)
        })"

fun wait_feed ::
  "'w platform \<Rightarrow> int \<Rightarrow> nat \<Rightarrow> kevent list \<Rightarrow> addr list \<Rightarrow> EpollFDCtx \<Rightarrow> 'w \<Rightarrow>
   (addr list \<times> EpollFDCtx \<times> 'w) option" where
  "wait_feed P kq cap [] js e w = Some (js, e, w)"
| "wait_feed P kq cap (k # ks) js e w = do {
     (js1, e1, w1) \<leftarrow> wait_feed_one P kq cap k js e w;
     wait_feed P kq cap ks js1 e1 w1
   }"

fun wait_register_completion ::
  "'w platform \<Rightarrow> bool \<Rightarrow> addr list \<Rightarrow> int \<Rightarrow> EpollFDCtx \<Rightarrow> 'w \<Rightarrow> (int \<times> 'w) option" where
  "wait_register_completion P full [] ckq e w = Some (ckq, w)"
| "wait_register_completion P full (a # as) ckq e w = do {
     n \<leftarrow> nodes e a;
     (ckq1, w1) \<leftarrow> (if full \<or> is_edge_triggered n
                    then registered_fds_node_register_for_completion P ckq a n w
                    else Some (ckq, w));
     wait_register_completion P full as ckq1 e w1
   }"

fun complete_feed ::
  "'w platform \<Rightarrow> kevent list \<Rightarrow> EpollFDCtx \<Rightarrow> 'w \<Rightarrow> (EpollFDCtx \<times> 'w) option" where
  "complete_feed P [] e w = Some (e, w)"
| "complete_feed P (k # ks) e w = do {
     a \<leftarrow> kev_udata k;
     n \<leftarrow> nodes e a;
     (n1, w1) \<leftarrow> registered_fds_node_feed_event P a n (-1) k w;
     complete_feed P ks (set_node a n1 e) w1
   }"

partial_function (option) complete_loop ::
  "'w platform \<Rightarrow> int \<Rightarrow> EpollFDCtx \<Rightarrow> 'w \<Rightarrow> (EpollFDCtx \<times> 'w) option" where
  "complete_loop plat kq e w =
     (case sys_kevent plat kq [] 32 w of
        (Inl _, w1) \<Rightarrow> Some (e, w1)
      | (Inr kevs, w1) \<Rightarrow>
          if kevs = [] then Some (e, w1)
          else Option.bind (complete_feed plat kevs e w1) (\<lambda>(e1, w2). complete_loop plat kq e1 w2))"

definition registered_fds_node_complete ::
  "'w platform \<Rightarrow> int \<Rightarrow> EpollFDCtx \<Rightarrow> 'w \<Rightarrow> (EpollFDCtx \<times> 'w) option" where
  "registered_fds_node_complete P kq e w =
     (if kq < 0 then Some (e, w)
      else do {
        (e1, w1) \<leftarrow> complete_loop P kq e w;
        Some (e1, snd (sys_close P kq w1))
      })"

text \<open>Copying the results out and resetting the nodes.\<close>

fun wait_collect ::
  "'w platform \<Rightarrow> int \<Rightarrow> addr list \<Rightarrow> EpollFDCtx \<Rightarrow> 'w \<Rightarrow> (epoll_event list \<times> EpollFDCtx \<times> 'w) option" where
  "wait_collect P kq [] e w = Some ([], e, w)"
| "wait_collect P kq (a # as) e w = do {
     n \<leftarrow> nodes e a;
     let e1 = set_node a (n\<lparr>revents := 0, got_evfilt_read := False, got_evfilt_write := False,
                            got_evfilt_except := False\<rparr>) e;
     (e2, w2) \<leftarrow> (if is_oneshot n then epollfd_ctx__remove_node_from_kq P e1 kq a w else Some (e1, w));
     (evs, e3, w3) \<leftarrow> wait_collect P kq as e2 w2;
     Some (\<lparr>ev_events = revents n, ev_data = node_data n\<rparr> # evs, e3, w3)
   }"

definition wait_pass ::
  "'w platform \<Rightarrow> int \<Rightarrow> nat \<Rightarrow> nat \<Rightarrow> EpollFDCtx \<Rightarrow> 'w \<Rightarrow>
   ((errno + nat \<times> epoll_event list) \<times> EpollFDCtx \<times> 'w) option" where
  "wait_pass P kq cap cnt e w = do {
     c_assert (kevs_length e \<noteq> 0);
     (case sys_kevent P kq [] cnt w of
        (Inl ec, w1) \<Rightarrow> Some (Inl ec, e, w1)
      | (Inr kevs, w1) \<Rightarrow> do {
          (js, e1, w2) \<leftarrow> wait_feed P kq cap kevs [] e w1;
          (ckq, w3) \<leftarrow> wait_register_completion P (length kevs = cnt) js (-1) e1 w2;
          (e2, w4) \<leftarrow> registered_fds_node_complete P ckq e1 w3;
          (evs, e3, w5) \<leftarrow> wait_collect P kq js e2 w4;
          Some (Inr (length kevs, evs), e3, w5)
        })
   }"

text \<open>The label \<open>again\<close>.\<close>

partial_function (option) wait_again ::
  "'w platform \<Rightarrow> int \<Rightarrow> nat \<Rightarrow> nat \<Rightarrow> EpollFDCtx \<Rightarrow> 'w \<Rightarrow>
   ((errno + epoll_event list) \<times> EpollFDCtx \<times> 'w) option" where
  "wait_again plat kq cap cnt e w =
     Option.bind (wait_pass plat kq cap cnt e w)
       (\<lambda>(r, e1, w1).
          (case r of
             Inl ec \<Rightarrow> Some (Inl ec, e1, w1)
           | Inr (n, evs) \<Rightarrow>
               if n \<noteq> 0 \<and> evs = [] then wait_again plat kq cap cnt e1 w1 else Some (Inr evs, e1, w1)))"

text \<open>
  The part before the label: the buffers, the poll of the descriptors that only support it, and the number
  of kevents to ask for, which is \<open>None\<close> when nothing is ready.
\<close>

definition wait_prepare ::
  "'w platform \<Rightarrow> EpollFDCtx \<Rightarrow> int \<Rightarrow> int \<Rightarrow> 'w \<Rightarrow>
   ((errno + nat option) \<times> EpollFDCtx \<times> 'w) option" where
  "wait_prepare P e kq cnt w = do {
     c_assert (cnt \<ge> 1);
     (case epollfd_ctx_make_pfds_space P e w of
        (Inl ec, e1, w1) \<Rightarrow> Some (Inl ec, e1, w1)
      | (Inr _, e1, w1) \<Rightarrow> do {
          pfds \<leftarrow> epollfd_ctx_fill_pollfds e1 kq;
          c_assert (length pfds \<le> pfds_length e1);
          (case sys_poll P pfds 0 w1 of
             (Inl ec, w2) \<Rightarrow> Some (Inl ec, e1, w2)
           | (Inr (n, out), w2) \<Rightarrow>
               if n = 0 then Some (Inr None, e1, w2)
               else do {
                 (e2, w3) \<leftarrow> wait_poll_nodes P kq (zip (poll_fds e1) (tl out)) e1 w2;
                 (case wait_kevs_count e2 cnt of
                    None \<Rightarrow> Some (Inl ENOMEM, e2, w3)
                  | Some cnt1 \<Rightarrow> do {
                      (r, e3, w4) \<leftarrow> epollfd_ctx_make_kevs_space P e2 (nat cnt1) w3;
                      Some (case r of Inl ec \<Rightarrow> Inl ec | Inr _ \<Rightarrow> Inr (Some (nat cnt1)), e3, w4)
                    })
               })
        })
   }"

definition epollfd_ctx_wait ::
  "'w platform \<Rightarrow> EpollFDCtx \<Rightarrow> int \<Rightarrow> int \<Rightarrow> 'w \<Rightarrow>
   ((errno + epoll_event list) \<times> EpollFDCtx \<times> 'w) option" where
  "epollfd_ctx_wait P e kq cnt w = do {
     (r, e1, w1) \<leftarrow> wait_prepare P e kq cnt w;
     (case r of
        Inl ec \<Rightarrow> Some (Inl ec, e1, w1)
      | Inr None \<Rightarrow> Some (Inr [], e1, w1)
      | Inr (Some cnt1) \<Rightarrow> wait_again P kq (nat cnt) cnt1 e1 w1)
   }"

end
