(* ===== verification/Eventfd_Ctx.thy ===== *)
theory Eventfd_Ctx
  imports Kqueue_Event
begin

text \<open>
  \<open>src/eventfd_ctx.c\<close>: the 64-bit counter behind an eventfd and the flag that makes its kqueue
  readable. The abstract eventfd is a natural number below \<open>2 ^ 64 - 1\<close> with the reads and writes
  of eventfd(2); \<open>eventfd_run_refines\<close> says that the code and the abstract object give the same
  answers to every sequence of calls. The flag is related to the counter by \<open>eventfd_ready\<close>.
\<close>

section \<open>State and operations\<close>

abbreviation EVENTFD_CTX_FLAG_SEMAPHORE :: "32 word" where
  "EVENTFD_CTX_FLAG_SEMAPHORE \<equiv> 1"

abbreviation UINT64_MAX :: "64 word" where
  "UINT64_MAX \<equiv> - 1"

record EventFDCtx =
  efd_flags :: "32 word"
  efd_kqueue_event :: KQueueEvent
  efd_counter :: "64 word"

definition eventfd_ctx_init ::
  "'w platform \<Rightarrow> int \<Rightarrow> 32 word \<Rightarrow> 32 word \<Rightarrow> 'w \<Rightarrow> ((errno + EventFDCtx) \<times> 'w) option" where
  "eventfd_ctx_init P kq counter flags w = do {
     c_assert (subset_bits flags EVENTFD_CTX_FLAG_SEMAPHORE);
     (r, ke, w1) \<leftarrow> kqueue_event_init P (0 < counter) w;
     (case r of
        Inl ec \<Rightarrow> Some (Inl ec, w1)
      | Inr kevs \<Rightarrow>
          (case sys_kevent P kq kevs 0 w1 of
             (Inl ec, w2) \<Rightarrow> Some (Inl ec, snd (kqueue_event_terminate P ke w2))
           | (Inr _, w2) \<Rightarrow>
               Some (Inr \<lparr>efd_flags = flags, efd_kqueue_event = ke, efd_counter = ucast counter\<rparr>, w2)))
   }"

definition eventfd_ctx_terminate ::
  "'w platform \<Rightarrow> EventFDCtx \<Rightarrow> 'w \<Rightarrow> (errno + unit) \<times> 'w" where
  "eventfd_ctx_terminate P e w = kqueue_event_terminate P (efd_kqueue_event e) w"

text \<open>\<open>__builtin_add_overflow\<close> on \<open>uint64_t\<close>: the wrapped sum and whether it wrapped.\<close>

definition add_overflow64 :: "64 word \<Rightarrow> 64 word \<Rightarrow> 64 word \<times> bool" where
  "add_overflow64 a b = (a + b, a + b < a)"

definition eventfd_ctx_write ::
  "'w platform \<Rightarrow> int \<Rightarrow> EventFDCtx \<Rightarrow> 64 word \<Rightarrow> 'w \<Rightarrow> (errno + unit) \<times> EventFDCtx \<times> 'w" where
  "eventfd_ctx_write P kq e value w =
     (if value = UINT64_MAX then (Inl EINVAL, e, w)
      else
        (let (new_value, ovf) = add_overflow64 (efd_counter e) value
         in if ovf \<or> new_value > UINT64_MAX - 1 then (Inl EAGAIN, e, w)
            else
              (let e1 = e\<lparr>efd_counter := new_value\<rparr>;
                   (r, ke, w1) = kqueue_event_trigger P kq (efd_kqueue_event e1) w
               in (r, e1\<lparr>efd_kqueue_event := ke\<rparr>, w1))))"

definition eventfd_ctx_read ::
  "'w platform \<Rightarrow> int \<Rightarrow> EventFDCtx \<Rightarrow> 'w \<Rightarrow> ((errno + 64 word) \<times> EventFDCtx \<times> 'w) option" where
  "eventfd_ctx_read P kq e w =
     (let current_value = efd_counter e;
          semaphore = has_bits (efd_flags e) EVENTFD_CTX_FLAG_SEMAPHORE
      in if current_value = 0 then Some (Inl EAGAIN, e, w)
         else
           (let new_value = (if semaphore then current_value - 1 else 0)
            in do {
                 (ke, w1) \<leftarrow>
                   (if new_value = 0 \<and> kqueue_event_is_triggered (efd_kqueue_event e)
                    then kqueue_event_clear P kq (efd_kqueue_event e) w
                    else Some (efd_kqueue_event e, w));
                 Some (Inr (if semaphore then 1 else current_value),
                       e\<lparr>efd_kqueue_event := ke, efd_counter := new_value\<rparr>, w1)
               }))"

section \<open>Well-formed states\<close>

definition eventfd_wf :: "EventFDCtx \<Rightarrow> bool" where
  "eventfd_wf e \<longleftrightarrow>
     efd_counter e \<noteq> UINT64_MAX \<and> subset_bits (efd_flags e) EVENTFD_CTX_FLAG_SEMAPHORE"

abbreviation efd_triggered :: "EventFDCtx \<Rightarrow> bool" where
  "efd_triggered e \<equiv> kqueue_event_is_triggered (efd_kqueue_event e)"

text \<open>No wake-up is lost: whenever a read would succeed, the kqueue is readable.\<close>

definition eventfd_ready :: "EventFDCtx \<Rightarrow> bool" where
  "eventfd_ready e \<longleftrightarrow> (efd_counter e \<noteq> 0 \<longrightarrow> efd_triggered e)"

text \<open>No wake-up is spurious: the kqueue is readable only when a read would succeed.\<close>

definition eventfd_exact :: "EventFDCtx \<Rightarrow> bool" where
  "eventfd_exact e \<longleftrightarrow> (efd_triggered e \<longrightarrow> efd_counter e \<noteq> 0)"

section \<open>The abstract eventfd\<close>

datatype eventfd_call = Efd_write "64 word" | Efd_read

datatype eventfd_answer = Efd_error errno | Efd_done | Efd_value nat

fun efd_spec :: "bool \<Rightarrow> eventfd_call \<Rightarrow> nat \<Rightarrow> eventfd_answer \<times> nat" where
  "efd_spec sem (Efd_write v) c =
     (if unat v = 2 ^ 64 - 1 then (Efd_error EINVAL, c)
      else if c + unat v > 2 ^ 64 - 2 then (Efd_error EAGAIN, c)
      else (Efd_done, c + unat v))"
| "efd_spec sem Efd_read c =
     (if c = 0 then (Efd_error EAGAIN, c)
      else if sem then (Efd_value 1, c - 1)
      else (Efd_value c, 0))"

fun efd_spec_run :: "bool \<Rightarrow> eventfd_call list \<Rightarrow> nat \<Rightarrow> eventfd_answer list \<times> nat" where
  "efd_spec_run sem [] c = ([], c)"
| "efd_spec_run sem (x # xs) c =
     (let (a, c1) = efd_spec sem x c; (as, c2) = efd_spec_run sem xs c1 in (a # as, c2))"

text \<open>The calls of the code, as one function of the call.\<close>

fun eventfd_do ::
  "'w platform \<Rightarrow> int \<Rightarrow> eventfd_call \<Rightarrow> EventFDCtx \<Rightarrow> 'w \<Rightarrow> (eventfd_answer \<times> EventFDCtx \<times> 'w) option" where
  "eventfd_do P kq (Efd_write v) e w =
     (case eventfd_ctx_write P kq e v w of
        (Inl ec, e1, w1) \<Rightarrow> Some (Efd_error ec, e1, w1)
      | (Inr _, e1, w1) \<Rightarrow> Some (Efd_done, e1, w1))"
| "eventfd_do P kq Efd_read e w =
     do { (r, e1, w1) \<leftarrow> eventfd_ctx_read P kq e w;
          Some (case r of Inl ec \<Rightarrow> Efd_error ec | Inr v \<Rightarrow> Efd_value (unat v), e1, w1) }"

fun eventfd_run ::
  "'w platform \<Rightarrow> int \<Rightarrow> eventfd_call list \<Rightarrow> EventFDCtx \<Rightarrow> 'w \<Rightarrow>
   (eventfd_answer list \<times> EventFDCtx \<times> 'w) option" where
  "eventfd_run P kq [] e w = Some ([], e, w)"
| "eventfd_run P kq (x # xs) e w = do {
     (a, e1, w1) \<leftarrow> eventfd_do P kq x e w;
     (as, e2, w2) \<leftarrow> eventfd_run P kq xs e1 w1;
     Some (a # as, e2, w2)
   }"

abbreviation efd_semaphore :: "EventFDCtx \<Rightarrow> bool" where
  "efd_semaphore e \<equiv> has_bits (efd_flags e) EVENTFD_CTX_FLAG_SEMAPHORE"

text \<open>The kernel accepts every trigger, and the loops of \<open>kqueue_event_clear\<close> end.\<close>

definition flag_ok :: "'w platform \<Rightarrow> int \<Rightarrow> bool" where
  "flag_ok P kq \<longleftrightarrow>
     (\<forall>ke w. (\<exists>ke' w'. kqueue_event_trigger P kq ke w = (Inr (), ke', w')) \<and>
             (\<exists>ke' w'. kqueue_event_clear P kq ke w = Some (ke', w')))"

lemma quiet_flag_ok [simp]: "flag_ok quiet_platform kq"
  by (simp add: flag_ok_def kqueue_event_trigger_def kqueue_event_clear_def)

section \<open>The operations against the abstract eventfd\<close>

lemma unat_max64 [simp]: "unat UINT64_MAX = 2 ^ 64 - 1"
  by (simp add: unsigned_minus_1_eq_mask mask_eq_exp_minus_1)

lemma unat_lt64: "unat (x :: 64 word) < 2 ^ 64"
  using unsigned_less [of x] by simp

lemma unat_eq_max64: "unat (x :: 64 word) = 2 ^ 64 - 1 \<longleftrightarrow> x = UINT64_MAX"
  unfolding word_unat_eq_iff unat_max64 by (rule refl)

lemma word64_less_max: "x > UINT64_MAX - 1 \<longleftrightarrow> x = UINT64_MAX"
proof -
  have "unat (UINT64_MAX - 1) = 2 ^ 64 - 2"
    by (subst unat_minus_one) simp_all
  then show ?thesis
    using unat_lt64 [of x] unat_eq_max64 [of x] unfolding word_less_nat_alt by auto
qed

lemma add_overflow64_snd: "snd (add_overflow64 a b) \<longleftrightarrow> 2 ^ 64 \<le> unat a + unat b"
  using unat_lt64 [of a] unat_lt64 [of b]
  by (auto simp: add_overflow64_def word_less_nat_alt unat_word_ariths mod_if)

lemma add_overflow64_fst: "unat a + unat b < 2 ^ 64 \<Longrightarrow> unat (fst (add_overflow64 a b)) = unat a + unat b"
  by (simp add: add_overflow64_def unat_word_ariths)

text \<open>The guard of a write, as the code tests it and as the abstract object does.\<close>

lemma write_guard:
  "snd (add_overflow64 c v) \<or> fst (add_overflow64 c v) > UINT64_MAX - 1 \<longleftrightarrow>
     unat c + unat v > 2 ^ 64 - 2"
proof (cases "2 ^ 64 \<le> unat c + unat v")
  case True
  then show ?thesis by (simp add: add_overflow64_snd)
next
  case False
  then have "unat (fst (add_overflow64 c v)) = unat c + unat v" by (simp add: add_overflow64_fst)
  then show ?thesis
    using False unat_eq_max64 [of "fst (add_overflow64 c v)"]
    unfolding add_overflow64_snd word64_less_max by auto
qed

lemma eventfd_write_refused:
  assumes "efd_spec sem (Efd_write v) (unat (efd_counter e)) = (Efd_error ec, c)"
  shows "eventfd_ctx_write P kq e v w = (Inl ec, e, w)"
  using assms write_guard [of "efd_counter e" v] unat_eq_max64 [of v]
  by (auto simp: eventfd_ctx_write_def split: prod.splits if_splits)

lemma eventfd_write_accepted:
  assumes "efd_spec sem (Efd_write v) (unat (efd_counter e)) = (Efd_done, c)"
    and "kqueue_event_trigger P kq (efd_kqueue_event e) w = (r, ke, w1)"
  obtains n where "unat n = c" "n \<noteq> UINT64_MAX"
    "eventfd_ctx_write P kq e v w = (r, e\<lparr>efd_counter := n, efd_kqueue_event := ke\<rparr>, w1)"
proof (rule that [of "fst (add_overflow64 (efd_counter e) v)"])
  have le: "unat (efd_counter e) + unat v \<le> 2 ^ 64 - 2" and v: "v \<noteq> UINT64_MAX"
    and c: "c = unat (efd_counter e) + unat v"
    using assms(1) unat_eq_max64 [of v] by (auto split: if_splits)
  then show n: "unat (fst (add_overflow64 (efd_counter e) v)) = c"
    by (simp add: add_overflow64_fst)
  show "fst (add_overflow64 (efd_counter e) v) \<noteq> UINT64_MAX"
    using n le c unat_eq_max64 [of "fst (add_overflow64 (efd_counter e) v)"] by auto
  show "eventfd_ctx_write P kq e v w =
      (r, e\<lparr>efd_counter := fst (add_overflow64 (efd_counter e) v), efd_kqueue_event := ke\<rparr>, w1)"
    using write_guard [of "efd_counter e" v] le v assms(2)
    by (auto simp: eventfd_ctx_write_def split: prod.splits)
qed

lemma efd_spec_write_cases:
  obtains ec where "efd_spec sem (Efd_write v) c = (Efd_error ec, c)" "ec = EINVAL \<or> ec = EAGAIN"
  | "efd_spec sem (Efd_write v) c = (Efd_done, c + unat v)"
  by (cases "unat v = 2 ^ 64 - 1"; cases "c + unat v > 2 ^ 64 - 2") auto

lemma eventfd_read_step:
  assumes "eventfd_ctx_read P kq e w = Some (r, e', w')"
  shows "efd_spec (efd_semaphore e) Efd_read (unat (efd_counter e)) =
           (case r of Inl ec \<Rightarrow> Efd_error ec | Inr v \<Rightarrow> Efd_value (unat v), unat (efd_counter e'))"
    and "efd_flags e' = efd_flags e"
    and "eventfd_wf e \<Longrightarrow> eventfd_wf e'"
proof -
  have pos: "unat (x - 1) = unat x - 1" "x - 1 \<noteq> UINT64_MAX" if "x \<noteq> 0" for x :: "64 word"
    using that unat_gt_0 [of x] by (simp_all add: unat_minus_one)
  show "efd_spec (efd_semaphore e) Efd_read (unat (efd_counter e)) =
           (case r of Inl ec \<Rightarrow> Efd_error ec | Inr v \<Rightarrow> Efd_value (unat v), unat (efd_counter e'))"
    and "efd_flags e' = efd_flags e"
    and "eventfd_wf e \<Longrightarrow> eventfd_wf e'"
    using assms pos [of "efd_counter e"]
    by (auto simp: eventfd_ctx_read_def eventfd_wf_def Let_def unat_eq_zero split: if_splits Option.bind_splits)
qed

lemma eventfd_read_total:
  assumes "flag_ok P kq"
  shows "\<exists>r e' w'. eventfd_ctx_read P kq e w = Some (r, e', w')"
proof -
  obtain ke' w' where "kqueue_event_clear P kq (efd_kqueue_event e) w = Some (ke', w')"
    using assms unfolding flag_ok_def by blast
  then show ?thesis by (simp add: eventfd_ctx_read_def Let_def)
qed

lemma eventfd_read_flag:
  assumes "eventfd_ctx_read P kq e w = Some (r, e', w')"
  shows "eventfd_ready e \<Longrightarrow> eventfd_ready e'" and "eventfd_exact e \<Longrightarrow> eventfd_exact e'"
  using assms kqev.clear_reset [of P kq "efd_kqueue_event e" w]
  by (auto simp: eventfd_ctx_read_def eventfd_ready_def eventfd_exact_def Let_def
      split: if_splits Option.bind_splits)

lemma eventfd_write_step:
  assumes "eventfd_ctx_write P kq e v w = (r, e', w')"
  obtains ec where "r = Inl ec" "e' = e" "w' = w"
      "efd_spec sem (Efd_write v) (unat (efd_counter e)) = (Efd_error ec, unat (efd_counter e))"
  | ke where "kqueue_event_trigger P kq (efd_kqueue_event e) w = (r, ke, w')"
      "efd_spec sem (Efd_write v) (unat (efd_counter e)) = (Efd_done, unat (efd_counter e'))"
      "unat (efd_counter e') = unat (efd_counter e) + unat v"
      "efd_kqueue_event e' = ke" "efd_flags e' = efd_flags e" "efd_counter e' \<noteq> UINT64_MAX"
proof (cases sem v "unat (efd_counter e)" rule: efd_spec_write_cases)
  case (1 ec)
  then show ?thesis using that(1) [of ec] eventfd_write_refused [OF 1(1), of P kq w] assms by simp
next
  case 2
  obtain r1 ke w1 where t: "kqueue_event_trigger P kq (efd_kqueue_event e) w = (r1, ke, w1)"
    by (cases "kqueue_event_trigger P kq (efd_kqueue_event e) w")
  obtain n where "unat n = unat (efd_counter e) + unat v" "n \<noteq> UINT64_MAX"
    "eventfd_ctx_write P kq e v w = (r1, e\<lparr>efd_counter := n, efd_kqueue_event := ke\<rparr>, w1)"
    using eventfd_write_accepted [OF 2 t] .
  then show ?thesis using that(2) [of ke] assms t 2 by auto
qed

lemma eventfd_write_wf:
  assumes "eventfd_ctx_write P kq e v w = (r, e', w')" "eventfd_wf e"
  shows "eventfd_wf e'" and "efd_flags e' = efd_flags e"
  using assms(2) by (auto intro: eventfd_write_step [OF assms(1), where sem = False] simp: eventfd_wf_def)

lemma eventfd_write_flag:
  assumes "eventfd_ctx_write P kq e v w = (r, e', w')"
  shows "flag_ok P kq \<Longrightarrow> eventfd_ready e \<Longrightarrow> eventfd_ready e'"
    and "v \<noteq> 0 \<Longrightarrow> eventfd_exact e \<Longrightarrow> eventfd_exact e'"
proof -
  have set: "kqueue_event_is_triggered ke"
    if "flag_ok P kq" "kqueue_event_trigger P kq (efd_kqueue_event e) w = (r, ke, w')" for ke
  proof -
    have "r = Inr ()" using that unfolding flag_ok_def by (metis Pair_inject)
    then show ?thesis using that kqev.trigger_set by fastforce
  qed
  show "flag_ok P kq \<Longrightarrow> eventfd_ready e \<Longrightarrow> eventfd_ready e'"
    using assms by (rule eventfd_write_step [where sem = False]; auto simp: eventfd_ready_def dest: set)
  show "v \<noteq> 0 \<Longrightarrow> eventfd_exact e \<Longrightarrow> eventfd_exact e'"
    using assms
    by (rule eventfd_write_step [where sem = False])
      (auto simp: eventfd_exact_def word_unat_eq_iff simp flip: unat_eq_zero)
qed

lemma eventfd_do_step:
  assumes "eventfd_do P kq x e w = Some (a, e', w')" "eventfd_wf e"
  shows "eventfd_wf e'" and "efd_flags e' = efd_flags e"
    and "flag_ok P kq \<Longrightarrow> efd_spec (efd_semaphore e) x (unat (efd_counter e)) = (a, unat (efd_counter e'))"
proof -
  have "eventfd_wf e' \<and> efd_flags e' = efd_flags e \<and>
    (flag_ok P kq \<longrightarrow> efd_spec (efd_semaphore e) x (unat (efd_counter e)) = (a, unat (efd_counter e')))"
  proof (cases x)
    case (Efd_write v)
    then obtain r where w: "eventfd_ctx_write P kq e v w = (r, e', w')"
      and a: "a = (case r of Inl ec \<Rightarrow> Efd_error ec | Inr u \<Rightarrow> Efd_done)"
      using assms(1) by (auto split: prod.splits sum.splits)
    have "efd_spec (efd_semaphore e) x (unat (efd_counter e)) = (a, unat (efd_counter e'))" if "flag_ok P kq"
      using w
    proof (rule eventfd_write_step [where sem = "efd_semaphore e"])
      fix ke assume t: "kqueue_event_trigger P kq (efd_kqueue_event e) w = (r, ke, w')"
        and "efd_spec (efd_semaphore e) (Efd_write v) (unat (efd_counter e)) = (Efd_done, unat (efd_counter e'))"
      moreover have "r = Inr ()" using t that unfolding flag_ok_def by (metis Pair_inject)
      ultimately show ?thesis by (simp add: a Efd_write)
    qed (simp add: a Efd_write)
    then show ?thesis using eventfd_write_wf [OF w assms(2)] by blast
  next
    case Efd_read
    then obtain r where "eventfd_ctx_read P kq e w = Some (r, e', w')"
      and a: "a = (case r of Inl ec \<Rightarrow> Efd_error ec | Inr v \<Rightarrow> Efd_value (unat v))"
      using assms(1) by (auto split: Option.bind_splits)
    then show ?thesis
      unfolding a using eventfd_read_step [of P kq e w r e' w'] Efd_read assms(2) by simp
  qed
  then show "eventfd_wf e'" and "efd_flags e' = efd_flags e"
    and "flag_ok P kq \<Longrightarrow> efd_spec (efd_semaphore e) x (unat (efd_counter e)) = (a, unat (efd_counter e'))"
    by blast+
qed

lemma eventfd_do_total:
  assumes "flag_ok P kq"
  shows "\<exists>a e' w'. eventfd_do P kq x e w = Some (a, e', w')"
proof (cases x)
  case (Efd_write v)
  then show ?thesis by (auto split: prod.splits sum.splits)
next
  case Efd_read
  then show ?thesis using eventfd_read_total [OF assms, of e w] by (auto split: sum.splits)
qed

section \<open>Runs\<close>

lemma eventfd_do_flag:
  assumes "eventfd_do P kq x e w = Some (a, e', w')"
  shows "flag_ok P kq \<Longrightarrow> eventfd_ready e \<Longrightarrow> eventfd_ready e'"
    and "x \<noteq> Efd_write 0 \<Longrightarrow> eventfd_exact e \<Longrightarrow> eventfd_exact e'"
  using assms eventfd_read_flag [of P kq e w _ e' w'] eventfd_write_flag [of P kq e _ w _ e' w']
  by (cases x; auto split: prod.splits sum.splits Option.bind_splits)+

lemma eventfd_run_flag:
  assumes "eventfd_run P kq xs e w = Some (as, e', w')"
  shows "flag_ok P kq \<Longrightarrow> eventfd_ready e \<Longrightarrow> eventfd_ready e'"
    and "Efd_write 0 \<notin> set xs \<Longrightarrow> eventfd_exact e \<Longrightarrow> eventfd_exact e'"
  using assms
proof (induction xs arbitrary: e w as)
  case (Cons x xs)
  { case 1 then show ?case using Cons.IH(1) eventfd_do_flag(1) by (fastforce split: Option.bind_splits) }
  { case 2 then show ?case using Cons.IH(2) eventfd_do_flag(2) by (fastforce split: Option.bind_splits) }
qed auto

lemma unat_ucast_counter: "unat (ucast (c :: 32 word) :: 64 word) = unat c"
proof -
  have "unat c < 2 ^ 32" using unsigned_less [of c, where 'a = nat] by simp
  then show ?thesis by (simp add: unsigned_ucast_eq take_bit_nat_eq_self)
qed

lemma eventfd_init_state:
  assumes "eventfd_ctx_init P kq c flags w = Some (Inr e, w')"
  shows "eventfd_wf e" and "efd_counter e = ucast c" and "efd_flags e = flags"
    and "efd_triggered e \<longleftrightarrow> c \<noteq> 0"
proof -
  obtain ke kevs w1 where i: "kqueue_event_init P (0 < c) w = Some (Inr kevs, ke, w1)"
    and e: "e = \<lparr>efd_flags = flags, efd_kqueue_event = ke, efd_counter = ucast c\<rparr>"
    and fl: "subset_bits flags EVENTFD_CTX_FLAG_SEMAPHORE"
    using assms by (auto simp: eventfd_ctx_init_def bind_c_assert_eq_Some
        split: Option.bind_splits prod.splits sum.splits)
  show "efd_triggered e \<longleftrightarrow> c \<noteq> 0" "efd_counter e = ucast c" "efd_flags e = flags"
    using kqueue_event_init_flag(1) [OF i] by (simp_all add: e word_neq_0_conv)
  have "unat (ucast c :: 64 word) < 2 ^ 32"
    using unsigned_less [of c, where 'a = nat] by (simp add: unat_ucast_counter)
  then show "eventfd_wf e" using fl by (auto simp: e eventfd_wf_def)
qed

section \<open>Properties\<close>

text \<open>C8: the eventfd code refines the counter of eventfd(2). For every sequence of reads and
  writes on a well-formed context, provided that the kernel accepts triggers and the clearing
  loops end, the run returns, every answer (success, value read, \<open>EINVAL\<close>, \<open>EAGAIN\<close>) is the one
  of the abstract counter, and the 64-bit counter stays below \<open>UINT64_MAX\<close>.\<close>

theorem eventfd_run_refines:
  assumes "flag_ok P kq" and "eventfd_wf e"
  shows "\<exists>as e' w'. eventfd_run P kq xs e w = Some (as, e', w') \<and>
           efd_spec_run (efd_semaphore e) xs (unat (efd_counter e)) = (as, unat (efd_counter e')) \<and>
           eventfd_wf e'"
  using assms(2)
proof (induction xs arbitrary: e w)
  case (Cons x xs)
  obtain a e1 w1 where x: "eventfd_do P kq x e w = Some (a, e1, w1)"
    using eventfd_do_total [OF assms(1)] by metis
  note eventfd_do_step [OF x Cons.prems]
  then show ?case
    using Cons.IH [of e1 w1] assms(1) x by fastforce
qed simp

definition demo_eventfd :: "bool \<Rightarrow> EventFDCtx" where
  "demo_eventfd sem = \<lparr>efd_flags = (if sem then 1 else 0),
     efd_kqueue_event = \<lparr>is_triggered = False, kqe_self_pipe = (-1, -1)\<rparr>, efd_counter = 0\<rparr>"

lemma demo_eventfd_wf [simp]: "eventfd_wf (demo_eventfd sem)"
  by (simp add: eventfd_wf_def demo_eventfd_def subset_bits_def)

theorem eventfd_run_refines_witness:
  "\<exists>as e' w'. eventfd_run quiet_platform 3 [Efd_write 7, Efd_read] (demo_eventfd True) (0::nat)
                = Some (as, e', w') \<and> as = [Efd_done, Efd_value 1] \<and> unat (efd_counter e') = 6"
proof -
  have "efd_spec_run (efd_semaphore (demo_eventfd True)) [Efd_write 7, Efd_read]
      (unat (efd_counter (demo_eventfd True))) = ([Efd_done, Efd_value 1], 6)"
    by (simp add: demo_eventfd_def has_bits_def)
  then show ?thesis
    using eventfd_run_refines [OF quiet_flag_ok demo_eventfd_wf,
        where xs = "[Efd_write 7, Efd_read]" and w = "0::nat" and kq = 3 and sem1 = True]
    by fastforce
qed

text \<open>C14: an eventfd created by \<open>eventfd_ctx_init\<close> and used by any sequence of reads and writes
  never loses a wake-up: when the counter is positive its kqueue flag is raised. When no call
  writes the value 0 there is no spurious wake-up either: the flag is raised exactly when the
  counter is positive.\<close>

theorem eventfd_wakeups:
  assumes "flag_ok P kq" and "eventfd_ctx_init P kq c flags w = Some (Inr e, w1)"
    and "eventfd_run P kq xs e w1 = Some (as, e', w')"
  shows "(efd_counter e' \<noteq> 0 \<longrightarrow> kqueue_event_is_triggered (efd_kqueue_event e')) \<and>
         (Efd_write 0 \<notin> set xs \<longrightarrow>
            kqueue_event_is_triggered (efd_kqueue_event e') = (efd_counter e' \<noteq> 0))"
proof -
  have "(ucast c :: 64 word) = 0 \<longleftrightarrow> c = 0"
    using unat_ucast_counter [of c] by (simp flip: unat_eq_zero)
  then have "eventfd_ready e" "eventfd_exact e"
    using eventfd_init_state [OF assms(2)] by (simp_all add: eventfd_ready_def eventfd_exact_def)
  then have "eventfd_ready e'" "Efd_write 0 \<notin> set xs \<Longrightarrow> eventfd_exact e'"
    using eventfd_run_flag [OF assms(3)] assms(1) by blast+
  then show ?thesis by (auto simp: eventfd_ready_def eventfd_exact_def)
qed

theorem eventfd_wakeups_witness:
  "\<exists>e w1 as e' w'.
     eventfd_ctx_init quiet_platform 3 2 0 (0::nat) = Some (Inr e, w1) \<and>
     eventfd_run quiet_platform 3 [Efd_read] e w1 = Some (as, e', w') \<and>
     kqueue_event_is_triggered (efd_kqueue_event e) \<and>
     \<not> kqueue_event_is_triggered (efd_kqueue_event e')"
proof -
  obtain e w1 where i: "eventfd_ctx_init quiet_platform 3 2 0 (0::nat) = Some (Inr e, w1)"
    and e: "efd_counter e = 2" "efd_flags e = 0" "kqueue_event_is_triggered (efd_kqueue_event e)"
    by (simp add: eventfd_ctx_init_def kqueue_event_init_def kqueue_event_is_triggered_def
        subset_bits_def)
  then obtain as e' w' where r: "eventfd_run quiet_platform 3 [Efd_read] e w1 = Some (as, e', w')"
    and "efd_counter e' = 0"
    by (auto simp: eventfd_ctx_read_def kqueue_event_clear_def)
  then show ?thesis
    using eventfd_wakeups [OF quiet_flag_ok i r] i e by auto
qed

text \<open>C16: writing 0 to an empty eventfd raises its flag although there is nothing to read: the
  descriptor polls readable, a read answers \<open>EAGAIN\<close> and leaves the flag raised, so a reader that
  waits for the descriptor spins. eventfd(2) makes the descriptor readable only when the counter
  is greater than 0.\<close>

theorem eventfd_write_zero_wakes:
  assumes "flag_ok P kq" and "efd_counter e = 0"
  shows "\<exists>e' w'. eventfd_ctx_write P kq e 0 w = (Inr (), e', w') \<and>
           efd_counter e' = 0 \<and> kqueue_event_is_triggered (efd_kqueue_event e') \<and>
           (\<forall>w2. eventfd_ctx_read P kq e' w2 = Some (Inl EAGAIN, e', w2))"
proof -
  obtain ke w1 where "kqueue_event_trigger P kq (efd_kqueue_event e) w = (Inr (), ke, w1)"
    using assms(1) unfolding flag_ok_def by blast
  with kqev.trigger_set [OF this] show ?thesis
    using assms(2)
    by (simp add: eventfd_ctx_write_def eventfd_ctx_read_def add_overflow64_def word_less_nat_alt)
qed

theorem eventfd_write_zero_wakes_witness:
  "\<exists>e' w'. eventfd_ctx_write quiet_platform 3 (demo_eventfd False) 0 (0::nat) = (Inr (), e', w') \<and>
           kqueue_event_is_triggered (efd_kqueue_event e')"
  using eventfd_write_zero_wakes [OF quiet_flag_ok, of "demo_eventfd False" 3 "0::nat"]
  by (auto simp: demo_eventfd_def)

text \<open>C17: a write whose trigger fails reports the error although its value has been added: the
  caller that repeats the write adds the value twice.\<close>

theorem eventfd_write_error_adds:
  assumes "kqueue_event_trigger P kq (efd_kqueue_event e) w = (Inl ec, ke, w1)"
    and "unat (efd_counter e) + unat v \<le> 2 ^ 64 - 2" and "v \<noteq> UINT64_MAX"
  shows "\<exists>e'. eventfd_ctx_write P kq e v w = (Inl ec, e', w1) \<and>
              unat (efd_counter e') = unat (efd_counter e) + unat v"
proof -
  have "efd_spec False (Efd_write v) (unat (efd_counter e)) = (Efd_done, unat (efd_counter e) + unat v)"
    using assms(2,3) unat_eq_max64 [of v] by auto
  from eventfd_write_accepted [OF this assms(1)] show ?thesis by fastforce
qed

theorem eventfd_write_error_adds_witness:
  "\<exists>e'. eventfd_ctx_write (quiet_platform\<lparr>sys_kevent := \<lambda>kq ch n w. (Inl ENOMEM, w)\<rparr>) 3
           (demo_eventfd False) 5 (0::nat) = (Inl ENOMEM, e', 0) \<and> unat (efd_counter e') = 5"
  using eventfd_write_error_adds [of "quiet_platform\<lparr>sys_kevent := \<lambda>kq ch n w. (Inl ENOMEM, w)\<rparr>" 3
      "demo_eventfd False" "0::nat" ENOMEM "efd_kqueue_event (demo_eventfd False)" 0 5]
  by (simp add: demo_eventfd_def kqueue_event_trigger_def)

end
