(* ===== verification/Timespec.thy ===== *)
theory Timespec
  imports Platform
begin

text \<open>
  \<open>src/timespec_util.c\<close> and the macros of \<open>src/timespec_util.h\<close>: validity, comparison and
  overflow-checked addition and subtraction of \<open>struct timespec\<close>. The reference semantics is
  \<open>nanos\<close>, the number of nanoseconds a timespec denotes.

  \<open>timespecadd_safe\<close> and \<open>timespecsub_safe\<close> return \<open>None\<close> where their assertions fail,
  \<open>Some None\<close> where the C function returns \<open>false\<close>, and \<open>Some (Some v)\<close> with the stored
  result where it returns \<open>true\<close>.
\<close>

section \<open>Operations\<close>

definition timespec_is_valid :: "timespec \<Rightarrow> bool" where
  "timespec_is_valid ts \<longleftrightarrow> 0 \<le> tv_sec ts \<and> 0 \<le> tv_nsec ts \<and> tv_nsec ts < 1000000000"

definition itimerspec_is_valid :: "itimerspec \<Rightarrow> bool" where
  "itimerspec_is_valid its \<longleftrightarrow> timespec_is_valid (it_value its) \<and> timespec_is_valid (it_interval its)"

definition timespeccmp_less :: "timespec \<Rightarrow> timespec \<Rightarrow> bool" where
  "timespeccmp_less t u \<longleftrightarrow>
     (if tv_sec t = tv_sec u then tv_nsec t < tv_nsec u else tv_sec t < tv_sec u)"

definition timespeccmp_geq :: "timespec \<Rightarrow> timespec \<Rightarrow> bool" where
  "timespeccmp_geq t u \<longleftrightarrow>
     (if tv_sec t = tv_sec u then tv_nsec t \<ge> tv_nsec u else tv_sec t \<ge> tv_sec u)"

definition timespecsub :: "timespec \<Rightarrow> timespec \<Rightarrow> timespec" where
  "timespecsub t u =
     (let s = tv_sec t - tv_sec u; n = tv_nsec t - tv_nsec u
      in if n < 0 then \<lparr>tv_sec = s - 1, tv_nsec = n + 1000000000\<rparr>
         else \<lparr>tv_sec = s, tv_nsec = n\<rparr>)"

definition timespecadd_safe :: "timespec \<Rightarrow> timespec \<Rightarrow> timespec option option" where
  "timespecadd_safe tsp usp = do {
     c_assert (timespec_is_valid tsp);
     c_assert (timespec_is_valid usp);
     Some (case fits64 (tv_sec tsp + tv_sec usp) of
        None \<Rightarrow> None
      | Some s \<Rightarrow>
          (let n = tv_nsec tsp + tv_nsec usp
           in if n \<ge> 1000000000
              then (case fits64 (s + 1) of
                      None \<Rightarrow> None
                    | Some s' \<Rightarrow> Some \<lparr>tv_sec = s', tv_nsec = n - 1000000000\<rparr>)
              else Some \<lparr>tv_sec = s, tv_nsec = n\<rparr>))
   }"

definition timespecsub_safe :: "timespec \<Rightarrow> timespec \<Rightarrow> timespec option option" where
  "timespecsub_safe tsp usp = do {
     c_assert (timespec_is_valid tsp);
     c_assert (timespec_is_valid usp);
     Some (case fits64 (tv_sec tsp - tv_sec usp) of
        None \<Rightarrow> None
      | Some s \<Rightarrow>
          (let n = tv_nsec tsp - tv_nsec usp
           in if n < 0
              then (case fits64 (s - 1) of
                      None \<Rightarrow> None
                    | Some s' \<Rightarrow> Some \<lparr>tv_sec = s', tv_nsec = n + 1000000000\<rparr>)
              else Some \<lparr>tv_sec = s, tv_nsec = n\<rparr>))
   }"

section \<open>Reference semantics\<close>

definition nanos :: "timespec \<Rightarrow> int" where
  "nanos t = tv_sec t * 1000000000 + tv_nsec t"

text \<open>A timespec as the machine can hold it: valid, with a 64-bit \<open>tv_sec\<close>.\<close>

definition ts_wf :: "timespec \<Rightarrow> bool" where
  "ts_wf t \<longleftrightarrow> timespec_is_valid t \<and> tv_sec t \<le> INT64_MAX"

text \<open>A difference: \<open>tv_sec\<close> may be negative, \<open>tv_nsec\<close> is normalised.\<close>

definition ts_normal :: "timespec \<Rightarrow> bool" where
  "ts_normal t \<longleftrightarrow> 0 \<le> tv_nsec t \<and> tv_nsec t < 1000000000"

lemmas ts_defs = timespec_is_valid_def ts_wf_def ts_normal_def nanos_def in_int64_def int_limits

lemma ts_wf_valid [simp]: "ts_wf t \<Longrightarrow> timespec_is_valid t"
  by (simp add: ts_wf_def)

lemma ts_wf_normal [simp]: "ts_wf t \<Longrightarrow> ts_normal t"
  by (simp add: ts_defs)

lemma nanos_nonneg: "timespec_is_valid t \<Longrightarrow> 0 \<le> nanos t"
  by (simp add: ts_defs)

lemma nanos_zero_iff: "timespec_is_valid t \<Longrightarrow> nanos t = 0 \<longleftrightarrow> tv_sec t = 0 \<and> tv_nsec t = 0"
  unfolding timespec_is_valid_def nanos_def by arith

lemma nanos_inject:
  assumes "ts_normal t" "ts_normal u" "nanos t = nanos u"
  shows "t = u"
proof -
  have "tv_sec t = nanos t div 1000000000" "tv_sec u = nanos u div 1000000000"
    "tv_nsec t = nanos t mod 1000000000" "tv_nsec u = nanos u mod 1000000000"
    using assms(1,2) by (simp_all add: ts_defs)
  then show ?thesis using assms(3) by simp
qed

lemma timespeccmp_less_nanos:
  "ts_normal t \<Longrightarrow> ts_normal u \<Longrightarrow> timespeccmp_less t u \<longleftrightarrow> nanos t < nanos u"
  by (auto simp: timespeccmp_less_def ts_defs)

lemma timespeccmp_geq_nanos:
  "ts_normal t \<Longrightarrow> ts_normal u \<Longrightarrow> timespeccmp_geq t u \<longleftrightarrow> nanos t \<ge> nanos u"
  by (auto simp: timespeccmp_geq_def ts_defs)

lemma nanos_timespecsub [simp]: "nanos (timespecsub t u) = nanos t - nanos u"
  by (simp add: timespecsub_def nanos_def Let_def algebra_simps)

lemma ts_normal_timespecsub: "ts_normal t \<Longrightarrow> ts_normal u \<Longrightarrow> ts_normal (timespecsub t u)"
  by (auto simp: timespecsub_def ts_normal_def Let_def)

lemma ts_nonneg_iff: "ts_normal t \<Longrightarrow> 0 \<le> tv_sec t \<longleftrightarrow> 0 \<le> nanos t"
  by (auto simp: ts_defs)

lemma timespecsub_sign:
  "ts_wf t \<Longrightarrow> ts_wf u \<Longrightarrow> 0 \<le> tv_sec (timespecsub t u) \<longleftrightarrow> nanos u \<le> nanos t"
  by (simp add: ts_nonneg_iff ts_normal_timespecsub)

lemma ts_wf_timespecsub:
  assumes "ts_wf t" "ts_wf u" "nanos u \<le> nanos t"
  shows "ts_wf (timespecsub t u)"
proof -
  have "tv_sec (timespecsub t u) \<le> tv_sec t"
    using assms(1,2) by (auto simp: timespecsub_def ts_defs Let_def)
  then show ?thesis
    using assms timespecsub_sign [OF assms(1,2)] ts_normal_timespecsub [of t u]
    by (simp add: ts_wf_def timespec_is_valid_def ts_normal_def)
qed

lemma timespecsub_safe_eq:
  assumes "ts_wf t" "ts_wf u"
  shows "timespecsub_safe t u = Some (Some (timespecsub t u))"
  using assms
  by (auto simp: timespecsub_safe_def timespecsub_def ts_defs Let_def fits64_def)

lemma timespecadd_safe_cases:
  assumes "ts_wf t" "ts_wf u"
  obtains (fits) v where "timespecadd_safe t u = Some (Some v)" "ts_wf v"
      "nanos v = nanos t + nanos u" "nanos t + nanos u < (INT64_MAX + 1) * 1000000000"
    | (overflow) "timespecadd_safe t u = Some None"
      "nanos t + nanos u \<ge> (INT64_MAX + 1) * 1000000000"
proof (cases "tv_sec t + tv_sec u + (if tv_nsec t + tv_nsec u \<ge> 1000000000 then 1 else 0) \<le> INT64_MAX")
  case True
  let ?c = "tv_nsec t + tv_nsec u \<ge> 1000000000"
  let ?v = "\<lparr>tv_sec = tv_sec t + tv_sec u + (if ?c then 1 else 0),
             tv_nsec = tv_nsec t + tv_nsec u - (if ?c then 1000000000 else 0)\<rparr>"
  have "timespecadd_safe t u = Some (Some ?v)"
    using assms True by (auto simp: timespecadd_safe_def ts_defs Let_def fits64_def)
  moreover have "ts_wf ?v" "nanos ?v = nanos t + nanos u"
    "nanos t + nanos u < (INT64_MAX + 1) * 1000000000"
    using assms True by (auto simp: ts_defs split: if_splits)
  ultimately show ?thesis by (rule fits)
next
  case False
  have "timespecadd_safe t u = Some None"
    using assms False
    by (auto simp: timespecadd_safe_def ts_defs Let_def fits64_def split: if_splits)
  moreover have "nanos t + nanos u \<ge> (INT64_MAX + 1) * 1000000000"
    using assms False by (auto simp: ts_defs split: if_splits)
  ultimately show ?thesis by (rule overflow)
qed

section \<open>Clocks\<close>

definition clock_ok :: "'w platform \<Rightarrow> bool" where
  "clock_ok P \<longleftrightarrow> (\<forall>c w ts w'. sys_clock_gettime P c w = (Inr ts, w') \<longrightarrow> ts_wf ts)"

lemma clock_okD: "clock_ok P \<Longrightarrow> sys_clock_gettime P c w = (Inr ts, w') \<Longrightarrow> ts_wf ts"
  unfolding clock_ok_def by blast

lemma quiet_clock_ok [simp]: "clock_ok quiet_platform"
  by (simp add: clock_ok_def ts_defs)

end
