(* ===== verification/Timerfd_Ctx.thy ===== *)
theory Timerfd_Ctx
  imports Timespec
begin

text \<open>
  \<open>src/timerfd_ctx.c\<close>: the state of one timer descriptor and its operations. The clock, the
  boot time and the kqueue are calls of the platform; every operation threads the timer
  \<open>TimerFDCtx\<close> and the world. \<open>None\<close> is a failed assertion of the C code.

  The lemmas show that a well-formed timer stays well-formed under every operation, that the
  catch-up computation of a periodic timer agrees with integer arithmetic on nanoseconds, and
  what \<open>read\<close>, \<open>gettime\<close> and \<open>settime\<close> return.
\<close>

section \<open>State\<close>

datatype TimerType = TIMER_TYPE_UNSPECIFIED | TIMER_TYPE_RELATIVE | TIMER_TYPE_ABSOLUTE

record TimerFDCtx =
  is_abstime :: bool
  timer_clockid :: clockid
  timer_type :: TimerType
  is_cancel_on_set :: bool
  force_cancel :: bool
  monotonic_offset :: timespec
  current_itimerspec :: itimerspec
  nr_expirations :: "64 word"

definition timerfd_ctx_is_disarmed :: "TimerFDCtx \<Rightarrow> bool" where
  "timerfd_ctx_is_disarmed t \<longleftrightarrow>
     tv_sec (it_value (current_itimerspec t)) = 0 \<and> tv_nsec (it_value (current_itimerspec t)) = 0"

definition timerfd_ctx_is_interval_timer :: "TimerFDCtx \<Rightarrow> bool" where
  "timerfd_ctx_is_interval_timer t \<longleftrightarrow>
     tv_sec (it_interval (current_itimerspec t)) \<noteq> 0 \<or>
     tv_nsec (it_interval (current_itimerspec t)) \<noteq> 0"

definition timerfd_ctx_disarm :: "TimerFDCtx \<Rightarrow> TimerFDCtx" where
  "timerfd_ctx_disarm t =
     t\<lparr>current_itimerspec := (current_itimerspec t)\<lparr>it_value := ts_zero\<rparr>,
       timer_type := TIMER_TYPE_UNSPECIFIED\<rparr>"

section \<open>Conversions and clocks\<close>

definition ts_to_nanos :: "timespec \<Rightarrow> errno + int" where
  "ts_to_nanos ts =
     (case fits64 (tv_sec ts * 1000000000) of
        None \<Rightarrow> Inl EOVERFLOW
      | Some n \<Rightarrow> (case fits64 (n + tv_nsec ts) of None \<Rightarrow> Inl EOVERFLOW | Some m \<Rightarrow> Inr m))"

definition nanos_to_ts :: "int \<Rightarrow> timespec" where
  "nanos_to_ts n = \<lparr>tv_sec = n sdiv 1000000000, tv_nsec = n smod 1000000000\<rparr>"

definition timerfd_ctx_can_jump :: "TimerFDCtx \<Rightarrow> bool" where
  "timerfd_ctx_can_jump t \<longleftrightarrow>
     timer_clockid t = CLOCK_REALTIME \<and> timer_type t = TIMER_TYPE_ABSOLUTE"

definition timerfd_ctx_get_clocktime ::
  "'w platform \<Rightarrow> clockid \<Rightarrow> TimerType \<Rightarrow> 'w \<Rightarrow> ((errno + timespec) \<times> 'w) option" where
  "timerfd_ctx_get_clocktime P c ty w = do {
     c_assert (ty \<noteq> TIMER_TYPE_UNSPECIFIED);
     Some (sys_clock_gettime P
       (if c = CLOCK_REALTIME \<and> ty = TIMER_TYPE_RELATIVE then CLOCK_MONOTONIC else c) w)
   }"

definition timerfd_ctx_get_monotonic_offset ::
  "'w platform \<Rightarrow> 'w \<Rightarrow> (errno + timespec) \<times> 'w" where
  "timerfd_ctx_get_monotonic_offset P w =
     (if cfg_DragonFly P then sys_basetime P w
      else (case sys_boottime P w of
              (Inl e, w1) \<Rightarrow> (Inl e, w1)
            | (Inr (s, us), w1) \<Rightarrow> (Inr \<lparr>tv_sec = s, tv_nsec = us * 1000\<rparr>, w1)))"

section \<open>Programming the kernel timer\<close>

definition fits_kev_data :: "'w platform \<Rightarrow> int \<Rightarrow> bool" where
  "fits_kev_data P i = (if cfg_data32 P then in_int32 i else in_int64 i)"

text \<open>\<open>round_up_millis\<close> of the NetBSD build, on 32-bit unsigned values.\<close>

definition round_up_millis :: "'w platform \<Rightarrow> int \<Rightarrow> int option" where
  "round_up_millis P millis =
     (let ticks = cfg_CLK_TCK P
      in if ticks \<le> 0 then None
         else
           (let ms_per_tick = (word_of_int (1000 sdiv ticks + (if 1000 smod ticks \<noteq> 0 then 1 else 0)) :: 32 word);
                ms = (word_of_int millis :: 32 word);
                f1 = ms div ms_per_tick * ms_per_tick;
                f2 = (if f1 < ms then f1 + ms_per_tick else f1);
                f3 = f2 + ms_per_tick;
                f4 = (if f3 \<ge> 0x20000 \<and> f3 mod 1000 \<noteq> 0 then f3 + 1000 else f3)
            in Some (uint f4)))"

text \<open>The timeout in milliseconds, \<open>None\<close> where the C code leaves the kevent unset.\<close>

definition register_event_millis :: "'w platform \<Rightarrow> timespec \<Rightarrow> kevent option" where
  "register_event_millis P d =
     (if cfg_quirky_timer P \<and> tv_sec d \<ge> 4233600 then None
      else
        (let m0 = tv_sec d * 1000 + tv_nsec d sdiv 1000000;
             m1 = (if tv_nsec d smod 1000000 \<noteq> 0 then m0 + 1 else m0)
         in case (if cfg_quirky_timer P \<and> m1 \<noteq> 0 then round_up_millis P m1 else Some m1) of
              None \<Rightarrow> None
            | Some m2 \<Rightarrow>
                if fits_kev_data P m2
                then Some (EV_SET 0 EVFILT_TIMER (EV_ADD OR EV_ONESHOT OR EV_RECEIPT) 0 m2 None)
                else None))"

definition register_event_micros :: "'w platform \<Rightarrow> timespec \<Rightarrow> kevent option" where
  "register_event_micros P d =
     (let m0 = tv_sec d * 1000000 + tv_nsec d sdiv 1000;
          m1 = (if tv_nsec d smod 1000 \<noteq> 0 then m0 + 1 else m0)
      in if cfg_NOTE_USECONDS P \<and> fits_kev_data P m1
         then Some (EV_SET 0 EVFILT_TIMER (EV_ADD OR EV_ONESHOT OR EV_RECEIPT) NOTE_USECONDS m1 None)
         else None)"

definition register_event_kev :: "'w platform \<Rightarrow> timespec \<Rightarrow> kevent option" where
  "register_event_kev P d =
     (if tv_sec d \<ge> 315360000 then None
      else case (case register_event_micros P d of
                   Some k \<Rightarrow> Some k | None \<Rightarrow> register_event_millis P d) of
             None \<Rightarrow> None
           | Some k \<Rightarrow>
               Some (if cfg_quirk_timer_zero P \<and> kev_data k = 0 then k\<lparr>kev_data := 1\<rparr> else k))"

definition timerfd_ctx_register_event ::
  "'w platform \<Rightarrow> int \<Rightarrow> timespec \<Rightarrow> timespec \<Rightarrow> 'w \<Rightarrow> ((errno + unit) \<times> 'w) option" where
  "timerfd_ctx_register_event P kq new current_time w = do {
     c_assert (tv_sec new \<noteq> 0 \<or> tv_nsec new \<noteq> 0);
     d0 \<leftarrow> timespecsub_safe new current_time;
     let diff = (case d0 of None \<Rightarrow> ts_zero | Some d \<Rightarrow> if tv_sec d < 0 then ts_zero else d);
     let kev0 = EV_SET 0 EVFILT_TIMER (EV_DELETE OR EV_RECEIPT) 0 0 None;
     let kev1 = register_event_kev P diff;
     let kev = kev0 # (case kev1 of None \<Rightarrow> [] | Some k \<Rightarrow> [k]);
     case sys_kevent P kq kev (length kev) w of
       (Inl e, w1) \<Rightarrow> Some (Inl e, w1)
     | (Inr out, w1) \<Rightarrow> do {
         c_assert (length out = length kev);
         c_assert (has_bits (kev_flags (out ! 0)) EV_ERROR);
         if kev1 = None then Some (Inr (), w1)
         else do {
           c_assert (has_bits (kev_flags (out ! 1)) EV_ERROR);
           Some (if kev_data (out ! 1) = 0 then Inr () else Inl (kev_data (out ! 1)), w1)
         }
       }
   }"

definition timer_delete_kev :: "int \<Rightarrow> kevent" where
  "timer_delete_kev i = EV_SET i EVFILT_TIMER EV_DELETE 0 0 None"

definition timerfd_ctx_rearm_kevent ::
  "'w platform \<Rightarrow> TimerFDCtx \<Rightarrow> int \<Rightarrow> timespec \<Rightarrow> bool \<Rightarrow> 'w \<Rightarrow> (TimerFDCtx \<times> 'w) option" where
  "timerfd_ctx_rearm_kevent P t kq current_time need_kevent_delete_on_disarmed_timer w =
     (if \<not> timerfd_ctx_is_disarmed t then do {
        (r, w1) \<leftarrow> timerfd_ctx_register_event P kq (it_value (current_itimerspec t)) current_time w;
        Some (if r = Inr () then t else timerfd_ctx_disarm t, w1)
      }
      else if need_kevent_delete_on_disarmed_timer
      then Some (t, snd (sys_kevent P kq [timer_delete_kev 0] 0 w))
      else Some (t, w))"

section \<open>Steps of the real-time clock\<close>

definition cancel_kevs :: "'w platform \<Rightarrow> kevent list" where
  "cancel_kevs P =
     [EV_SET 1 EVFILT_TIMER (EV_DELETE OR EV_RECEIPT) 0 0 None,
      (if cfg_NOTE_USECONDS P
       then EV_SET 1 EVFILT_TIMER (EV_ADD OR EV_ONESHOT OR EV_RECEIPT) NOTE_USECONDS 0 None
       else EV_SET 1 EVFILT_TIMER (EV_ADD OR EV_ONESHOT OR EV_RECEIPT) 0
              (if cfg_quirk_timer_zero P then 1 else 0) None)]"

definition timerfd_ctx_realtime_change ::
  "'w platform \<Rightarrow> TimerFDCtx \<Rightarrow> int \<Rightarrow> 'w \<Rightarrow> (TimerFDCtx \<times> 'w) option" where
  "timerfd_ctx_realtime_change P t kq w =
     (if \<not> timerfd_ctx_can_jump t then Some (t, w)
      else case timerfd_ctx_get_monotonic_offset P w of
        (Inl e, w1) \<Rightarrow> Some (t, w1)
      | (Inr off, w1) \<Rightarrow>
          if monotonic_offset t = off then Some (t, w1)
          else
            (let t1 = t\<lparr>monotonic_offset := off\<rparr>
             in if \<not> is_cancel_on_set t1
                then (case sys_poll P [\<lparr>pfd_fd = kq, pfd_events = POLLIN, pfd_revents = 0\<rparr>] 0 w1 of
                   (Inl e, w2) \<Rightarrow> Some (t1, w2)
                 | (Inr (n, _), w2) \<Rightarrow>
                     if n \<noteq> 0 then Some (t1, w2)
                     else do {
                       (r, w3) \<leftarrow> timerfd_ctx_get_clocktime P (timer_clockid t1) (timer_type t1) w2;
                       case r of
                         Inl e \<Rightarrow> Some (t1, w3)
                       | Inr now \<Rightarrow> timerfd_ctx_rearm_kevent P t1 kq now True w3
                     })
                else Some (t1\<lparr>force_cancel := True\<rparr>, snd (sys_kevent P kq (cancel_kevs P) 2 w1))))"

definition timerfd_ctx_clear_force_cancel ::
  "'w platform \<Rightarrow> TimerFDCtx \<Rightarrow> int \<Rightarrow> 'w \<Rightarrow> TimerFDCtx \<times> 'w" where
  "timerfd_ctx_clear_force_cancel P t kq w =
     (t\<lparr>force_cancel := False\<rparr>,
      if force_cancel t then snd (sys_kevent P kq [timer_delete_kev 1] 0 w) else w)"

definition timerfd_ctx_check_for_cancel ::
  "'w platform \<Rightarrow> TimerFDCtx \<Rightarrow> int \<Rightarrow> 'w \<Rightarrow> bool \<times> TimerFDCtx \<times> 'w" where
  "timerfd_ctx_check_for_cancel P t kq w =
     (if timer_clockid t \<noteq> CLOCK_REALTIME then (False, t, w)
      else
        (let (is_stepped, t1, w1) =
           (if timerfd_ctx_can_jump t
            then (let (r, w1) = timerfd_ctx_get_monotonic_offset P w;
                      off = (case r of Inl e \<Rightarrow> monotonic_offset t | Inr off \<Rightarrow> off)
                  in (force_cancel t \<or> monotonic_offset t \<noteq> off, t\<lparr>monotonic_offset := off\<rparr>, w1))
            else (False, t, w));
             (t2, w2) = timerfd_ctx_clear_force_cancel P t1 kq w1
         in (is_stepped \<and> is_cancel_on_set t2, t2, w2)))"

section \<open>Catching up with the clock\<close>

text \<open>The expirations of a periodic timer and its next expiry; \<open>None\<close> is \<open>goto disarm\<close>.\<close>

definition interval_catch_up :: "itimerspec \<Rightarrow> timespec \<Rightarrow> (int \<times> timespec) option option" where
  "interval_catch_up its diff =
     (case ts_to_nanos diff of
        Inl _ \<Rightarrow> Some None
      | Inr diff_nanos \<Rightarrow>
          (case ts_to_nanos (it_interval its) of
             Inl _ \<Rightarrow> Some None
           | Inr interval_nanos \<Rightarrow>
               (let e = diff_nanos sdiv interval_nanos
                in if e = INT64_MAX then Some None
                   else case fits64 ((e + 1) * interval_nanos) of
                          None \<Rightarrow> Some None
                        | Some nanos_to_add \<Rightarrow> do {
                            r \<leftarrow> timespecadd_safe (nanos_to_ts nanos_to_add) (it_value its);
                            case r of
                              None \<Rightarrow> Some None
                            | Some next_ts \<Rightarrow> do { c_assert (e + 1 \<ge> 0); Some (Some (e + 1, next_ts)) }
                          })))"

definition timerfd_ctx_update_to_current_time ::
  "TimerFDCtx \<Rightarrow> timespec \<Rightarrow> TimerFDCtx option" where
  "timerfd_ctx_update_to_current_time t current_time =
     (let its = current_itimerspec t;
          finish = (\<lambda>t'. do { c_assert (timespeccmp_less current_time (it_value (current_itimerspec t'))); Some t' })
      in if timerfd_ctx_is_disarmed t then Some t
         else if timerfd_ctx_is_interval_timer t then do {
           d \<leftarrow> timespecsub_safe current_time (it_value its);
           case d of
             None \<Rightarrow> Some (timerfd_ctx_disarm t)
           | Some diff \<Rightarrow>
               if tv_sec diff \<ge> 0 then do {
                 r \<leftarrow> interval_catch_up its diff;
                 case r of
                   None \<Rightarrow> Some (timerfd_ctx_disarm t)
                 | Some (n, next_ts) \<Rightarrow>
                     finish (t\<lparr>nr_expirations := nr_expirations t + word_of_int n,
                               current_itimerspec := its\<lparr>it_value := next_ts\<rparr>\<rparr>)
               }
               else finish t
         }
         else if timespeccmp_geq current_time (it_value its)
         then Some (timerfd_ctx_disarm (t\<lparr>nr_expirations := nr_expirations t + 1\<rparr>))
         else finish t)"

section \<open>The operations of the descriptor\<close>

definition timerfd_ctx_init :: "clockid \<Rightarrow> TimerFDCtx" where
  "timerfd_ctx_init c =
     \<lparr>is_abstime = False, timer_clockid = c, timer_type = TIMER_TYPE_UNSPECIFIED,
      is_cancel_on_set = False, force_cancel = False, monotonic_offset = ts_zero,
      current_itimerspec = \<lparr>it_interval = ts_zero, it_value = ts_zero\<rparr>, nr_expirations = 0\<rparr>"

definition timerfd_ctx_gettime_impl ::
  "TimerFDCtx \<Rightarrow> timespec option \<Rightarrow> (itimerspec \<times> TimerFDCtx) option" where
  "timerfd_ctx_gettime_impl t current_time =
     (case current_time of
        None \<Rightarrow> Some (current_itimerspec t, t)
      | Some now \<Rightarrow> do {
          t1 \<leftarrow> timerfd_ctx_update_to_current_time t now;
          let cur = current_itimerspec t1;
          if timerfd_ctx_is_disarmed t1 then Some (cur, t1)
          else do {
            c_assert (timespeccmp_less now (it_value cur));
            Some (cur\<lparr>it_value := timespecsub (it_value cur) now\<rparr>, t1)
          }
        })"

definition timerfd_ctx_gettime ::
  "'w platform \<Rightarrow> TimerFDCtx \<Rightarrow> 'w \<Rightarrow> ((errno + itimerspec) \<times> TimerFDCtx \<times> 'w) option" where
  "timerfd_ctx_gettime P t w =
     (if timer_type t = TIMER_TYPE_UNSPECIFIED then do {
        (cur, t1) \<leftarrow> timerfd_ctx_gettime_impl t None;
        Some (Inr cur, t1, w)
      }
      else do {
        (r, w1) \<leftarrow> timerfd_ctx_get_clocktime P (timer_clockid t) (timer_type t) w;
        case r of
          Inl e \<Rightarrow> Some (Inl e, t, w1)
        | Inr now \<Rightarrow> do {
            (cur, t1) \<leftarrow> timerfd_ctx_gettime_impl t (Some now);
            Some (Inr cur, t1, w1)
          }
      })"

text \<open>
  The first half of \<open>timerfd_ctx_settime\<close>: the previous setting, if the caller asks for it.
  The result carries the current time if the code now has one.
\<close>

definition settime_old ::
  "'w platform \<Rightarrow> TimerFDCtx \<Rightarrow> bool \<Rightarrow> 'w \<Rightarrow>
   ((errno + timespec option \<times> itimerspec option) \<times> TimerFDCtx \<times> 'w) option" where
  "settime_old P t want_old w =
     (if \<not> want_old then Some (Inr (None, None), t, w)
      else if timer_type t = TIMER_TYPE_UNSPECIFIED then do {
        (old, t1) \<leftarrow> timerfd_ctx_gettime_impl t None;
        Some (Inr (None, Some old), t1, w)
      }
      else do {
        (r, w1) \<leftarrow> timerfd_ctx_get_clocktime P (timer_clockid t) (timer_type t) w;
        case r of
          Inl e \<Rightarrow> Some (Inl e, t, w1)
        | Inr now \<Rightarrow> do {
            (old, t1) \<leftarrow> timerfd_ctx_gettime_impl t (Some now);
            Some (Inr (Some now, Some old), t1, w1)
          }
      })"

text \<open>The absolute expiry of a new setting: \<open>Some None\<close> is the overflow that returns EINVAL.\<close>

definition settime_new_absolute ::
  "bool \<Rightarrow> itimerspec \<Rightarrow> timespec \<Rightarrow> itimerspec option option" where
  "settime_new_absolute abstime new current_time =
     (if abstime then Some (Some new)
      else do {
        r \<leftarrow> timespecadd_safe current_time (it_value new);
        Some (map_option (\<lambda>v. \<lparr>it_interval = it_interval new, it_value = v\<rparr>) r)
      })"

text \<open>Arming: the \<open>else\<close> branch of \<open>timerfd_ctx_settime\<close>.\<close>

definition settime_arm ::
  "'w platform \<Rightarrow> TimerFDCtx \<Rightarrow> int \<Rightarrow> bool \<Rightarrow> bool \<Rightarrow> itimerspec \<Rightarrow> timespec option \<Rightarrow> 'w \<Rightarrow>
   ((errno + unit) \<times> TimerFDCtx \<times> 'w) option" where
  "settime_arm P t kq abstime cancel_on_set new known_time w =
     (let new_timer_type = (if abstime then TIMER_TYPE_ABSOLUTE else TIMER_TYPE_RELATIVE)
      in do {
        (r, w1) \<leftarrow> (case known_time of
           Some now \<Rightarrow>
             if timer_type t \<noteq> new_timer_type
             then timerfd_ctx_get_clocktime P (timer_clockid t) new_timer_type w
             else Some (Inr now, w)
         | None \<Rightarrow> timerfd_ctx_get_clocktime P (timer_clockid t) new_timer_type w);
        case r of
          Inl e \<Rightarrow> Some (Inl e, t, w1)
        | Inr now \<Rightarrow> do {
            na \<leftarrow> settime_new_absolute abstime new now;
            case na of
              None \<Rightarrow> Some (Inl EINVAL, t, w1)
            | Some new_absolute \<Rightarrow> do {
                (rr, w2) \<leftarrow> timerfd_ctx_register_event P kq (it_value new_absolute) now w1;
                case rr of
                  Inl e \<Rightarrow> Some (Inl e, t, w2)
                | Inr _ \<Rightarrow>
                    Some (Inr (),
                      t\<lparr>current_itimerspec := new_absolute, timer_type := new_timer_type,
                        is_cancel_on_set := cancel_on_set \<and> timer_clockid t = CLOCK_REALTIME \<and>
                          new_timer_type = TIMER_TYPE_ABSOLUTE,
                        is_abstime := (new_timer_type = TIMER_TYPE_ABSOLUTE)\<rparr>, w2)
              }
          }
      })"

definition settime_disarm ::
  "'w platform \<Rightarrow> TimerFDCtx \<Rightarrow> int \<Rightarrow> 'w \<Rightarrow> TimerFDCtx \<times> 'w" where
  "settime_disarm P t kq w =
     ((timerfd_ctx_disarm t)\<lparr>is_cancel_on_set := False, is_abstime := False\<rparr>,
      snd (sys_kevent P kq [timer_delete_kev 0] 0 w))"

definition timerfd_ctx_settime ::
  "'w platform \<Rightarrow> TimerFDCtx \<Rightarrow> int \<Rightarrow> bool \<Rightarrow> bool \<Rightarrow> itimerspec \<Rightarrow> bool \<Rightarrow> 'w \<Rightarrow>
   ((errno + unit) \<times> itimerspec option \<times> TimerFDCtx \<times> 'w) option" where
  "timerfd_ctx_settime P t kq abstime cancel_on_set new want_old w =
     (if \<not> itimerspec_is_valid new then Some (Inl EINVAL, None, t, w)
      else do {
        (r0, t0, w0) \<leftarrow> settime_old P t want_old w;
        case r0 of
          Inl e \<Rightarrow> Some (Inl e, None, t0, w0)
        | Inr (known_time, old) \<Rightarrow> do {
            (r1, t1, w1) \<leftarrow>
              (if tv_sec (it_value new) = 0 \<and> tv_nsec (it_value new) = 0
               then Some (Inr (), settime_disarm P t0 kq w0)
               else settime_arm P t0 kq abstime cancel_on_set new known_time w0);
            case r1 of
              Inl e \<Rightarrow> Some (Inl e, old, t1, w1)
            | Inr _ \<Rightarrow>
                (let (cancelled, t2, w2) = timerfd_ctx_check_for_cancel P (t1\<lparr>nr_expirations := 0\<rparr>) kq w1
                 in Some (if cancelled \<and> is_cancel_on_set t then Inl ECANCELED else Inr (), old, t2, w2))
          }
      })"

text \<open>
  The identity of the delivered timer event: 0 is the timer, 1 the cancellation; with several
  events 0 wins. \<open>None\<close> is \<open>got_kevent = false\<close>.
\<close>

fun read_event_ident :: "kevent list \<Rightarrow> int option \<Rightarrow> int option" where
  "read_event_ident [] got = got"
| "read_event_ident (k # ks) got =
     read_event_ident ks
       (case got of
          None \<Rightarrow> Some (kev_ident k)
        | Some i \<Rightarrow> Some (if kev_ident k = 0 then 0 else i))"

text \<open>
  The part of \<open>timerfd_ctx_read\<close> after the cancellation check for a timer that is not
  cancelled: catch up, take the count, and decide what a fired event without an expiration
  means. The result is the cancellation flag, the count and the timer.
\<close>

definition read_expirations ::
  "TimerFDCtx \<Rightarrow> timespec \<Rightarrow> int option \<Rightarrow> ((errno + bool \<times> 64 word) \<times> TimerFDCtx) option" where
  "read_expirations t now got = do {
     t1 \<leftarrow> timerfd_ctx_update_to_current_time t now;
     let n = nr_expirations t1;
     let t2 = t1\<lparr>nr_expirations := 0\<rparr>;
     if n \<noteq> 0 then Some (Inr (False, n), t2)
     else case got of
       None \<Rightarrow> Some (Inl EAGAIN, t2)
     | Some i \<Rightarrow> do {
         c_assert (i = 0);
         c_assert (timerfd_ctx_can_jump t2);
         if is_cancel_on_set t2 then Some (Inr (True, 0), t2)
         else if \<not> timerfd_ctx_is_interval_timer t2
         then Some (Inr (False, 1), timerfd_ctx_disarm t2)
         else Some (Inr (False, 0), t2)
       }
   }"

definition read_finish ::
  "'w platform \<Rightarrow> TimerFDCtx \<Rightarrow> int \<Rightarrow> timespec \<Rightarrow> int option \<Rightarrow> bool \<Rightarrow> 64 word \<Rightarrow> 'w \<Rightarrow>
   ((errno + 64 word) \<times> TimerFDCtx \<times> 'w) option" where
  "read_finish P t kq now got is_cancelled n w = do {
     c_assert (is_cancelled \<or> n > 0 \<or>
       (timerfd_ctx_can_jump t \<and> timerfd_ctx_is_interval_timer t \<and> \<not> is_cancel_on_set t));
     (t1, w1) \<leftarrow> timerfd_ctx_rearm_kevent P t kq now (got = None \<or> got \<noteq> Some 0) w;
     Some (if is_cancelled then Inl ECANCELED else Inr n, t1, w1)
   }"

definition timerfd_ctx_read ::
  "'w platform \<Rightarrow> TimerFDCtx \<Rightarrow> int \<Rightarrow> 'w \<Rightarrow> ((errno + 64 word) \<times> TimerFDCtx \<times> 'w) option" where
  "timerfd_ctx_read P t kq w =
     (if timer_type t = TIMER_TYPE_UNSPECIFIED then Some (Inl EAGAIN, t, w)
      else case sys_kevent P kq [] 3 w of
        (Inl e, w1) \<Rightarrow> Some (Inl e, t, w1)
      | (Inr kevs, w1) \<Rightarrow> do {
          c_assert (\<forall>k \<in> set kevs. kev_filter k = EVFILT_TIMER);
          let got = read_event_ident kevs None;
          let (is_cancelled, t1, w2) = timerfd_ctx_check_for_cancel P t kq w1;
          if is_cancelled \<and> got = Some 0 then Some (Inl ECANCELED, t1, w2)
          else do {
            (r, w3) \<leftarrow> timerfd_ctx_get_clocktime P (timer_clockid t1) (timer_type t1) w2;
            case r of
              Inl e \<Rightarrow> Some (Inl (if is_cancelled then ECANCELED else e), t1, w3)
            | Inr now \<Rightarrow>
                if is_cancelled then read_finish P t1 kq now got True 0 w3
                else do {
                  (rr, t2) \<leftarrow> read_expirations t1 now got;
                  case rr of
                    Inl e \<Rightarrow> Some (Inl e, t2, w3)
                  | Inr (cancelled, n) \<Rightarrow> read_finish P t2 kq now got cancelled n w3
                }
          }
        })"

definition timerfd_ctx_poll ::
  "'w platform \<Rightarrow> TimerFDCtx \<Rightarrow> int \<Rightarrow> 32 word option \<Rightarrow> 'w \<Rightarrow>
   (32 word option \<times> TimerFDCtx \<times> 'w) option" where
  "timerfd_ctx_poll P t kq revents w =
     (case revents of
        Some _ \<Rightarrow> Some (Some EPOLLIN, t, w)
      | None \<Rightarrow> do {
          (t1, w1) \<leftarrow> timerfd_ctx_realtime_change P t kq w;
          Some (None, t1, w1)
        })"

section \<open>Conversions are exact\<close>

lemma ts_to_nanos_valid:
  "timespec_is_valid ts \<Longrightarrow>
   ts_to_nanos ts = (if nanos ts \<le> INT64_MAX then Inr (nanos ts) else Inl EOVERFLOW)"
  by (auto simp: ts_to_nanos_def ts_defs fits64_def)

lemma nanos_to_ts_spec:
  assumes "0 \<le> n" "n \<le> INT64_MAX"
  shows "ts_wf (nanos_to_ts n)" and "nanos (nanos_to_ts n) = n"
proof -
  have "0 \<le> n div 1000000000" "n div 1000000000 \<le> n"
    using assms(1) by linarith+
  then show "ts_wf (nanos_to_ts n)"
    using assms by (simp add: nanos_to_ts_def ts_defs)
  show "nanos (nanos_to_ts n) = n"
    using assms by (simp add: nanos_to_ts_def nanos_def)
qed

definition catch_up_count :: "itimerspec \<Rightarrow> timespec \<Rightarrow> int" where
  "catch_up_count its diff = nanos diff div nanos (it_interval its) + 1"

lemma catch_up_count_bounds:
  assumes "0 < nanos (it_interval its)" "timespec_is_valid diff"
  shows "0 < catch_up_count its diff"
    and "catch_up_count its diff * nanos (it_interval its) \<le> nanos diff + nanos (it_interval its)"
    and "nanos diff < catch_up_count its diff * nanos (it_interval its)"
    and "catch_up_count its diff \<le> catch_up_count its diff * nanos (it_interval its)"
proof -
  let ?i = "nanos (it_interval its)"
  have div: "nanos diff div ?i * ?i = nanos diff - nanos diff mod ?i"
    by (simp add: minus_mod_eq_div_mult)
  show pos: "0 < catch_up_count its diff"
    using assms by (simp add: catch_up_count_def nanos_nonneg pos_imp_zdiv_nonneg_iff add_nonneg_pos)
  show "catch_up_count its diff * ?i \<le> nanos diff + ?i" "nanos diff < catch_up_count its diff * ?i"
    using pos_mod_sign [OF assms(1), of "nanos diff"] pos_mod_bound [OF assms(1), of "nanos diff"]
    by (simp_all add: catch_up_count_def distrib_right div)
  show "catch_up_count its diff \<le> catch_up_count its diff * ?i"
    using pos assms(1) by simp
qed

lemma interval_catch_up_eq:
  assumes "ts_wf (it_interval its)" "0 < nanos (it_interval its)" "timespec_is_valid diff"
  defines "k \<equiv> catch_up_count its diff" and "i \<equiv> nanos (it_interval its)"
  shows "interval_catch_up its diff =
    (if nanos diff \<le> INT64_MAX \<and> i \<le> INT64_MAX \<and> k \<noteq> INT64_MAX + 1 \<and> k * i \<le> INT64_MAX
     then map_option (map_option (Pair k)) (timespecadd_safe (nanos_to_ts (k * i)) (it_value its))
     else Some None)"
proof (cases "nanos diff \<le> INT64_MAX \<and> i \<le> INT64_MAX")
  case True
  have k: "0 < k" "k = nanos diff div i + 1"
    using catch_up_count_bounds(1) [OF assms(2,3)] by (simp_all add: k_def i_def catch_up_count_def)
  have "in_int64 (k * i) \<longleftrightarrow> k * i \<le> INT64_MAX"
    using k(1) assms(2) by (auto simp: i_def in_int64_def INT64_MIN_def intro: order_trans [of _ 0])
  then show ?thesis
    using True assms(1-3) nanos_nonneg [OF assms(3)] k
    by (auto simp: interval_catch_up_def ts_to_nanos_valid i_def Let_def fits64_def
      split: option.splits bind_splits)
next
  case False
  then show ?thesis
    using assms(1,3) by (auto simp: interval_catch_up_def ts_to_nanos_valid i_def)
qed

lemma interval_catch_up_cases:
  assumes "ts_wf (it_value its)" "ts_wf (it_interval its)" "0 < nanos (it_interval its)"
    and "timespec_is_valid diff"
  obtains (disarm) "interval_catch_up its diff = Some None"
      "INT64_MAX < nanos (it_value its) + nanos diff + nanos (it_interval its)"
    | (advance) next_ts where "interval_catch_up its diff = Some (Some (catch_up_count its diff, next_ts))"
      "ts_wf next_ts"
      "nanos next_ts = nanos (it_value its) + catch_up_count its diff * nanos (it_interval its)"
proof -
  let ?k = "catch_up_count its diff" and ?i = "nanos (it_interval its)"
  note k = catch_up_count_bounds [OF assms(3,4)]
  note eq = interval_catch_up_eq [OF assms(2-4)]
  have v0: "0 \<le> nanos (it_value its)" "0 \<le> nanos diff"
    using assms(1,4) by (simp_all add: nanos_nonneg)
  show ?thesis
  proof (cases "?k * ?i \<le> INT64_MAX")
    case True
    then have wf: "ts_wf (nanos_to_ts (?k * ?i))" "nanos (nanos_to_ts (?k * ?i)) = ?k * ?i"
      using k(1) assms(3) by (simp_all add: nanos_to_ts_spec)
    have "nanos diff \<le> INT64_MAX" "?i \<le> ?k * ?i" "?k \<noteq> INT64_MAX + 1"
      using True k(1,3) order_trans [OF k(4) True] assms(3) by simp_all
    with True have eq': "interval_catch_up its diff =
        map_option (map_option (Pair ?k)) (timespecadd_safe (nanos_to_ts (?k * ?i)) (it_value its))"
      by (simp add: eq)
    show ?thesis
    proof (cases rule: timespecadd_safe_cases [OF wf(1) assms(1)])
      case (1 v)
      then show ?thesis using wf(2) eq' by (intro advance [of v]) simp_all
    next
      case 2
      then show ?thesis using wf(2) eq' k(2) by (intro disarm) (simp_all add: int_limits)
    qed
  next
    case False
    then show ?thesis using k(2) v0 eq by (intro disarm) simp_all
  qed
qed

section \<open>Well-formed timers\<close>

definition timer_wf :: "TimerFDCtx \<Rightarrow> bool" where
  "timer_wf t \<longleftrightarrow>
     ts_wf (it_value (current_itimerspec t)) \<and> ts_wf (it_interval (current_itimerspec t)) \<and>
     (timer_type t = TIMER_TYPE_UNSPECIFIED \<longleftrightarrow> timerfd_ctx_is_disarmed t) \<and>
     (timer_type t = TIMER_TYPE_ABSOLUTE \<longrightarrow> is_abstime t) \<and>
     (timer_type t = TIMER_TYPE_RELATIVE \<longrightarrow> \<not> is_abstime t) \<and>
     (is_cancel_on_set t \<longrightarrow> timer_clockid t = CLOCK_REALTIME)"

text \<open>The fields an operation on the expiry leaves alone.\<close>

definition same_setup :: "TimerFDCtx \<Rightarrow> TimerFDCtx \<Rightarrow> bool" where
  "same_setup t t' \<longleftrightarrow>
     is_abstime t' = is_abstime t \<and> timer_clockid t' = timer_clockid t \<and>
     is_cancel_on_set t' = is_cancel_on_set t \<and>
     it_interval (current_itimerspec t') = it_interval (current_itimerspec t)"

lemma same_setup_refl [simp]: "same_setup t t"
  by (simp add: same_setup_def)

lemma same_setup_trans: "same_setup t u \<Longrightarrow> same_setup u v \<Longrightarrow> same_setup t v"
  by (simp add: same_setup_def)

lemma disarm_simps [simp]:
  "timerfd_ctx_is_disarmed (timerfd_ctx_disarm t)"
  "timer_type (timerfd_ctx_disarm t) = TIMER_TYPE_UNSPECIFIED"
  "nr_expirations (timerfd_ctx_disarm t) = nr_expirations t"
  "same_setup t (timerfd_ctx_disarm u) = same_setup t u"
  by (simp_all add: timerfd_ctx_is_disarmed_def timerfd_ctx_disarm_def same_setup_def)

lemma timer_wf_disarm [simp]: "timer_wf t \<Longrightarrow> timer_wf (timerfd_ctx_disarm t)"
  by (simp add: timer_wf_def timerfd_ctx_disarm_def timerfd_ctx_is_disarmed_def ts_defs)

lemma timer_wf_init [simp]: "timer_wf (timerfd_ctx_init c)"
  by (simp add: timer_wf_def timerfd_ctx_init_def timerfd_ctx_is_disarmed_def ts_defs)

lemma timer_wf_updates [simp]:
  "timer_wf (t\<lparr>nr_expirations := n\<rparr>) = timer_wf t"
  "timer_wf (t\<lparr>force_cancel := b\<rparr>) = timer_wf t"
  "timer_wf (t\<lparr>monotonic_offset := off\<rparr>) = timer_wf t"
  "same_setup t (u\<lparr>nr_expirations := n\<rparr>) = same_setup t u"
  "same_setup t (u\<lparr>force_cancel := b\<rparr>) = same_setup t u"
  "same_setup t (u\<lparr>monotonic_offset := off\<rparr>) = same_setup t u"
  by (simp_all add: timer_wf_def timerfd_ctx_is_disarmed_def same_setup_def)

abbreviation expiry :: "TimerFDCtx \<Rightarrow> int" where
  "expiry t \<equiv> nanos (it_value (current_itimerspec t))"

abbreviation period :: "TimerFDCtx \<Rightarrow> int" where
  "period t \<equiv> nanos (it_interval (current_itimerspec t))"

lemma timer_wf_ts:
  "timer_wf t \<Longrightarrow> ts_wf (it_value (current_itimerspec t))"
  "timer_wf t \<Longrightarrow> ts_wf (it_interval (current_itimerspec t))"
  by (simp_all add: timer_wf_def)

lemma timer_wf_type: "timer_wf t \<Longrightarrow> timer_type t = TIMER_TYPE_UNSPECIFIED \<longleftrightarrow> timerfd_ctx_is_disarmed t"
  by (simp add: timer_wf_def)

lemma disarmed_expiry: "timer_wf t \<Longrightarrow> timerfd_ctx_is_disarmed t \<longleftrightarrow> expiry t = 0"
  using nanos_zero_iff [of "it_value (current_itimerspec t)"]
  by (auto simp: timer_wf_def timerfd_ctx_is_disarmed_def)

lemma interval_period: "timer_wf t \<Longrightarrow> timerfd_ctx_is_interval_timer t \<longleftrightarrow> 0 < period t"
  using nanos_zero_iff [of "it_interval (current_itimerspec t)"]
    nanos_nonneg [of "it_interval (current_itimerspec t)"]
  by (auto simp: timer_wf_def timerfd_ctx_is_interval_timer_def)

lemma expiry_nonneg: "timer_wf t \<Longrightarrow> 0 \<le> expiry t"
  by (simp add: timer_wf_def nanos_nonneg)

text \<open>
  What \<open>timerfd_ctx_update_to_current_time\<close> does on an armed timer, in integer arithmetic: the
  reference \<open>elapsed t now\<close> is the number of expirations up to and including \<open>now\<close>.
\<close>

definition elapsed :: "TimerFDCtx \<Rightarrow> timespec \<Rightarrow> int" where
  "elapsed t now =
     (if timerfd_ctx_is_disarmed t \<or> nanos now < expiry t then 0
      else if period t = 0 then 1
      else (nanos now - expiry t) div period t + 1)"

lemma update_idle:
  assumes "timer_wf t" "ts_wf now" "timerfd_ctx_is_disarmed t \<or> nanos now < expiry t"
  shows "timerfd_ctx_update_to_current_time t now = Some t"
proof (cases "timerfd_ctx_is_disarmed t")
  case False
  then have "nanos now < expiry t" using assms(3) by simp
  moreover have "\<not> 0 \<le> tv_sec (timespecsub now (it_value (current_itimerspec t)))"
    using calculation timespecsub_sign assms by (simp add: timer_wf_ts)
  ultimately show ?thesis
    using False assms timer_wf_ts [OF assms(1)]
    by (simp add: timerfd_ctx_update_to_current_time_def Let_def timespecsub_safe_eq
        timespeccmp_less_nanos timespeccmp_geq_nanos)
qed (simp add: timerfd_ctx_update_to_current_time_def)

lemma update_oneshot:
  assumes "timer_wf t" "ts_wf now" "\<not> timerfd_ctx_is_disarmed t" "period t = 0" "expiry t \<le> nanos now"
  shows "timerfd_ctx_update_to_current_time t now =
    Some (timerfd_ctx_disarm (t\<lparr>nr_expirations := nr_expirations t + 1\<rparr>))"
  using assms timer_wf_ts [OF assms(1)] interval_period [OF assms(1)]
  by (simp add: timerfd_ctx_update_to_current_time_def Let_def timespeccmp_geq_nanos)

lemma update_interval_step:
  assumes wf: "timer_wf t" and now: "ts_wf now" and armed: "\<not> timerfd_ctx_is_disarmed t"
    and pp: "0 < period t" and due: "expiry t \<le> nanos now"
  defines "diff \<equiv> timespecsub now (it_value (current_itimerspec t))"
  shows "timerfd_ctx_update_to_current_time t now =
    (case interval_catch_up (current_itimerspec t) diff of
       None \<Rightarrow> None
     | Some None \<Rightarrow> Some (timerfd_ctx_disarm t)
     | Some (Some (n, next_ts)) \<Rightarrow>
         (if timespeccmp_less now next_ts
          then Some (t\<lparr>nr_expirations := nr_expirations t + word_of_int n,
                 current_itimerspec := (current_itimerspec t)\<lparr>it_value := next_ts\<rparr>\<rparr>)
          else None))"
  using armed timer_wf_ts [OF wf] now interval_period [OF wf] pp
    timespecsub_sign [of now "it_value (current_itimerspec t)"] due
  by (auto simp: timerfd_ctx_update_to_current_time_def Let_def timespecsub_safe_eq diff_def
      c_assert_def split: option.splits)

lemma update_periodic:
  assumes wf: "timer_wf t" and now: "ts_wf now" and armed: "\<not> timerfd_ctx_is_disarmed t"
    and pp: "0 < period t" and due: "expiry t \<le> nanos now"
  obtains (overflow) "timerfd_ctx_update_to_current_time t now = Some (timerfd_ctx_disarm t)"
      "INT64_MAX < nanos now + period t"
    | (periodic) t' where "timerfd_ctx_update_to_current_time t now = Some t'" "timer_wf t'"
      "same_setup t t'" "timer_type t' = timer_type t"
      "nr_expirations t' = nr_expirations t + word_of_int (elapsed t now)"
      "expiry t' = expiry t + elapsed t now * period t"
      "nanos now < expiry t'" "expiry t' \<le> nanos now + period t" "0 < elapsed t now"
proof -
  let ?its = "current_itimerspec t"
  let ?diff = "timespecsub now (it_value ?its)"
  note ts = timer_wf_ts [OF wf]
  have valid: "timespec_is_valid ?diff"
    using ts_wf_timespecsub [OF now ts(1) due] by simp
  have el: "elapsed t now = catch_up_count ?its ?diff"
    using armed due pp by (simp add: elapsed_def catch_up_count_def)
  note k = catch_up_count_bounds [OF pp valid, folded el]
  note step = update_interval_step [OF wf now armed pp due]
  show ?thesis
  proof (cases rule: interval_catch_up_cases [OF ts pp valid])
    case 1
    then show ?thesis by (intro overflow) (simp_all add: step)
  next
    case (2 next_ts)
    let ?t = "t\<lparr>nr_expirations := nr_expirations t + word_of_int (elapsed t now),
        current_itimerspec := ?its\<lparr>it_value := next_ts\<rparr>\<rparr>"
    have later: "nanos now < nanos next_ts" "nanos next_ts \<le> nanos now + period t"
      using k(2,3) 2(3) by (simp_all add: el)
    then have "\<not> timerfd_ctx_is_disarmed ?t"
      using nanos_zero_iff [of next_ts] 2(2) nanos_nonneg [of now] now
      by (auto simp: timerfd_ctx_is_disarmed_def)
    then have "timer_wf ?t" "same_setup t ?t"
      using wf armed 2(2) by (simp_all add: timer_wf_def same_setup_def)
    then show ?thesis
      using later 2 now k(1) by (intro periodic [of ?t]) (simp_all add: step el timespeccmp_less_nanos)
  qed
qed

text \<open>Whatever the clock says, catching up never fails an assertion.\<close>

lemma update_to_current_time_wf:
  assumes "timer_wf t" "ts_wf now"
  obtains t' where "timerfd_ctx_update_to_current_time t now = Some t'" "timer_wf t'" "same_setup t t'"
    "timerfd_ctx_is_disarmed t' \<or> nanos now < expiry t' \<and> timer_type t' = timer_type t"
proof (cases "timerfd_ctx_is_disarmed t \<or> nanos now < expiry t")
  case True
  then show ?thesis using update_idle [OF assms True] assms(1) that by auto
next
  case False
  then have d: "\<not> timerfd_ctx_is_disarmed t" "expiry t \<le> nanos now" by auto
  show ?thesis
  proof (cases "0 < period t")
    case True
    show ?thesis
      by (cases rule: update_periodic [OF assms d(1) True d(2)]) (auto intro: that simp: assms(1))
  next
    case False
    then have "period t = 0" using nanos_nonneg timer_wf_ts(2) [OF assms(1)] by (metis not_le order_antisym ts_wf_valid)
    then show ?thesis
      using update_oneshot [OF assms d(1) _ d(2)] assms(1) by (auto intro!: that)
  qed
qed

section \<open>Every operation keeps a timer well-formed\<close>

lemma register_event_total:
  assumes "kevent_receipts P" "ts_wf new" "ts_wf now" "nanos new \<noteq> 0"
  obtains r w' where "timerfd_ctx_register_event P kq new now w = Some (r, w')"
proof -
  have nz: "tv_sec new \<noteq> 0 \<or> tv_nsec new \<noteq> 0" using assms(4) by (auto simp: nanos_def)
  let ?d = "timespecsub new now"
  let ?diff = "if tv_sec ?d < 0 then ts_zero else ?d"
  let ?kev = "EV_SET 0 EVFILT_TIMER (EV_DELETE OR EV_RECEIPT) 0 0 None #
    (case register_event_kev P ?diff of None \<Rightarrow> [] | Some k \<Rightarrow> [k])"
  have receipt: "\<And>k. k \<in> set ?kev \<Longrightarrow> has_bits (kev_flags k) EV_RECEIPT"
    by (auto simp: register_event_kev_def register_event_micros_def register_event_millis_def
        has_bits_def Let_def split: option.splits if_splits)
  show ?thesis
  proof (cases "sys_kevent P kq ?kev (length ?kev) w")
    case (Pair r w1)
    show ?thesis
    proof (cases r)
      case (Inl e)
      then show ?thesis
        using Pair nz assms that by (auto simp: timerfd_ctx_register_event_def timespecsub_safe_eq)
    next
      case (Inr out)
      note rc = kevent_receiptsD [OF assms(1) Pair [unfolded Inr] receipt]
      show ?thesis
        using Pair nz assms that rc(1) rc(2) [of 0] rc(2) [of 1] Inr
        by (auto simp: timerfd_ctx_register_event_def timespecsub_safe_eq split: option.splits)
    qed
  qed
qed

lemma rearm_kevent_wf:
  assumes "kevent_receipts P" "timer_wf t" "ts_wf now"
  obtains t' w' where "timerfd_ctx_rearm_kevent P t kq now del w = Some (t', w')"
    "t' = t \<or> t' = timerfd_ctx_disarm t"
proof (cases "timerfd_ctx_is_disarmed t")
  case False
  then have "nanos (it_value (current_itimerspec t)) \<noteq> 0"
    using disarmed_expiry [OF assms(2)] by simp
  then obtain r w' where
    "timerfd_ctx_register_event P kq (it_value (current_itimerspec t)) now w = Some (r, w')"
    using register_event_total [OF assms(1) timer_wf_ts(1) [OF assms(2)] assms(3)] by blast
  then show ?thesis using that False by (auto simp: timerfd_ctx_rearm_kevent_def)
next
  case True
  then show ?thesis
    by (intro that [of t "if del then snd (sys_kevent P kq [timer_delete_kev 0] 0 w) else w"])
      (simp_all add: timerfd_ctx_rearm_kevent_def)
qed

lemma get_clocktime_cases:
  assumes "clock_ok P" "ty \<noteq> TIMER_TYPE_UNSPECIFIED"
  obtains (err) e w' where "timerfd_ctx_get_clocktime P c ty w = Some (Inl e, w')"
    | (ok) now w' where "timerfd_ctx_get_clocktime P c ty w = Some (Inr now, w')" "ts_wf now"
proof -
  let ?c = "if c = CLOCK_REALTIME \<and> ty = TIMER_TYPE_RELATIVE then CLOCK_MONOTONIC else c"
  obtain r w' where rw: "sys_clock_gettime P ?c w = (r, w')" by fastforce
  show ?thesis
    using assms rw err ok clock_okD [OF assms(1)]
    by (cases r) (auto simp: timerfd_ctx_get_clocktime_def)
qed

lemma gettime_impl_total:
  assumes "timer_wf t" "ts_wf now"
  obtains cur t' where "timerfd_ctx_gettime_impl t (Some now) = Some (cur, t')" "timer_wf t'"
    "same_setup t t'" "timerfd_ctx_update_to_current_time t now = Some t'"
    "it_interval cur = it_interval (current_itimerspec t)"
    "nanos (it_value cur) = (if timerfd_ctx_is_disarmed t' then 0 else expiry t' - nanos now)"
proof -
  obtain t' where t': "timerfd_ctx_update_to_current_time t now = Some t'" "timer_wf t'"
    "same_setup t t'" "timerfd_ctx_is_disarmed t' \<or> nanos now < expiry t' \<and> timer_type t' = timer_type t"
    by (rule update_to_current_time_wf [OF assms])
  have "timespeccmp_less now (it_value (current_itimerspec t')) \<longleftrightarrow> nanos now < expiry t'"
    using assms(2) timer_wf_ts(1) [OF t'(2)] by (simp add: timespeccmp_less_nanos)
  moreover have "it_interval (current_itimerspec t') = it_interval (current_itimerspec t)"
    using t'(3) by (simp add: same_setup_def)
  ultimately show ?thesis
    using t' disarmed_expiry [OF t'(2)]
    by (intro that [of "if timerfd_ctx_is_disarmed t' then current_itimerspec t'
          else (current_itimerspec t')\<lparr>it_value :=
            timespecsub (it_value (current_itimerspec t')) now\<rparr>" t'])
      (auto simp: timerfd_ctx_gettime_impl_def Let_def)
qed

lemma check_for_cancel_same:
  assumes "timerfd_ctx_check_for_cancel P t kq w = (c, t', w')"
  shows "timer_wf t' = timer_wf t" "same_setup t t'" "timer_type t' = timer_type t"
    "current_itimerspec t' = current_itimerspec t" "nr_expirations t' = nr_expirations t"
    "timer_clockid t' = timer_clockid t" "is_cancel_on_set t' = is_cancel_on_set t"
    "c \<Longrightarrow> timerfd_ctx_can_jump t \<and> is_cancel_on_set t"
  using assms
  by (auto simp: timerfd_ctx_check_for_cancel_def timerfd_ctx_clear_force_cancel_def Let_def
      split: prod.splits if_splits)

lemma check_for_cancel_monotonic [simp]:
  "timer_clockid t \<noteq> CLOCK_REALTIME \<Longrightarrow> timerfd_ctx_check_for_cancel P t kq w = (False, t, w)"
  by (simp add: timerfd_ctx_check_for_cancel_def)

lemma gettime_total:
  assumes "clock_ok P" "timer_wf t"
  obtains r t' w' where "timerfd_ctx_gettime P t w = Some (r, t', w')" "timer_wf t'" "same_setup t t'"
proof (cases "timer_type t = TIMER_TYPE_UNSPECIFIED")
  case True
  then show ?thesis using assms(2) that
    by (auto simp: timerfd_ctx_gettime_def timerfd_ctx_gettime_impl_def)
next
  case False
  show ?thesis
  proof (cases rule: get_clocktime_cases [OF assms(1) False, where c = "timer_clockid t" and w = w])
    case 1
    then show ?thesis using False assms(2) that by (auto simp: timerfd_ctx_gettime_def)
  next
    case (2 now w')
    then show ?thesis using False that
      by (auto simp: timerfd_ctx_gettime_def intro: gettime_impl_total [OF assms(2) 2(2)])
  qed
qed

lemma settime_old_total:
  assumes "clock_ok P" "timer_wf t"
  obtains (err) e w' where "settime_old P t want w = Some (Inl e, t, w')"
    | (ok) known old t' w' where "settime_old P t want w = Some (Inr (known, old), t', w')"
      "timer_wf t'" "same_setup t t'" "pred_option ts_wf known" "(old = None) = (\<not> want)"
proof (cases "want \<and> timer_type t \<noteq> TIMER_TYPE_UNSPECIFIED")
  case False
  then show ?thesis using assms(2) ok [of None "if want then Some (current_itimerspec t) else None" t w]
    by (auto simp: settime_old_def timerfd_ctx_gettime_impl_def)
next
  case True
  then have ty: "timer_type t \<noteq> TIMER_TYPE_UNSPECIFIED" by simp
  show ?thesis
  proof (cases rule: get_clocktime_cases [OF assms(1) ty, where c = "timer_clockid t" and w = w])
    case 1
    then show ?thesis using True err by (auto simp: settime_old_def)
  next
    case (2 now w')
    obtain cur t' where c: "timerfd_ctx_gettime_impl t (Some now) = Some (cur, t')" "timer_wf t'"
      "same_setup t t'"
      by (rule gettime_impl_total [OF assms(2) 2(2)])
    show ?thesis using True 2 c by (intro ok [of "Some now" "Some cur" t' w']) (auto simp: settime_old_def)
  qed
qed

lemma settime_new_absolute_total:
  assumes "ts_wf now" "ts_wf (it_value new)" "ts_wf (it_interval new)" "nanos (it_value new) \<noteq> 0"
  obtains (overflow) "settime_new_absolute abst new now = Some None" "\<not> abst"
      "nanos now + nanos (it_value new) \<ge> (INT64_MAX + 1) * 1000000000"
    | (ok) na where "settime_new_absolute abst new now = Some (Some na)" "ts_wf (it_value na)"
      "it_interval na = it_interval new" "nanos (it_value na) \<noteq> 0"
      "nanos (it_value na) = nanos (it_value new) + (if abst then 0 else nanos now)"
proof (cases abst)
  case True
  then show ?thesis using assms ok [of new] by (simp add: settime_new_absolute_def)
next
  case False
  have nn: "0 \<le> nanos now" "0 \<le> nanos (it_value new)" using assms by (simp_all add: nanos_nonneg)
  show ?thesis
  proof (cases rule: timespecadd_safe_cases [OF assms(1,2)])
    case (1 v)
    then show ?thesis
      using False assms(4) nn
      by (intro ok [of "\<lparr>it_interval = it_interval new, it_value = v\<rparr>"])
        (auto simp: settime_new_absolute_def)
  next
    case 2
    then show ?thesis using False overflow by (simp add: settime_new_absolute_def)
  qed
qed

definition armed_as :: "TimerFDCtx \<Rightarrow> bool \<Rightarrow> bool \<Rightarrow> itimerspec \<Rightarrow> TimerFDCtx" where
  "armed_as t abst canc na =
     t\<lparr>current_itimerspec := na,
       timer_type := (if abst then TIMER_TYPE_ABSOLUTE else TIMER_TYPE_RELATIVE),
       is_cancel_on_set := canc \<and> timer_clockid t = CLOCK_REALTIME \<and> abst, is_abstime := abst\<rparr>"

lemma timer_wf_armed_as:
  assumes "ts_wf (it_value na)" "ts_wf (it_interval na)" "nanos (it_value na) \<noteq> 0"
  shows "timer_wf (armed_as t abst canc na)"
  using assms by (auto simp: timer_wf_def armed_as_def timerfd_ctx_is_disarmed_def nanos_def)

lemma settime_arm_cases:
  assumes "kevent_receipts P" "clock_ok P" "ts_wf (it_value new)" "ts_wf (it_interval new)"
    and nz: "nanos (it_value new) \<noteq> 0" and known: "pred_option ts_wf known"
  obtains (err) e w' where "settime_arm P t kq abst canc new known w = Some (Inl e, t, w')"
    | (ok) now na w' where "settime_arm P t kq abst canc new known w = Some (Inr (), armed_as t abst canc na, w')"
      "ts_wf now" "ts_wf (it_value na)" "it_interval na = it_interval new" "nanos (it_value na) \<noteq> 0"
      "nanos (it_value na) = nanos (it_value new) + (if abst then 0 else nanos now)"
proof -
  let ?ty = "if abst then TIMER_TYPE_ABSOLUTE else TIMER_TYPE_RELATIVE"
  let ?clk = "case known of
      Some now \<Rightarrow> if timer_type t \<noteq> ?ty then timerfd_ctx_get_clocktime P (timer_clockid t) ?ty w
                  else Some (Inr now, w)
    | None \<Rightarrow> timerfd_ctx_get_clocktime P (timer_clockid t) ?ty w"
  have ty: "?ty \<noteq> TIMER_TYPE_UNSPECIFIED" by simp
  consider (e) e w' where "?clk = Some (Inl e, w')" | (n) now w' where "?clk = Some (Inr now, w')" "ts_wf now"
    using known by (cases known; cases "timer_type t \<noteq> ?ty";
        cases rule: get_clocktime_cases [OF assms(2) ty, where c = "timer_clockid t" and w = w]) auto
  then show ?thesis
  proof cases
    case e
    then show ?thesis by (intro err [of e w']) (simp only: settime_arm_def Let_def, simp)
  next
    case (n now w1)
    show ?thesis
    proof (cases rule: settime_new_absolute_total [OF n(2) assms(3,4) nz, where abst = abst])
      case 1
      then show ?thesis using n by (intro err [of EINVAL w1]) (simp only: settime_arm_def Let_def, simp)
    next
      case (2 na)
      obtain rr w2 where reg: "timerfd_ctx_register_event P kq (it_value na) now w1 = Some (rr, w2)"
        by (rule register_event_total [OF assms(1) 2(2) n(2) 2(4)])
      show ?thesis
      proof (cases rr)
        case (Inl e)
        then show ?thesis using n 2 reg by (intro err [of e w2]) (simp only: settime_arm_def Let_def, simp)
      next
        case (Inr u)
        then show ?thesis using n 2 reg
          by (intro ok [of na w2 now]) (simp_all only: settime_arm_def Let_def, simp_all add: armed_as_def)
      qed
    qed
  qed
qed

lemma armed_as_simps [simp]:
  "timer_clockid (armed_as t abst canc na) = timer_clockid t"
  "current_itimerspec (armed_as t abst canc na) = na"
  "timer_type (armed_as t abst canc na) = (if abst then TIMER_TYPE_ABSOLUTE else TIMER_TYPE_RELATIVE)"
  by (simp_all add: armed_as_def)

lemma settime_disarm_wf:
  assumes "timer_wf t" "settime_disarm P t kq w = (t', w')"
  shows "timer_wf t'" "timer_clockid t' = timer_clockid t" "timerfd_ctx_is_disarmed t'"
    "timer_type t' = TIMER_TYPE_UNSPECIFIED"
  using assms by (auto simp: settime_disarm_def timer_wf_def timerfd_ctx_disarm_def
      timerfd_ctx_is_disarmed_def ts_defs)

lemma settime_action_total:
  assumes "kevent_receipts P" "clock_ok P" "timer_wf t" "ts_wf (it_value new)" "ts_wf (it_interval new)"
    and "pred_option ts_wf known"
  shows "\<exists>r t1 w1. (if tv_sec (it_value new) = 0 \<and> tv_nsec (it_value new) = 0
      then Some (Inr (), settime_disarm P t kq w)
      else settime_arm P t kq abst canc new known w) = Some (r, t1, w1) \<and>
    timer_wf t1 \<and> timer_clockid t1 = timer_clockid t"
proof (cases "tv_sec (it_value new) = 0 \<and> tv_nsec (it_value new) = 0")
  case True
  obtain t1 w1 where d: "settime_disarm P t kq w = (t1, w1)" by fastforce
  then show ?thesis using True settime_disarm_wf [OF assms(3) d] by simp
next
  case False
  then have nz: "nanos (it_value new) \<noteq> 0" using nanos_zero_iff assms(4) by auto
  show ?thesis
  proof (cases rule: settime_arm_cases [OF assms(1,2,4,5) nz assms(6), where t = t
        and kq = kq and abst = abst and canc = canc and w = w])
    case 1
    then show ?thesis using False assms(3) by auto
  next
    case (2 now na w')
    then have "timer_wf (armed_as t abst canc na)" using assms(5) by (intro timer_wf_armed_as) auto
    then show ?thesis using False 2(1) by auto
  qed
qed

lemma settime_total:
  assumes "kevent_receipts P" "clock_ok P" "timer_wf t"
    and "ts_wf (it_value new)" "ts_wf (it_interval new)"
  obtains r old t' w' where "timerfd_ctx_settime P t kq abst canc new want w = Some (r, old, t', w')"
    "timer_wf t'" "timer_clockid t' = timer_clockid t"
proof -
  have valid: "itimerspec_is_valid new" using assms by (simp add: itimerspec_is_valid_def)
  show ?thesis
  proof (cases rule: settime_old_total [OF assms(2,3), where want = want and w = w])
    case 1
    then show ?thesis using valid assms(3) that by (auto simp: timerfd_ctx_settime_def)
  next
    case (2 known old t0 w0)
    obtain r1 t1 w1 where act: "(if tv_sec (it_value new) = 0 \<and> tv_nsec (it_value new) = 0
        then Some (Inr (), settime_disarm P t0 kq w0)
        else settime_arm P t0 kq abst canc new known w0) = Some (r1, t1, w1)"
      "timer_wf t1" "timer_clockid t1 = timer_clockid t"
      using settime_action_total [OF assms(1,2) 2(2) assms(4,5) 2(4), of kq w0 abst canc] 2(3)
      unfolding same_setup_def by metis
    show ?thesis
    proof (cases r1)
      case (Inl e)
      then show ?thesis using valid 2(1) act
        by (intro that [of "Inl e" old t1 w1]) (simp_all add: timerfd_ctx_settime_def)
    next
      case (Inr u)
      obtain c t2 w2 where c: "timerfd_ctx_check_for_cancel P (t1\<lparr>nr_expirations := 0\<rparr>) kq w1 = (c, t2, w2)"
        by (metis prod_cases3)
      show ?thesis using valid 2(1) act Inr c check_for_cancel_same [OF c]
        by (intro that [of "if c \<and> is_cancel_on_set t then Inl ECANCELED else Inr ()" old t2 w2])
          (simp_all add: timerfd_ctx_settime_def)
    qed
  qed
qed

lemma realtime_change_total:
  assumes "kevent_receipts P" "clock_ok P" "timer_wf t"
  obtains t' w' where "timerfd_ctx_realtime_change P t kq w = Some (t', w')" "timer_wf t'" "same_setup t t'"
proof -
  let ?ok = "\<exists>t' w'. timerfd_ctx_realtime_change P t kq w = Some (t', w') \<and> timer_wf t' \<and> same_setup t t'"
  have rearm: "\<exists>t' w'. timerfd_ctx_rearm_kevent P u kq now True w1 = Some (t', w') \<and> timer_wf t' \<and> same_setup t t'"
    if "timer_wf u" "same_setup t u" "ts_wf now" for u now w1
    by (rule rearm_kevent_wf [OF assms(1) that(1,3), where kq = kq and del = True and w = w1]) (use that in auto)
  have clock: "\<exists>t' w'. (do { (r, w3) \<leftarrow> timerfd_ctx_get_clocktime P (timer_clockid u) (timer_type u) w2;
      case r of Inl e \<Rightarrow> Some (u, w3) | Inr now \<Rightarrow> timerfd_ctx_rearm_kevent P u kq now True w3 }) = Some (t', w')
      \<and> timer_wf t' \<and> same_setup t t'"
    if "timer_wf u" "same_setup t u" "timer_type u \<noteq> TIMER_TYPE_UNSPECIFIED" for u w2
    using that rearm by (cases rule: get_clocktime_cases [OF assms(2) that(3), where c = "timer_clockid u" and w = w2]) auto
  have ?ok
  proof (cases "timerfd_ctx_can_jump t")
    case True
    then have "timer_type t \<noteq> TIMER_TYPE_UNSPECIFIED" by (simp add: timerfd_ctx_can_jump_def)
    then show ?thesis using assms(3) True clock [of "t\<lparr>monotonic_offset := off\<rparr>" for off]
      by (auto simp: timerfd_ctx_realtime_change_def Let_def split: prod.splits sum.splits)
  qed (use assms(3) in \<open>simp add: timerfd_ctx_realtime_change_def\<close>)
  then show ?thesis using that by blast
qed

section \<open>The programmed timeout\<close>

lemma ceil_div_bounds:
  fixes n u :: int
  assumes "0 < u"
  shows "n \<le> (n div u + (if n mod u \<noteq> 0 then 1 else 0)) * u"
    and "(n div u + (if n mod u \<noteq> 0 then 1 else 0)) * u < n + u"
proof -
  have "n div u * u = n - n mod u" by (simp add: minus_mod_eq_div_mult)
  then show "n \<le> (n div u + (if n mod u \<noteq> 0 then 1 else 0)) * u"
    and "(n div u + (if n mod u \<noteq> 0 then 1 else 0)) * u < n + u"
    using pos_mod_sign [OF assms, of n] pos_mod_bound [OF assms, of n] by (auto simp: distrib_right)
qed

text \<open>Seconds and nanoseconds rounded up to units of \<open>1000000000 / k\<close> nanoseconds.\<close>

lemma round_up_bounds:
  assumes "ts_wf d" "k * u = 1000000000" "0 < u" "0 < (k :: int)"
  defines "m \<equiv> (let m0 = tv_sec d * k + tv_nsec d sdiv u
                 in if tv_nsec d smod u \<noteq> 0 then m0 + 1 else m0)"
  shows "nanos d \<le> m * u" and "m * u < nanos d + u" and "0 \<le> m"
proof -
  have n: "0 \<le> tv_nsec d" "0 \<le> tv_sec d" using assms(1) by (simp_all add: ts_defs)
  have m: "m = tv_sec d * k + (tv_nsec d div u + (if tv_nsec d mod u \<noteq> 0 then 1 else 0))"
    using n assms(3) by (simp add: m_def Let_def)
  have "m * u = tv_sec d * 1000000000 + (tv_nsec d div u + (if tv_nsec d mod u \<noteq> 0 then 1 else 0)) * u"
    by (simp add: m distrib_right mult.assoc assms(2))
  then show "nanos d \<le> m * u" "m * u < nanos d + u"
    using ceil_div_bounds [OF assms(3), of "tv_nsec d"] by (simp_all add: nanos_def)
  show "0 \<le> m" using n assms(3,4) by (simp add: m pos_imp_zdiv_nonneg_iff)
qed

definition kev_timeout_nanos :: "kevent \<Rightarrow> int" where
  "kev_timeout_nanos k = kev_data k * (if kev_fflags k = NOTE_USECONDS then 1000 else 1000000)"

lemma register_event_micros_bounds:
  assumes "ts_wf d" "register_event_micros P d = Some k"
  shows "nanos d \<le> kev_timeout_nanos k" "kev_timeout_nanos k < nanos d + 1000" "0 \<le> kev_data k"
  using assms(2) round_up_bounds [OF assms(1), of 1000000 1000]
  by (auto simp: register_event_micros_def kev_timeout_nanos_def Let_def split: if_splits)

lemma register_event_millis_bounds:
  assumes "ts_wf d" "register_event_millis P d = Some k" "\<not> cfg_quirky_timer P"
  shows "nanos d \<le> kev_timeout_nanos k" "kev_timeout_nanos k < nanos d + 1000000" "0 \<le> kev_data k"
  using assms(2,3) round_up_bounds [OF assms(1), of 1000 1000000]
  by (auto simp: register_event_millis_def kev_timeout_nanos_def Let_def split: if_splits)

section \<open>Reading\<close>

lemma read_monotonic_due:
  assumes "kevent_receipts P" "clock_ok P" "timer_wf t"
    and mono: "timer_clockid t = CLOCK_MONOTONIC" and armed: "timer_type t \<noteq> TIMER_TYPE_UNSPECIFIED"
    and kev: "sys_kevent P kq [] 3 w = (Inr kevs, w1)" "\<forall>k \<in> set kevs. kev_filter k = EVFILT_TIMER"
    and clk: "sys_clock_gettime P CLOCK_MONOTONIC w1 = (Inr now, w2)"
    and upd: "timerfd_ctx_update_to_current_time t now = Some t1" "timer_wf t1" "nr_expirations t1 \<noteq> 0"
  shows "\<exists>t' w'. timerfd_ctx_read P t kq w = Some (Inr (nr_expirations t1), t', w') \<and>
    (t' = t1\<lparr>nr_expirations := 0\<rparr> \<or> t' = timerfd_ctx_disarm (t1\<lparr>nr_expirations := 0\<rparr>))"
proof -
  let ?got = "read_event_ident kevs None" and ?t2 = "t1\<lparr>nr_expirations := 0\<rparr>"
  have pos: "0 < nr_expirations t1" using upd(3) by (simp add: word_neq_0_conv)
  have now: "ts_wf now" by (rule clock_okD [OF assms(2) clk])
  have c: "timerfd_ctx_get_clocktime P CLOCK_MONOTONIC (timer_type t) w1 = Some (Inr now, w2)"
    using armed clk by (simp add: timerfd_ctx_get_clocktime_def)
  have re: "read_expirations t now ?got = Some (Inr (False, nr_expirations t1), ?t2)"
    using upd by (simp add: read_expirations_def Let_def)
  have wf2: "timer_wf ?t2" using upd(2) by simp
  obtain t' w' where "timerfd_ctx_rearm_kevent P ?t2 kq now (?got = None \<or> ?got \<noteq> Some 0) w2 = Some (t', w')"
    "t' = ?t2 \<or> t' = timerfd_ctx_disarm ?t2"
    by (rule rearm_kevent_wf [OF assms(1) wf2 now])
  then show ?thesis
    using armed mono kev c re pos
    by (auto simp: timerfd_ctx_read_def Let_def read_finish_def)
qed

section \<open>A successful relative setting\<close>

lemma settime_success_arm:
  assumes "timerfd_ctx_settime P t kq abst canc new False w = Some (Inr (), old, t', w')"
    and "nanos (it_value new) \<noteq> 0"
  obtains t1 w1 c where "settime_arm P t kq abst canc new None w = Some (Inr (), t1, w1)"
    "timerfd_ctx_check_for_cancel P (t1\<lparr>nr_expirations := 0\<rparr>) kq w1 = (c, t', w')"
proof -
  have nz: "\<not> (tv_sec (it_value new) = 0 \<and> tv_nsec (it_value new) = 0)"
    using assms(2) by (auto simp: nanos_def)
  show ?thesis
  proof (cases "settime_arm P t kq abst canc new None w")
    case None
    then show ?thesis using assms(1) nz by (simp add: timerfd_ctx_settime_def settime_old_def split: if_splits)
  next
    case (Some x)
    obtain r t1 w1 where x: "x = (r, t1, w1)" by (cases x)
    show ?thesis
      using assms(1) nz Some x that
      by (cases r) (simp_all add: timerfd_ctx_settime_def settime_old_def split: if_splits prod.splits)
  qed
qed

lemma settime_arm_relative:
  assumes "settime_arm P t kq False canc new None w = Some (Inr (), t1, w1)"
    and clk: "sys_clock_gettime P CLOCK_MONOTONIC w = (Inr now, w0)"
    and "ts_wf now" "ts_wf (it_value new)" "ts_wf (it_interval new)" "nanos (it_value new) \<noteq> 0"
  obtains na where "t1 = armed_as t False canc na" "ts_wf (it_value na)" "nanos (it_value na) \<noteq> 0"
    "it_interval na = it_interval new" "nanos (it_value na) = nanos now + nanos (it_value new)"
proof -
  have c: "timerfd_ctx_get_clocktime P (timer_clockid t) TIMER_TYPE_RELATIVE w = Some (Inr now, w0)"
    using clk by (cases "timer_clockid t") (simp_all add: timerfd_ctx_get_clocktime_def)
  show ?thesis
  proof (cases rule: settime_new_absolute_total [OF assms(3-6), where abst = False])
    case 1
    then show ?thesis using assms(1) c by (simp add: settime_arm_def)
  next
    case (2 na)
    show ?thesis
    proof (cases "timerfd_ctx_register_event P kq (it_value na) now w0")
      case None
      then show ?thesis using assms(1) c 2 by (simp add: settime_arm_def)
    next
      case (Some x)
      obtain r w2 where "x = (r, w2)" by (cases x)
      then have "t1 = armed_as t False canc na"
        using assms(1) c 2 Some by (cases r) (simp_all add: settime_arm_def armed_as_def)
      then show ?thesis using 2 that by simp
    qed
  qed
qed

section \<open>Properties\<close>

definition demo_timer :: "int \<Rightarrow> int \<Rightarrow> TimerFDCtx" where
  "demo_timer value_secs interval_secs =
     armed_as (timerfd_ctx_init CLOCK_MONOTONIC) False False
       \<lparr>it_interval = \<lparr>tv_sec = interval_secs, tv_nsec = 0\<rparr>, it_value = \<lparr>tv_sec = value_secs, tv_nsec = 0\<rparr>\<rparr>"

lemma demo_timer_sel [simp]:
  "timer_clockid (demo_timer v i) = CLOCK_MONOTONIC"
  "timer_type (demo_timer v i) = TIMER_TYPE_RELATIVE"
  "it_value (current_itimerspec (demo_timer v i)) = \<lparr>tv_sec = v, tv_nsec = 0\<rparr>"
  "it_interval (current_itimerspec (demo_timer v i)) = \<lparr>tv_sec = i, tv_nsec = 0\<rparr>"
  "nr_expirations (demo_timer v i) = 0"
  "is_abstime (demo_timer v i) = False"
  "is_cancel_on_set (demo_timer v i) = False"
  by (simp_all add: demo_timer_def armed_as_def timerfd_ctx_init_def)

lemmas demo_timer_eval = timer_wf_def timerfd_ctx_is_disarmed_def elapsed_def ts_defs

text \<open>
  C9: catching up with the clock is exact. For a well-formed timer and a clock reading that
  leaves room for one more period, \<open>timerfd_ctx_update_to_current_time\<close> returns, adds to the
  expiration counter exactly the number of expirations up to now, leaves a timer that is not due
  alone, disarms a one-shot timer that is due, and moves a periodic timer to the first multiple
  of its period after now.
\<close>

theorem timer_update_exact:
  assumes "timer_wf t" "ts_wf now" "nanos now + period t \<le> INT64_MAX"
  shows "\<exists>t'. timerfd_ctx_update_to_current_time t now = Some t' \<and> timer_wf t' \<and>
    nr_expirations t' = nr_expirations t + word_of_int (elapsed t now) \<and>
    (if elapsed t now = 0 then t' = t
     else if period t = 0 then timerfd_ctx_is_disarmed t'
     else expiry t' = expiry t + elapsed t now * period t \<and>
       nanos now < expiry t' \<and> expiry t' \<le> nanos now + period t)"
proof (cases "timerfd_ctx_is_disarmed t \<or> nanos now < expiry t")
  case True
  then show ?thesis using update_idle [OF assms(1,2) True] assms(1) by (auto simp: elapsed_def)
next
  case False
  then have d: "\<not> timerfd_ctx_is_disarmed t" "expiry t \<le> nanos now" by auto
  show ?thesis
  proof (cases "0 < period t")
    case True
    then show ?thesis
      using assms(3) by (cases rule: update_periodic [OF assms(1,2) d(1) True d(2)]) auto
  next
    case False
    then have p0: "period t = 0"
      using nanos_nonneg [of "it_interval (current_itimerspec t)"] timer_wf_ts(2) [OF assms(1)] by simp
    then show ?thesis
      using update_oneshot [OF assms(1,2) d(1) p0 d(2)] assms(1) d by (auto simp: elapsed_def)
  qed
qed

theorem timer_update_exact_witness:
  "\<exists>t'. timerfd_ctx_update_to_current_time (demo_timer 90 3) \<lparr>tv_sec = 100, tv_nsec = 5\<rparr> = Some t' \<and>
     nr_expirations t' = 4"
  using timer_update_exact [of "demo_timer 90 3" "\<lparr>tv_sec = 100, tv_nsec = 5\<rparr>"]
  by (auto simp: demo_timer_eval)






lemma demo_settime:
  "\<exists>t1. timerfd_ctx_settime (quiet_platform :: unit platform) (timerfd_ctx_init CLOCK_MONOTONIC) 7 False False
     (current_itimerspec (demo_timer 5 2)) False () = Some (Inr (), None, t1, ())"
  by (simp add: timerfd_ctx_settime_def settime_old_def settime_arm_def itimerspec_is_valid_def
      timespec_is_valid_def timerfd_ctx_get_clocktime_def settime_new_absolute_def timespecadd_safe_def
      timerfd_ctx_register_event_def timespecsub_safe_def register_event_kev_def register_event_micros_def
      fits64_def in_int64_def int_limits fits_kev_data_def has_bits_def receipt_ok_def Let_def
      timerfd_ctx_init_def)




text \<open>
  C15: \<open>timerfd_ctx_gettime\<close> loses the expiration of a one-shot timer. If a one-shot timer has
  expired and has not been read yet, asking for its remaining time counts the expiration but also
  disarms the timer, after which every \<open>timerfd_ctx_read\<close> reports EAGAIN, although an expiration
  is pending.
\<close>

theorem gettime_loses_expiration:
  assumes "clock_ok P" "timer_wf t" "timer_type t \<noteq> TIMER_TYPE_UNSPECIFIED" "period t = 0"
    and "timerfd_ctx_get_clocktime P (timer_clockid t) (timer_type t) w = Some (Inr now, w1)"
    and "expiry t \<le> nanos now"
  shows "\<exists>cur t'. timerfd_ctx_gettime P t w = Some (Inr cur, t', w1) \<and>
    nr_expirations t' = nr_expirations t + 1 \<and>
    (\<forall>kq w2. timerfd_ctx_read P t' kq w2 = Some (Inl EAGAIN, t', w2))"
proof -
  have armed: "\<not> timerfd_ctx_is_disarmed t" using timer_wf_type [OF assms(2)] assms(3) by simp
  have now: "ts_wf now"
    using assms(3,5) clock_okD [OF assms(1)] by (auto simp: timerfd_ctx_get_clocktime_def)
  show ?thesis
    using update_oneshot [OF assms(2) now armed assms(4,6)] assms(3,5)
    by (simp add: timerfd_ctx_gettime_def timerfd_ctx_gettime_impl_def timerfd_ctx_read_def Let_def)
qed

theorem gettime_loses_expiration_witness:
  "\<exists>cur t'. timerfd_ctx_gettime (quiet_platform :: unit platform) (demo_timer 90 0) () = Some (Inr cur, t', ()) \<and>
     nr_expirations t' = 1 \<and> timerfd_ctx_read quiet_platform t' 7 () = Some (Inl EAGAIN, t', ())"
  using gettime_loses_expiration [of "quiet_platform :: unit platform" "demo_timer 90 0" "()"
      "\<lparr>tv_sec = 100, tv_nsec = 0\<rparr>" "()"]
  by (auto simp: demo_timer_eval timerfd_ctx_get_clocktime_def)

end
