(* ===== verification/Compat.thy ===== *)
theory Compat
  imports Timespec
begin

text \<open>
  The stand-ins for functions that some systems lack: \<open>src/compat_sigops.c\<close>, \<open>src/compat_kqueue1.c\<close>,
  \<open>src/compat_pipe2.c\<close>, \<open>src/compat_socket.c\<close>, \<open>src/compat_socketpair.c\<close> and \<open>src/compat_ppoll.c\<close>, and the
  choice of \<open>ppoll\<close> in \<open>src/wrap.c\<close>.
\<close>

section \<open>Signal sets\<close>

definition sigismember :: "sigset \<Rightarrow> nat \<Rightarrow> bool" where
  "sigismember s i \<longleftrightarrow> 0 < i \<and> bit s (i - 1)"

definition compat_sigisemptyset :: "sigset \<Rightarrow> bool" where
  "compat_sigisemptyset s \<longleftrightarrow> s = 0"

definition compat_sigandset :: "sigset \<Rightarrow> sigset \<Rightarrow> sigset" where
  "compat_sigandset l r = l AND r"

section \<open>Descriptor flags\<close>

text \<open>\<open>(r = fcntl(fd, get, 0)) < 0 || fcntl(fd, set, r | flag) < 0\<close>, with the error of the call that failed.\<close>

definition fcntl_or ::
  "'w platform \<Rightarrow> int \<Rightarrow> int \<Rightarrow> int \<Rightarrow> 32 word \<Rightarrow> 'w \<Rightarrow> (errno + unit) \<times> 'w" where
  "fcntl_or P fd getc setc flag w =
     (case sys_fcntl P fd getc 0 w of
        (Inl ec, w1) \<Rightarrow> (Inl ec, w1)
      | (Inr r, w1) \<Rightarrow>
          (case sys_fcntl P fd setc (r OR flag) w1 of
             (Inl ec, w2) \<Rightarrow> (Inl ec, w2)
           | (Inr _, w2) \<Rightarrow> (Inr (), w2)))"

text \<open>Do one step after another, stopping at the first error.\<close>

fun try_all :: "('w \<Rightarrow> (errno + unit) \<times> 'w) list \<Rightarrow> 'w \<Rightarrow> (errno + unit) \<times> 'w" where
  "try_all [] w = (Inr (), w)"
| "try_all (f # fs) w = (case f w of (Inl ec, w1) \<Rightarrow> (Inl ec, w1) | (Inr _, w1) \<Rightarrow> try_all fs w1)"

definition compat_kqueue1_impl :: "'w platform \<Rightarrow> 32 word \<Rightarrow> 'w \<Rightarrow> (errno + int) \<times> 'w" where
  "compat_kqueue1_impl P flags w =
     (if \<not> subset_bits flags (O_CLOEXEC OR O_NONBLOCK) then (Inl EINVAL, w)
      else (case sys_kqueue P w of
              (Inl ec, w1) \<Rightarrow> (Inl ec, w1)
            | (Inr fd, w1) \<Rightarrow>
                (let cloexec = (if has_bits flags O_CLOEXEC then fcntl_or P fd F_GETFD F_SETFD FD_CLOEXEC
                       else if cfg_APPLE P
                       then (\<lambda>w. case sys_fcntl P fd F_GETFD 0 w of
                               (Inl ec, w1) \<Rightarrow> (Inl ec, w1)
                             | (Inr r, w1) \<Rightarrow>
                                 (case sys_fcntl P fd F_SETFD (r AND NOT FD_CLOEXEC) w1 of
                                    (Inl ec, w2) \<Rightarrow> (Inl ec, w2) | (Inr _, w2) \<Rightarrow> (Inr (), w2)))
                       else (\<lambda>w. (Inr (), w)));
                     nonblock = (if has_bits flags O_NONBLOCK
                       then (\<lambda>w. case sys_fcntl P fd F_GETFL 0 w of
                               (Inl ec, w1) \<Rightarrow> (Inl ec, w1)
                             | (Inr r, w1) \<Rightarrow>
                                 (case sys_fcntl P fd F_SETFL (r OR O_NONBLOCK) w1 of
                                    (Inl ec, w2) \<Rightarrow> (if ec \<noteq> ENOTTY then Inl ec else Inr (), w2)
                                  | (Inr _, w2) \<Rightarrow> (Inr (), w2)))
                       else (\<lambda>w. (Inr (), w)))
                 in (case try_all [cloexec, nonblock] w1 of
                       (Inl ec, w2) \<Rightarrow> (Inl ec, snd (sys_close P fd w2))
                     | (Inr _, w2) \<Rightarrow> (Inr fd, w2)))))"

text \<open>The flags of both ends of a pipe or socket pair.\<close>

definition set_pair_flags ::
  "'w platform \<Rightarrow> int \<times> int \<Rightarrow> bool \<Rightarrow> bool \<Rightarrow> 'w \<Rightarrow> (errno + unit) \<times> 'w" where
  "set_pair_flags P p nonblock cloexec =
     try_all
       ((if nonblock then [fcntl_or P (fst p) F_GETFL F_SETFL O_NONBLOCK, fcntl_or P (snd p) F_GETFL F_SETFL O_NONBLOCK]
         else []) @
        (if cloexec then [fcntl_or P (fst p) F_GETFD F_SETFD FD_CLOEXEC, fcntl_or P (snd p) F_GETFD F_SETFD FD_CLOEXEC]
         else []))"

definition close_pair :: "'w platform \<Rightarrow> int \<times> int \<Rightarrow> 'w \<Rightarrow> 'w" where
  "close_pair P p w = snd (sys_close P (snd p) (snd (sys_close P (fst p) w)))"

definition compat_pipe2_impl :: "'w platform \<Rightarrow> 32 word \<Rightarrow> 'w \<Rightarrow> (errno + int \<times> int) \<times> 'w" where
  "compat_pipe2_impl P flags w =
     (if \<not> subset_bits flags (O_CLOEXEC OR O_NONBLOCK) then (Inl EINVAL, w)
      else (case sys_pipe P w of
              (Inl ec, w1) \<Rightarrow> (Inl ec, w1)
            | (Inr p, w1) \<Rightarrow>
                (case set_pair_flags P p (has_bits flags O_NONBLOCK) (has_bits flags O_CLOEXEC) w1 of
                   (Inl ec, w2) \<Rightarrow> (Inl ec, close_pair P p w2)
                 | (Inr _, w2) \<Rightarrow> (Inr p, w2))))"

abbreviation COMPAT_SOCK_CLOEXEC :: "32 word" where "COMPAT_SOCK_CLOEXEC \<equiv> O_CLOEXEC"
abbreviation COMPAT_SOCK_NONBLOCK :: "32 word" where "COMPAT_SOCK_NONBLOCK \<equiv> O_NONBLOCK"

definition compat_socketpair_impl ::
  "'w platform \<Rightarrow> int \<Rightarrow> 32 word \<Rightarrow> int \<Rightarrow> 'w \<Rightarrow> (errno + int \<times> int) \<times> 'w" where
  "compat_socketpair_impl P domain type protocol w =
     (case sys_socketpair P domain (type AND NOT (COMPAT_SOCK_CLOEXEC OR COMPAT_SOCK_NONBLOCK)) protocol w of
        (Inl ec, w1) \<Rightarrow> (Inl ec, w1)
      | (Inr p, w1) \<Rightarrow>
          (case set_pair_flags P p (has_bits type COMPAT_SOCK_NONBLOCK) (has_bits type COMPAT_SOCK_CLOEXEC) w1 of
             (Inl ec, w2) \<Rightarrow> (Inl ec, close_pair P p w2)
           | (Inr _, w2) \<Rightarrow> (Inr p, w2)))"

definition compat_socket_impl ::
  "'w platform \<Rightarrow> int \<Rightarrow> 32 word \<Rightarrow> int \<Rightarrow> 'w \<Rightarrow> (errno + int) \<times> 'w" where
  "compat_socket_impl P domain type protocol w =
     (case sys_socket P domain (type AND NOT (COMPAT_SOCK_CLOEXEC OR COMPAT_SOCK_NONBLOCK)) protocol w of
        (Inl ec, w1) \<Rightarrow> (Inl ec, w1)
      | (Inr sock, w1) \<Rightarrow>
          (case try_all
                  ((if has_bits type COMPAT_SOCK_NONBLOCK then [fcntl_or P sock F_GETFL F_SETFL O_NONBLOCK] else []) @
                   (if has_bits type COMPAT_SOCK_CLOEXEC then [fcntl_or P sock F_GETFD F_SETFD FD_CLOEXEC] else [])) w1 of
             (Inl ec, w2) \<Rightarrow> (Inl ec, snd (sys_close P sock w2))
           | (Inr _, w2) \<Rightarrow> (Inr sock, w2)))"

section \<open>Polling with a signal mask\<close>

text \<open>
  The timeout in milliseconds: \<open>None\<close> for an invalid one; -1, which means none, when there is no timeout
  or it does not fit.
\<close>

definition ppoll_timeout_ms :: "timespec option \<Rightarrow> int option" where
  "ppoll_timeout_ms timeout =
     (case timeout of
        None \<Rightarrow> Some (-1)
      | Some t \<Rightarrow>
          if tv_sec t < 0 \<or> tv_nsec t < 0 \<or> tv_nsec t \<ge> 1000000000 then None
          else
            (let ms0 = tv_nsec t sdiv 1000000;
                 ms1 = (if tv_nsec t smod 1000000 \<noteq> 0 then ms0 + 1 else ms0)
             in (case fits32 (tv_sec t * 1000) of
                   None \<Rightarrow> Some (-1)
                 | Some sec_ms \<Rightarrow> Some (case fits32 (sec_ms + ms1) of None \<Rightarrow> -1 | Some ms \<Rightarrow> ms))))"

text \<open>
  The signals that are blocked now, not blocked by the mask, and have a handler that does not restart
  the call: one of them has to interrupt the poll.
\<close>

fun interrupting_signals ::
  "'w platform \<Rightarrow> sigset \<Rightarrow> sigset \<Rightarrow> nat list \<Rightarrow> 'w \<Rightarrow> (errno + nat list) \<times> 'w" where
  "interrupting_signals P origmask sigs [] w = (Inr [], w)"
| "interrupting_signals P origmask sigs (i # is) w =
     (if i = cfg_SIGKILL P \<or> i = cfg_SIGSTOP P \<or> \<not> sigismember origmask i \<or> sigismember sigs i
      then interrupting_signals P origmask sigs is w
      else (case sys_sigaction P i w of
              (Inl ec, w1) \<Rightarrow> (Inl ec, w1)
            | (Inr act, w1) \<Rightarrow>
                if \<not> has_bits (sa_flags act) SA_SIGINFO \<and> (sa_handler act = SIG_DFL \<or> sa_handler act = SIG_IGN) \<or>
                   has_bits (sa_flags act) SA_RESTART
                then interrupting_signals P origmask sigs is w1
                else (case interrupting_signals P origmask sigs is w1 of
                        (Inl ec, w2) \<Rightarrow> (Inl ec, w2)
                      | (Inr js, w2) \<Rightarrow> (Inr (i # js), w2))))"

text \<open>A signal that is pending already wakes the kqueue by hand.\<close>

definition wake_if_pending :: "'w platform \<Rightarrow> int \<Rightarrow> nat list \<Rightarrow> 'w \<Rightarrow> (errno + unit) \<times> 'w" where
  "wake_if_pending P kq sigs w =
     (if \<not> cfg_EVFILT_USER P then (Inr (), w)
      else (case sys_sigpending P w of
              (Inl ec, w1) \<Rightarrow> (Inl ec, w1)
            | (Inr pending, w1) \<Rightarrow>
                if list_ex (sigismember pending) sigs
                then (case sys_kevent P kq [EV_SET 0 EVFILT_USER (EV_ADD OR EV_ONESHOT) 0 0 None,
                             EV_SET 0 EVFILT_USER 0 NOTE_TRIGGER 0 None] 0 w1 of
                        (Inl ec, w2) \<Rightarrow> (Inl ec, w2) | (Inr _, w2) \<Rightarrow> (Inr (), w2))
                else (Inr (), w1)))"

text \<open>
  The poll itself: the mask is set around the call. With a signal kqueue \<open>kq\<close>, its entry is the last one;
  it is not counted, and when nothing else is ready the call was interrupted.
\<close>

definition masked_poll ::
  "'w platform \<Rightarrow> pollfd list \<Rightarrow> int option \<Rightarrow> int \<Rightarrow> sigset option \<Rightarrow> 'w \<Rightarrow> (errno + int \<times> pollfd list) \<times> 'w" where
  "masked_poll P fds kq timeout_ms sigs w =
     (let fds2 = (case kq of None \<Rightarrow> fds | Some q \<Rightarrow> fds @ [\<lparr>pfd_fd = q, pfd_events = POLLIN, pfd_revents = 0\<rparr>]);
          (orig, w1) = (case sigs of None \<Rightarrow> (0, w) | Some m \<Rightarrow> sys_sigmask_set P m w);
          (r, w2) = sys_poll P fds2 timeout_ms w1;
          w3 = (if sigs = None then w2 else snd (sys_sigmask_set P orig w2))
      in (case r of
            Inl ec \<Rightarrow> (Inl ec, w3)
          | Inr (ready, out) \<Rightarrow>
              if kq \<noteq> None \<and> pfd_revents (last out) \<noteq> 0
              then (if ready - 1 = 0 then (Inl EINTR, w3) else (Inr (ready - 1, take (length fds) out), w3))
              else (Inr (ready, take (length fds) out), w3)))"

definition ppoll_signals :: "'w platform \<Rightarrow> int \<Rightarrow> sigset option \<Rightarrow> 'w \<Rightarrow> (errno + nat list) \<times> 'w" where
  "ppoll_signals P ms sigs w =
     (case sigs of
        None \<Rightarrow> (Inr [], w)
      | Some m \<Rightarrow>
          if ms = 0 then (Inr [], w)
          else (case sys_sigmask_get P w of
                  (Inl ec, w1) \<Rightarrow> (Inl ec, w1)
                | (Inr orig, w1) \<Rightarrow> interrupting_signals P orig m [1..<cfg_NSIG P] w1))"

text \<open>Preparing the signal kqueue: its filters, a wake-up for signals that are pending, the larger array.\<close>

definition ppoll_prepare :: "'w platform \<Rightarrow> int \<Rightarrow> nat list \<Rightarrow> nat \<Rightarrow> 'w \<Rightarrow> (errno + unit) \<times> 'w" where
  "ppoll_prepare P kq is nfds =
     try_all
       [\<lambda>v. (case sys_kevent P kq (map (\<lambda>i. EV_SET (int i) EVFILT_SIGNAL (EV_ADD OR EV_ONESHOT) 0 0 None) is) 0 v of
               (Inl ec, v1) \<Rightarrow> (Inl ec, v1) | (Inr _, v1) \<Rightarrow> (Inr (), v1)),
        wake_if_pending P kq is,
        \<lambda>v. (if (nfds + 1) * cfg_sizeof_pollfd P > cfg_SIZE_MAX P then (Inl EINVAL, v)
            else sys_realloc P ((nfds + 1) * cfg_sizeof_pollfd P) v)]"

definition compat_ppoll_impl ::
  "'w platform \<Rightarrow> pollfd list \<Rightarrow> timespec option \<Rightarrow> sigset option \<Rightarrow> 'w \<Rightarrow> (errno + int \<times> pollfd list) \<times> 'w" where
  "compat_ppoll_impl P fds timeout sigs w =
     (case ppoll_timeout_ms timeout of
        None \<Rightarrow> (Inl EINVAL, w)
      | Some ms \<Rightarrow>
          (case ppoll_signals P ms sigs w of
             (Inl ec, w1) \<Rightarrow> (Inl ec, w1)
           | (Inr is, w1) \<Rightarrow>
               if is = [] then masked_poll P fds None ms sigs w1
               else (case sys_kqueue P w1 of
                       (Inl ec, w2) \<Rightarrow> (Inl ec, w2)
                     | (Inr kq, w2) \<Rightarrow>
                         (let (res, w4) = (case ppoll_prepare P kq is (length fds) w2 of
                                (Inl ec, w3) \<Rightarrow> (Inl ec, w3)
                              | (Inr _, w3) \<Rightarrow> masked_poll P fds (Some kq) ms sigs w3)
                          in (res, snd (sys_close P kq w4))))))"

text \<open>\<open>real_ppoll\<close> of \<open>wrap.c\<close>.\<close>

definition real_ppoll ::
  "'w platform \<Rightarrow> pollfd list \<Rightarrow> timespec option \<Rightarrow> sigset option \<Rightarrow> 'w \<Rightarrow> (errno + int \<times> pollfd list) \<times> 'w" where
  "real_ppoll P = (if cfg_APPLE P then compat_ppoll_impl P else sys_ppoll P)"

section \<open>Properties\<close>

lemma round_up_div:
  fixes x m :: int
  assumes "0 \<le> x" "0 < m"
  defines "q \<equiv> if x mod m \<noteq> 0 then x div m + 1 else x div m"
  shows "q = (x + (m - 1)) div m" "x \<le> q * m" "q * m < x + m" "0 \<le> q"
proof -
  have x: "x = m * (x div m) + x mod m" by simp
  have r: "0 \<le> x mod m" "x mod m < m" using assms(2) by simp_all
  show "q = (x + (m - 1)) div m"
  proof (cases "x mod m = 0")
    case True
    then have "x + (m - 1) = m * q + (m - 1)" using x by (simp add: q_def)
    then show ?thesis using assms(2) by (intro int_div_pos_eq [symmetric, where r = "m - 1"]) simp_all
  next
    case False
    then have "x + (m - 1) = m * q + (x mod m - 1)" using x by (simp add: q_def algebra_simps)
    then show ?thesis using False r by (intro int_div_pos_eq [symmetric, where r = "x mod m - 1"]) simp_all
  qed
  obtain d e where de: "x div m = d" "x mod m = e" by simp
  show "x \<le> q * m" "q * m < x + m" using x r unfolding de by (auto simp: q_def de algebra_simps)
  show "0 \<le> q" using assms(1,2) by (simp add: q_def pos_imp_zdiv_nonneg_iff)
qed

text \<open>C30: the millisecond timeout of the replacement \<open>ppoll\<close> never shortens the caller's timeout, and exceeds
  it by less than a millisecond; a timeout that does not fit into an \<open>int\<close> becomes an unlimited one, and
  zero stays zero.\<close>

theorem ppoll_timeout_rounds_up:
  assumes "timespec_is_valid t"
  shows "\<exists>ms. ppoll_timeout_ms (Some t) = Some ms \<and>
    (if ms = - 1 then tv_sec t * 1000 + (tv_nsec t + 999999) div 1000000 > INT32_MAX
     else 0 \<le> ms \<and> ms \<le> INT32_MAX \<and>
       tv_sec t * 1000000000 + tv_nsec t \<le> ms * 1000000 \<and>
       ms * 1000000 < tv_sec t * 1000000000 + tv_nsec t + 1000000)"
proof -
  have v: "0 \<le> tv_sec t" "0 \<le> tv_nsec t" "tv_nsec t < 1000000000"
    using assms by (auto simp: timespec_is_valid_def)
  let ?n = "if tv_nsec t mod 1000000 \<noteq> 0 then tv_nsec t div 1000000 + 1 else tv_nsec t div 1000000"
  have n: "?n = (tv_nsec t + 999999) div 1000000" using round_up_div(1) [OF v(2), of 1000000] by simp
  have b: "tv_nsec t \<le> ?n * 1000000" "?n * 1000000 < tv_nsec t + 1000000" "0 \<le> ?n"
    using round_up_div(2-4) [OF v(2), of 1000000] by simp_all
  have ms: "ppoll_timeout_ms (Some t) =
      Some (if tv_sec t * 1000 + ?n \<le> INT32_MAX then tv_sec t * 1000 + ?n else - 1)"
    using v b(3) by (auto simp: ppoll_timeout_ms_def fits32_def in_int32_def int_limits Let_def)
  show ?thesis
  proof (cases "tv_sec t * 1000 + ?n \<le> INT32_MAX")
    case True
    then show ?thesis using ms b v by (intro exI [of _ "tv_sec t * 1000 + ?n"]) (simp add: algebra_simps)
  next
    case False
    then show ?thesis using ms n by (intro exI [of _ "-1"]) simp
  qed
qed

theorem ppoll_timeout_rounds_up_witness:
  "\<exists>ms. ppoll_timeout_ms (Some \<lparr>tv_sec = 2, tv_nsec = 1\<rparr>) = Some ms \<and> 2000000001 \<le> ms * 1000000 \<and> ms * 1000000 < 2001000001"
proof -
  have "timespec_is_valid \<lparr>tv_sec = 2, tv_nsec = 1\<rparr>" by (simp add: timespec_is_valid_def)
  from ppoll_timeout_rounds_up [OF this] show ?thesis by (auto simp: int_limits split: if_splits)
qed

text \<open>poll(2) returns the number of entries that have events, and one entry per descriptor.\<close>

definition ready_count :: "pollfd list \<Rightarrow> int" where
  "ready_count out = int (length (filter (\<lambda>p. pfd_revents p \<noteq> 0) out))"

definition poll_counts :: "'w platform \<Rightarrow> bool" where
  "poll_counts P \<longleftrightarrow>
     (\<forall>pfds t w k out w'. sys_poll P pfds t w = (Inr (k, out), w') \<longrightarrow> length out = length pfds \<and> k = ready_count out)"

lemma quiet_poll_counts [simp]: "poll_counts quiet_platform"
  by (simp add: poll_counts_def ready_count_def filter_empty_conv)

lemma masked_poll_counts:
  assumes "poll_counts P" "masked_poll P fds kq ms sigs w = (Inr (n, out), w')"
  shows "length out = length fds \<and> n = ready_count out"
proof -
  let ?fds = "case kq of None \<Rightarrow> fds | Some q \<Rightarrow> fds @ [\<lparr>pfd_fd = q, pfd_events = POLLIN, pfd_revents = 0\<rparr>]"
  obtain orig w1 where w1: "(case sigs of None \<Rightarrow> (0, w) | Some m \<Rightarrow> sys_sigmask_set P m w) = (orig, w1)" by fastforce
  obtain r w2 where r: "sys_poll P ?fds ms w1 = (r, w2)" by fastforce
  obtain k o2 where k: "r = Inr (k, o2)"
    using assms(2) w1 r by (cases r) (auto simp: masked_poll_def)
  have c: "length o2 = length ?fds" "k = ready_count o2"
    using assms(1) [unfolded poll_counts_def, rule_format, of ?fds ms w1 k o2 w2] r k by simp_all
  have res: "out = take (length fds) o2"
    "n = (if kq \<noteq> None \<and> pfd_revents (last o2) \<noteq> 0 then k - 1 else k)"
    using assms(2) w1 r k by (auto simp: masked_poll_def Let_def split: if_splits)
  show ?thesis
  proof (cases kq)
    case None
    then show ?thesis using res c by simp
  next
    case (Some q)
    then obtain ps p where o2: "o2 = ps @ [p]" "length ps = length fds"
      using c(1) by (cases o2 rule: rev_cases) simp_all
    then have "k = ready_count ps + (if pfd_revents p \<noteq> 0 then 1 else 0)"
      using c(2) by (simp add: ready_count_def)
    then show ?thesis using res o2 Some by simp
  qed
qed

text \<open>C31: the replacement \<open>ppoll\<close> hides its helper descriptor. Whatever signals are involved, a successful
  call returns one entry for each of the caller's descriptors and the number of those that have events.\<close>

theorem compat_ppoll_counts:
  assumes "poll_counts P" "compat_ppoll_impl P fds timeout sigs w = (Inr (n, out), w')"
  shows "length out = length fds \<and> n = ready_count out"
proof -
  obtain ms where ms: "ppoll_timeout_ms timeout = Some ms"
    using assms(2) by (cases "ppoll_timeout_ms timeout") (simp_all add: compat_ppoll_impl_def)
  obtain r w1 where r: "ppoll_signals P ms sigs w = (r, w1)" by fastforce
  then obtain is1 where is1: "r = Inr is1" using assms(2) ms by (cases r) (simp_all add: compat_ppoll_impl_def)
  have "\<exists>kq v v'. masked_poll P fds kq ms sigs v = (Inr (n, out), v')"
  proof (cases "is1 = []")
    case True
    then have "masked_poll P fds None ms sigs w1 = (Inr (n, out), w')"
      using assms(2) ms r is1 by (simp add: compat_ppoll_impl_def)
    then show ?thesis by blast
  next
    case False
    obtain k w2 where k: "sys_kqueue P w1 = (k, w2)" by fastforce
    then obtain kq where kq: "k = Inr kq"
      using assms(2) ms r is1 False by (cases k) (simp_all add: compat_ppoll_impl_def)
    obtain q w3 where q: "ppoll_prepare P kq is1 (length fds) w2 = (q, w3)" by fastforce
    then obtain u where u: "q = Inr u"
      using assms(2) ms r is1 False k kq by (cases q) (simp_all add: compat_ppoll_impl_def)
    have "fst (masked_poll P fds (Some kq) ms sigs w3) = Inr (n, out)"
      using assms(2) ms r is1 False k kq q u by (simp add: compat_ppoll_impl_def split: prod.splits)
    then show ?thesis by (metis prod.collapse)
  qed
  then show ?thesis using masked_poll_counts [OF assms(1)] by blast
qed

theorem compat_ppoll_counts_witness:
  "\<exists>n out. fst (compat_ppoll_impl quiet_platform [\<lparr>pfd_fd = 7, pfd_events = 1, pfd_revents = 0\<rparr>] None None ()) = Inr (n, out) \<and>
     length out = 1 \<and> n = ready_count out"
proof -
  have e: "compat_ppoll_impl quiet_platform [\<lparr>pfd_fd = 7, pfd_events = 1, pfd_revents = 0\<rparr>] None None () =
      (Inr (0, [\<lparr>pfd_fd = 7, pfd_events = 1, pfd_revents = 0\<rparr>]), ())"
    by (simp add: compat_ppoll_impl_def ppoll_signals_def ppoll_timeout_ms_def masked_poll_def)
  from compat_ppoll_counts [OF quiet_poll_counts e] show ?thesis by (simp add: e)
qed

end
