(* ===== verification/Signalfd_Ctx.thy ===== *)
theory Signalfd_Ctx
  imports Kqueue_Event Compat
begin

text \<open>
  \<open>src/signalfd_ctx.c\<close>: a descriptor that
  becomes readable when a signal of its set is pending, and from which the signal is read with
  \<open>sigtimedwait\<close>. The kqueue is readable because of \<open>EVFILT_SIGNAL\<close>, or because the code raised the
  flag of \<open>Kqueue_Event\<close> by hand when it found signals that had arrived before.
\<close>

section \<open>Signal sets\<close>

text \<open>\<open>__builtin_ffsll\<close>: one plus the index of the lowest bit, 0 for the empty word.\<close>

definition ffs :: "sigset \<Rightarrow> nat" where
  "ffs s = (case find (bit s) [0..<128] of None \<Rightarrow> 0 | Some i \<Rightarrow> Suc i)"

definition sigmask :: "nat \<Rightarrow> sigset" where
  "sigmask i = push_bit (i - 1) 1"

section \<open>State and operations\<close>

record SignalFDCtx =
  sfd_sigs :: sigset
  sfd_kqueue_event :: KQueueEvent

record SignalFDCtxSiginfo =
  ssi_signo :: "32 word"
  ssi_errno :: "32 word"
  ssi_code :: "32 word"
  ssi_pid :: "32 word"
  ssi_uid :: "32 word"
  ssi_fd :: "32 word"
  ssi_tid :: "32 word"
  ssi_band :: "32 word"
  ssi_overrun :: "32 word"
  ssi_trapno :: "32 word"
  ssi_status :: "32 word"
  ssi_int :: "32 word"
  ssi_ptr :: "64 word"
  ssi_utime :: "64 word"
  ssi_stime :: "64 word"
  ssi_addr :: "64 word"
  ssi_addr_lsb :: "16 word"

definition zero_ssi :: SignalFDCtxSiginfo where
  "zero_ssi =
     \<lparr>ssi_signo = 0, ssi_errno = 0, ssi_code = 0, ssi_pid = 0, ssi_uid = 0, ssi_fd = 0, ssi_tid = 0, ssi_band = 0,
      ssi_overrun = 0, ssi_trapno = 0, ssi_status = 0, ssi_int = 0, ssi_ptr = 0, ssi_utime = 0, ssi_stime = 0,
      ssi_addr = 0, ssi_addr_lsb = 0\<rparr>"

text \<open>The watched signals that are pending; the set is empty when \<open>has_pending\<close> is false.\<close>

definition signalfd_has_pending :: "'w platform \<Rightarrow> SignalFDCtx \<Rightarrow> 'w \<Rightarrow> (errno + sigset) \<times> 'w" where
  "signalfd_has_pending P s w =
     (case sys_sigpending P w of
        (Inl ec, w1) \<Rightarrow> (Inl ec, w1)
      | (Inr pending, w1) \<Rightarrow> (Inr (compat_sigandset pending (sfd_sigs s)), w1))"

definition signalfd_ctx_trigger_manually ::
  "'w platform \<Rightarrow> SignalFDCtx \<Rightarrow> int \<Rightarrow> 'w \<Rightarrow> (errno + unit) \<times> SignalFDCtx \<times> 'w" where
  "signalfd_ctx_trigger_manually P s kq w =
     (let (r, ke, w1) = kqueue_event_trigger P kq (sfd_kqueue_event s) w
      in (r, s\<lparr>sfd_kqueue_event := ke\<rparr>, w1))"

text \<open>
  The loop of \<open>signalfd_ctx_init\<close> over the signal numbers: the changes it collects, and the empty
  handlers it installs for the signals that are ignored by default.
\<close>

definition signal_kevs :: "'w platform \<Rightarrow> sigset \<Rightarrow> kevent list" where
  "signal_kevs P sigs =
     map (\<lambda>i. EV_SET (int i) EVFILT_SIGNAL EV_ADD 0 0 None)
       (filter (sigismember sigs) [1..<Suc (cfg_SIG_MAXSIG P)])"

definition install_handler :: "'w platform \<Rightarrow> nat \<Rightarrow> 'w \<Rightarrow> 'w" where
  "install_handler P i w =
     (if i \<in> set (cfg_default_ignored P)
      then (case sys_sigaction P i w of
              (Inl _, w1) \<Rightarrow> w1
            | (Inr sa, w1) \<Rightarrow>
                if \<not> has_bits (sa_flags sa) SA_SIGINFO \<and> sa_handler sa = SIG_DFL
                then sys_sigaction_set P i
                       \<lparr>sa_flags = sa_flags sa OR SA_RESTART, sa_handler = SIG_EMPTY_HANDLER\<rparr> w1
                else w1)
      else w)"

definition signalfd_ctx_init ::
  "'w platform \<Rightarrow> int \<Rightarrow> sigset \<Rightarrow> 'w \<Rightarrow> ((errno + SignalFDCtx) \<times> 'w) option" where
  "signalfd_ctx_init P kq sigs w = do {
     (r, ke, w1) \<leftarrow> kqueue_event_init P False w;
     (case r of
        Inl ec \<Rightarrow> Some (Inl ec, w1)
      | Inr kevs \<Rightarrow> do {
          let s = \<lparr>sfd_sigs = sigs, sfd_kqueue_event = ke\<rparr>;
          let w2 = fold (install_handler P) (filter (sigismember sigs) [1..<Suc (cfg_SIG_MAXSIG P)]) w1;
          c_assert (length (kevs @ signal_kevs P sigs) \<le> cfg_SIG_MAXSIG P + 2);
          (case sys_kevent P kq (kevs @ signal_kevs P sigs) 0 w2 of
             (Inl ec, w3) \<Rightarrow> Some (Inl ec, snd (kqueue_event_terminate P ke w3))
           | (Inr _, w3) \<Rightarrow>
               (case signalfd_has_pending P s w3 of
                  (Inl ec, w4) \<Rightarrow> Some (Inl ec, snd (kqueue_event_terminate P ke w4))
                | (Inr pending, w4) \<Rightarrow>
                    if compat_sigisemptyset pending then Some (Inr s, w4)
                    else (case signalfd_ctx_trigger_manually P s kq w4 of
                            (Inl ec, s1, w5) \<Rightarrow>
                              Some (Inl ec, snd (kqueue_event_terminate P (sfd_kqueue_event s1) w5))
                          | (Inr _, s1, w5) \<Rightarrow> Some (Inr s1, w5))))
        })
   }"

definition signalfd_ctx_terminate :: "'w platform \<Rightarrow> SignalFDCtx \<Rightarrow> 'w \<Rightarrow> (errno + unit) \<times> 'w" where
  "signalfd_ctx_terminate P s w = kqueue_event_terminate P (sfd_kqueue_event s) w"

text \<open>
  Fetching one signal. On OpenBSD and macOS the code looks at the pending signals first; on OpenBSD
  it then asks for the lowest of them only, and tries again when somebody else was faster.
\<close>

partial_function (option) fetch_pending_signal ::
  "'w platform \<Rightarrow> SignalFDCtx \<Rightarrow> 'w \<Rightarrow> ((errno + siginfo) \<times> 'w) option" where
  "fetch_pending_signal P s w =
     (case signalfd_has_pending P s w of
        (Inl ec, w1) \<Rightarrow> Some (Inl ec, w1)
      | (Inr pending, w1) \<Rightarrow>
          if compat_sigisemptyset pending then Some (Inl EAGAIN, w1)
          else if cfg_OpenBSD P
          then (case sys_thrsigdivert P (sigmask (ffs pending)) w1 of
                  (Inl ec, w2) \<Rightarrow>
                    if ec = EINVAL \<or> ec = EAGAIN then fetch_pending_signal P s w2 else Some (Inl ec, w2)
                | (Inr n, w2) \<Rightarrow> Some (Inr (zero_siginfo\<lparr>si_signo := n\<rparr>), w2))
          else (case sys_sigwait P (sfd_sigs s) w1 of
                  (Inl ec, w2) \<Rightarrow> Some (Inl ec, w2)
                | (Inr n, w2) \<Rightarrow> Some (Inr (zero_siginfo\<lparr>si_signo := n\<rparr>), w2)))"

definition fetch_signal ::
  "'w platform \<Rightarrow> SignalFDCtx \<Rightarrow> 'w \<Rightarrow> ((errno + siginfo) \<times> 'w) option" where
  "fetch_signal P s w =
     (if cfg_OpenBSD P \<or> cfg_APPLE P then fetch_pending_signal P s w
      else (case sys_sigtimedwait P (sfd_sigs s) w of
              (Inl ec, w1) \<Rightarrow> Some (Inl ec, w1)
            | (Inr (n, info), w1) \<Rightarrow> do { c_assert (si_signo info = n); Some (Inr info, w1) }))"

text \<open>Filling in the result; the fields not mentioned keep what the caller put there.\<close>

definition fill_siginfo :: "'w platform \<Rightarrow> siginfo \<Rightarrow> SignalFDCtxSiginfo \<Rightarrow> SignalFDCtxSiginfo" where
  "fill_siginfo P i o0 =
     (let o1 = o0\<lparr>ssi_signo := si_signo i, ssi_code := si_code i, ssi_errno := si_errno i,
            ssi_pid := si_pid i, ssi_uid := si_uid i, ssi_addr := si_addr i, ssi_status := si_status i\<rparr>;
          o2 = (if cfg_OpenBSD P then o1 else o1\<lparr>ssi_band := ucast (si_band i)\<rparr>);
          o3 = o2\<lparr>ssi_int := si_value_int i, ssi_ptr := si_value_ptr i, ssi_fd := - 1, ssi_tid := - 1\<rparr>
      in if cfg_FreeBSD P
         then (let o4 = o3\<lparr>ssi_trapno := si_trapno i, ssi_tid := si_timerid i, ssi_overrun := si_overrun i\<rparr>
               in if si_code i = SI_MESGQ then o4\<lparr>ssi_fd := si_mqd i\<rparr> else o4)
         else if cfg_NetBSD P
         then o3\<lparr>ssi_utime := si_utime i, ssi_stime := si_stime i, ssi_trapno := si_trapno i, ssi_fd := si_fd i\<rparr>
         else o3)"

definition signalfd_ctx_read_impl ::
  "'w platform \<Rightarrow> SignalFDCtx \<Rightarrow> SignalFDCtxSiginfo \<Rightarrow> 'w \<Rightarrow> ((errno + SignalFDCtxSiginfo) \<times> 'w) option" where
  "signalfd_ctx_read_impl P s out w = do {
     (r, w1) \<leftarrow> fetch_signal P s w;
     Some (case r of Inl ec \<Rightarrow> Inl ec | Inr i \<Rightarrow> Inr (fill_siginfo P i out), w1)
   }"

definition signalfd_ctx_clear_signal ::
  "'w platform \<Rightarrow> SignalFDCtx \<Rightarrow> int \<Rightarrow> bool \<Rightarrow> 'w \<Rightarrow> (bool \<times> SignalFDCtx \<times> 'w) option" where
  "signalfd_ctx_clear_signal P s kq was_triggered w =
     (let pending = (\<lambda>v. case signalfd_has_pending P s v of
                        (Inl _, v1) \<Rightarrow> (True, v1)
                      | (Inr p, v1) \<Rightarrow> (\<not> compat_sigisemptyset p, v1));
          (keep, w1) = (if was_triggered then pending w else (False, w))
      in if keep then Some (True, s, w1)
         else do {
           (ke, w2) \<leftarrow> kqueue_event_clear P kq (sfd_kqueue_event s) w1;
           let s1 = s\<lparr>sfd_kqueue_event := ke\<rparr>;
           (case pending w2 of
              (True, w3) \<Rightarrow>
                (let (r, s2, w4) = signalfd_ctx_trigger_manually P s1 kq w3 in Some (True, s2, w4))
            | (False, w3) \<Rightarrow> Some (False, s1, w3))
         })"

definition signalfd_ctx_read ::
  "'w platform \<Rightarrow> SignalFDCtx \<Rightarrow> int \<Rightarrow> SignalFDCtxSiginfo \<Rightarrow> 'w \<Rightarrow>
   ((errno + SignalFDCtxSiginfo) \<times> SignalFDCtx \<times> 'w) option" where
  "signalfd_ctx_read P s kq out w = do {
     (r, w1) \<leftarrow> signalfd_ctx_read_impl P s out w;
     if (case r of Inl ec \<Rightarrow> ec = EAGAIN \<or> ec = EWOULDBLOCK | Inr _ \<Rightarrow> True) then do {
       (_, s1, w2) \<leftarrow> signalfd_ctx_clear_signal P s kq False w1;
       Some (r, s1, w2)
     }
     else Some (r, s, w1)
   }"

text \<open>The caller's \<open>revents\<close> is \<open>None\<close> for a null pointer.\<close>

definition signalfd_ctx_poll ::
  "'w platform \<Rightarrow> SignalFDCtx \<Rightarrow> int \<Rightarrow> 32 word option \<Rightarrow> 'w \<Rightarrow>
   (32 word option \<times> SignalFDCtx \<times> 'w) option" where
  "signalfd_ctx_poll P s kq revents w = do {
     (pending, s1, w1) \<leftarrow> signalfd_ctx_clear_signal P s kq (revents \<noteq> None) w;
     Some (map_option (\<lambda>_. if pending then ucast POLLIN else 0) revents, s1, w1)
   }"

section \<open>Documented behaviour of signals\<close>

text \<open>
  \<open>pend w\<close> is the set of pending signals of a world. sigpending(2) returns it; sigtimedwait(2) with a
  zero timeout, sigwait(2) and their OpenBSD relative return a pending signal of the given set, and
  the first one fails with \<open>EAGAIN\<close> when there is none.
\<close>

definition takes_signal :: "(errno + 32 word) \<Rightarrow> sigset \<Rightarrow> bool" where
  "takes_signal r s \<longleftrightarrow>
     (case r of Inl ec \<Rightarrow> s = 0 \<and> ec = EAGAIN | Inr n \<Rightarrow> sigismember s (unat n))"

definition signals_ok :: "'w platform \<Rightarrow> ('w \<Rightarrow> sigset) \<Rightarrow> bool" where
  "signals_ok P pend \<longleftrightarrow>
     (\<forall>w. sys_sigpending P w = (Inr (pend w), w)) \<and>
     (\<forall>m w. case sys_sigtimedwait P m w of
        (Inl ec, _) \<Rightarrow> takes_signal (Inl ec) (pend w AND m)
      | (Inr (n, i), _) \<Rightarrow> si_signo i = n \<and> takes_signal (Inr n) (pend w AND m)) \<and>
     (\<forall>m w. pend w AND m \<noteq> 0 \<longrightarrow>
        takes_signal (fst (sys_sigwait P m w)) (pend w AND m) \<and>
        takes_signal (fst (sys_thrsigdivert P m w)) (pend w AND m))"

lemma find_bit_Some:
  assumes "(s :: sigset) \<noteq> 0" "n = 128"
  obtains i where "find (bit s) [0..<n] = Some i" "bit s i" "i < n"
proof -
  obtain j where j: "bit s j" using assms(1) by (auto simp: bit_eq_iff)
  then have "j < n" using bit_imp_le_length [of s j] assms(2) by simp
  then have "find (bit s) [0..<n] \<noteq> None" using j by (auto simp: find_None_iff)
  then obtain i where i: "find (bit s) [0..<n] = Some i" by blast
  then have "bit s i" "i < n" by (auto simp: find_Some_iff)
  then show thesis using that i by blast
qed

lemma ffs_member:
  assumes "s \<noteq> 0"
  shows "sigismember s (ffs s)" "0 < ffs s" "ffs s \<le> 128"
proof -
  obtain n where n: "n = (128 :: nat)" by simp
  obtain i where i: "find (bit s) [0..<n] = Some i" "bit s i" "i < n" by (rule find_bit_Some [OF assms n])
  then have "ffs s = Suc i" unfolding ffs_def n [symmetric] by simp
  then show "sigismember s (ffs s)" "0 < ffs s" "ffs s \<le> 128" using i n by (simp_all add: sigismember_def)
qed

lemma sigismember_and [simp]: "sigismember (a AND b) i \<longleftrightarrow> sigismember a i \<and> sigismember b i"
  by (auto simp: sigismember_def bit_and_iff)

lemma bit_sigmask: "bit (sigmask i) j \<longleftrightarrow> j < 128 \<and> i - 1 = j"
  by (auto simp: sigmask_def bit_exp_iff possible_bit_word)

lemma sigmask_and:
  assumes "sigismember s i"
  shows "s AND sigmask i \<noteq> 0"
proof -
  have "bit s (i - 1)" using assms by (simp add: sigismember_def)
  then have "bit (s AND sigmask i) (i - 1)"
    using bit_imp_le_length [of s "i - 1"] by (simp add: bit_and_iff bit_sigmask)
  then show ?thesis by auto
qed

lemma sigmask_member: "sigismember (sigmask i) j \<Longrightarrow> 0 < i \<Longrightarrow> j = i"
  by (auto simp: sigismember_def bit_sigmask)

lemma signals_okD:
  assumes "signals_ok P pend"
  shows "sys_sigpending P w = (Inr (pend w), w)"
    and "sys_sigtimedwait P m w = (Inl ec, w') \<Longrightarrow> takes_signal (Inl ec) (pend w AND m)"
    and "sys_sigtimedwait P m w = (Inr (n, i), w') \<Longrightarrow> si_signo i = n \<and> takes_signal (Inr n) (pend w AND m)"
    and "pend w AND m \<noteq> 0 \<Longrightarrow> takes_signal (fst (sys_sigwait P m w)) (pend w AND m)"
    and "pend w AND m \<noteq> 0 \<Longrightarrow> takes_signal (fst (sys_thrsigdivert P m w)) (pend w AND m)"
proof -
  note a = assms [unfolded signals_ok_def]
  show "sys_sigpending P w = (Inr (pend w), w)" using a by blast
  have t: "case sys_sigtimedwait P m w of
        (Inl ec, _) \<Rightarrow> takes_signal (Inl ec) (pend w AND m)
      | (Inr (n, i), _) \<Rightarrow> si_signo i = n \<and> takes_signal (Inr n) (pend w AND m)"
    by (rule a [THEN conjunct2, THEN conjunct1, THEN spec, THEN spec])
  show "takes_signal (Inl ec) (pend w AND m)" if "sys_sigtimedwait P m w = (Inl ec, w')" using t that by simp
  show "si_signo i = n \<and> takes_signal (Inr n) (pend w AND m)" if "sys_sigtimedwait P m w = (Inr (n, i), w')"
    using t that by simp
  show "takes_signal (fst (sys_sigwait P m w)) (pend w AND m)"
    "takes_signal (fst (sys_thrsigdivert P m w)) (pend w AND m)" if "pend w AND m \<noteq> 0" using a that by blast+
qed

lemma takes_signal_some:
  assumes "takes_signal (fst x) s" "s \<noteq> 0"
  obtains n v where "x = (Inr n, v)" "sigismember s (unat n)"
  using assms by (cases x) (auto simp: takes_signal_def split: sum.splits)

lemma fetch_signal_ok:
  assumes "signals_ok P pend"
  shows "\<exists>r w'. fetch_signal P s w = Some (r, w') \<and>
    takes_signal (case r of Inl ec \<Rightarrow> Inl ec | Inr i \<Rightarrow> Inr (si_signo i)) (pend w AND sfd_sigs s)"
proof -
  let ?p = "pend w AND sfd_sigs s"
  have h: "signalfd_has_pending P s w = (Inr ?p, w)"
    using signals_okD(1) [OF assms] by (simp add: signalfd_has_pending_def compat_sigandset_def)
  show ?thesis
  proof (cases "cfg_OpenBSD P \<or> cfg_APPLE P")
    case False
    obtain r v where r: "sys_sigtimedwait P (sfd_sigs s) w = (r, v)" by fastforce
    show ?thesis
    proof (cases r)
      case (Inl ec)
      then show ?thesis using False r signals_okD(2) [OF assms, of "sfd_sigs s" w ec v] by (simp add: fetch_signal_def)
    next
      case (Inr x)
      then obtain n i where "r = Inr (n, i)" by (cases x) simp
      then show ?thesis
        using False r signals_okD(3) [OF assms, of "sfd_sigs s" w n i v] by (simp add: fetch_signal_def)
    qed
  next
    case True
    show ?thesis
    proof (cases "?p = 0")
      case 0: True
      then show ?thesis
        using True h by (simp add: fetch_signal_def fetch_pending_signal.simps compat_sigisemptyset_def takes_signal_def)
    next
      case p: False
      note f = ffs_member [OF p]
      have m: "pend w AND sigmask (ffs ?p) \<noteq> 0" using sigmask_and f(1) by simp
      obtain n v where n: "sys_thrsigdivert P (sigmask (ffs ?p)) w = (Inr n, v)"
        "sigismember (pend w AND sigmask (ffs ?p)) (unat n)"
        by (rule takes_signal_some [OF signals_okD(5) [OF assms m] m])
      then have "unat n = ffs ?p" using sigmask_member f(2) by simp
      then have n2: "sigismember ?p (unat n)" using f(1) by simp
      obtain n' v' where n': "sys_sigwait P (sfd_sigs s) w = (Inr n', v')" "sigismember ?p (unat n')"
        by (rule takes_signal_some [OF signals_okD(4) [OF assms p] p])
      show ?thesis
        using True h p n(1) n2 n'
        by (cases "cfg_OpenBSD P")
          (simp_all add: fetch_signal_def fetch_pending_signal.simps compat_sigisemptyset_def takes_signal_def)
    qed
  qed
qed

section \<open>Clearing the flag\<close>

text \<open>
  The race the code guards against: signals may arrive while the kqueue is being drained, so they are
  looked for again in the world \<open>v\<close> after the drain.
\<close>

lemma clear_signal_rechecks:
  assumes "signals_ok P pend" and "kqueue_event_clear P kq (sfd_kqueue_event s) w = Some (ke, v)"
    and "wt \<longrightarrow> pend w AND sfd_sigs s = 0"
  shows "\<exists>b s' w'. signalfd_ctx_clear_signal P s kq wt w = Some (b, s', w') \<and>
    (b \<longleftrightarrow> pend v AND sfd_sigs s \<noteq> 0) \<and> sfd_sigs s' = sfd_sigs s \<and>
    (if b then kqueue_event_is_triggered (sfd_kqueue_event s') \<or> (\<exists>ec. fst (kqueue_event_trigger P kq ke v) = Inl ec)
     else \<not> kqueue_event_is_triggered (sfd_kqueue_event s') \<and> w' = v)"
proof -
  have h: "signalfd_has_pending P s' u = (Inr (pend u AND sfd_sigs s'), u)" for s' u
    using signals_okD(1) [OF assms(1)] by (simp add: signalfd_has_pending_def compat_sigandset_def)
  have off: "\<not> kqueue_event_is_triggered ke" using kqev.clear_reset [OF assms(2)] .
  obtain r ke' w' where t: "kqueue_event_trigger P kq ke v = (r, ke', w')" by (metis prod_cases3)
  then have "kqueue_event_is_triggered ke' \<or> (\<exists>ec. r = Inl ec)"
    using kqev.trigger_set [of P kq ke v _ ke' w'] by (cases r) auto
  then show ?thesis
    using assms(2,3) h off t
    by (cases "pend v AND sfd_sigs s = 0")
      (auto simp: signalfd_ctx_clear_signal_def signalfd_ctx_trigger_manually_def compat_sigisemptyset_def)
qed

section \<open>Properties\<close>

text \<open>A machine whose world is the set of pending signals.\<close>

definition take_lowest :: "sigset \<Rightarrow> sigset \<Rightarrow> (errno + 32 word) \<times> sigset" where
  "take_lowest m w = (if w AND m = 0 then (Inl EAGAIN, w) else (Inr (of_nat (ffs (w AND m))), w AND NOT (sigmask (ffs (w AND m)))))"

definition signal_platform :: "sigset platform" where
  "signal_platform = quiet_platform\<lparr>sys_sigpending := \<lambda>w. (Inr w, w),
     sys_sigtimedwait := \<lambda>m w. (case take_lowest m w of
        (Inl ec, w1) \<Rightarrow> (Inl ec, w1) | (Inr n, w1) \<Rightarrow> (Inr (n, zero_siginfo\<lparr>si_signo := n\<rparr>), w1)),
     sys_sigwait := take_lowest, sys_thrsigdivert := take_lowest\<rparr>"

lemma take_lowest_ok: "takes_signal (fst (take_lowest m w)) (w AND m)"
proof (cases "w AND m = 0")
  case False
  note f = ffs_member [OF False]
  have "unat (of_nat (ffs (w AND m)) :: 32 word) = ffs (w AND m)"
    using f(3) by (simp add: unat_of_nat take_bit_nat_eq_self)
  then show ?thesis using False f(1) by (simp add: take_lowest_def takes_signal_def)
qed (simp add: take_lowest_def takes_signal_def)

lemma signal_platform_ok: "signals_ok signal_platform (\<lambda>w. w)"
proof -
  have t: "takes_signal (fst (take_lowest m w)) (w AND m)" for m w by (rule take_lowest_ok)
  have "case case take_lowest m w of
        (Inl ec, w1) \<Rightarrow> (Inl ec, w1) | (Inr n, w1) \<Rightarrow> (Inr (n, zero_siginfo\<lparr>si_signo := n\<rparr>), w1) of
        (Inl ec, _) \<Rightarrow> takes_signal (Inl ec) (w AND m)
      | (Inr (n, i), _) \<Rightarrow> si_signo i = n \<and> takes_signal (Inr n) (w AND m)" for m w
    using t [of m w] by (auto split: prod.splits sum.splits)
  then show ?thesis using t by (simp add: signals_ok_def signal_platform_def)
qed

text \<open>C28: reading a signalfd takes exactly a pending signal of its set. When no watched signal is pending
  the read fails with \<open>EAGAIN\<close>; otherwise it returns, on every system, a signal that was pending and is
  in the set, and never another one. In both cases the code looks for further signals after it has
  drained the kqueue (world \<open>v\<close>): if there are any, the flag is raised again unless raising it fails,
  otherwise the descriptor is left unreadable.\<close>

theorem signalfd_read_takes_pending:
  assumes "signals_ok P pend" and "\<And>ke u. \<exists>ke' u'. kqueue_event_clear P kq ke u = Some (ke', u')"
  shows "\<exists>r s' w' f w1 ke v. signalfd_ctx_read P s kq out w = Some (r, s', w') \<and>
    fetch_signal P s w = Some (f, w1) \<and> kqueue_event_clear P kq (sfd_kqueue_event s) w1 = Some (ke, v) \<and>
    (case r of
       Inl ec \<Rightarrow> ec = EAGAIN \<and> pend w AND sfd_sigs s = 0
     | Inr o1 \<Rightarrow> sigismember (pend w AND sfd_sigs s) (unat (ssi_signo o1))) \<and>
    (if pend v AND sfd_sigs s \<noteq> 0
     then kqueue_event_is_triggered (sfd_kqueue_event s') \<or> (\<exists>ec. fst (kqueue_event_trigger P kq ke v) = Inl ec)
     else \<not> kqueue_event_is_triggered (sfd_kqueue_event s') \<and> w' = v)"
proof -
  obtain r w1 where f: "fetch_signal P s w = Some (r, w1)"
    and t: "takes_signal (case r of Inl ec \<Rightarrow> Inl ec | Inr i \<Rightarrow> Inr (si_signo i)) (pend w AND sfd_sigs s)"
    using fetch_signal_ok [OF assms(1)] by blast
  obtain ke v where c: "kqueue_event_clear P kq (sfd_kqueue_event s) w1 = Some (ke, v)" using assms(2) by blast
  obtain b s' w' where cl: "signalfd_ctx_clear_signal P s kq False w1 = Some (b, s', w')"
    and b: "b \<longleftrightarrow> pend v AND sfd_sigs s \<noteq> 0"
      "if b then kqueue_event_is_triggered (sfd_kqueue_event s') \<or> (\<exists>ec. fst (kqueue_event_trigger P kq ke v) = Inl ec)
       else \<not> kqueue_event_is_triggered (sfd_kqueue_event s') \<and> w' = v"
    using clear_signal_rechecks [OF assms(1) c, of False] by auto
  let ?r = "case r of Inl ec \<Rightarrow> Inl ec | Inr i \<Rightarrow> Inr (fill_siginfo P i out)"
  have signo: "ssi_signo (fill_siginfo P i out) = si_signo i" for i by (simp add: fill_siginfo_def Let_def)
  have "signalfd_ctx_read P s kq out w = Some (?r, s', w')"
    using f t cl by (cases r) (simp_all add: signalfd_ctx_read_def signalfd_ctx_read_impl_def takes_signal_def)
  moreover have "case ?r of Inl ec \<Rightarrow> ec = EAGAIN \<and> pend w AND sfd_sigs s = 0
     | Inr o1 \<Rightarrow> sigismember (pend w AND sfd_sigs s) (unat (ssi_signo o1))"
    using t by (cases r) (simp_all add: takes_signal_def signo)
  moreover have "if pend v AND sfd_sigs s \<noteq> 0
     then kqueue_event_is_triggered (sfd_kqueue_event s') \<or> (\<exists>ec. fst (kqueue_event_trigger P kq ke v) = Inl ec)
     else \<not> kqueue_event_is_triggered (sfd_kqueue_event s') \<and> w' = v"
    using b by simp
  ultimately show ?thesis using f c by blast
qed

theorem signalfd_read_takes_pending_witness:
  "\<exists>r s' w'. signalfd_ctx_read signal_platform \<lparr>sfd_sigs = 6, sfd_kqueue_event = \<lparr>is_triggered = False, kqe_self_pipe = (-1, -1)\<rparr>\<rparr>
     3 zero_ssi 12 = Some (r, s', w') \<and> (\<exists>o1. r = Inr o1 \<and> sigismember (12 AND 6) (unat (ssi_signo o1)))"
proof -
  have d: "drain_kq signal_platform 3 v = Some v" for v
    by (simp add: drain_kq.simps signal_platform_def)
  have "\<exists>ke' u'. kqueue_event_clear signal_platform 3 ke u = Some (ke', u')" for ke u
    using d [of u] by (simp add: kqueue_event_clear_def) (simp add: signal_platform_def)
  from signalfd_read_takes_pending [OF signal_platform_ok this,
      of "\<lparr>sfd_sigs = 6, sfd_kqueue_event = \<lparr>is_triggered = False, kqe_self_pipe = (-1, -1)\<rparr>\<rparr>" zero_ssi 12]
  show ?thesis by (fastforce split: sum.splits)
qed

text \<open>C29: polling a signalfd. Asked for its events, the descriptor reports readable exactly when a watched
  signal is pending, provided that none arrives while the kqueue is drained; when it reports nothing its
  flag is down, so that the next signal wakes the poller.\<close>

theorem signalfd_poll_exact:
  assumes "signals_ok P pend" "kqueue_event_clear P kq (sfd_kqueue_event s) w = Some (ke, v)" "pend v = pend w"
  shows "\<exists>s' w'. signalfd_ctx_poll P s kq (Some x) w =
      Some (Some (if pend w AND sfd_sigs s \<noteq> 0 then ucast POLLIN else 0), s', w') \<and>
    (pend w AND sfd_sigs s = 0 \<longrightarrow> \<not> kqueue_event_is_triggered (sfd_kqueue_event s'))"
proof (cases "pend w AND sfd_sigs s = 0")
  case True
  then show ?thesis
    using clear_signal_rechecks [OF assms(1,2), of True] assms(3) by (auto simp: signalfd_ctx_poll_def)
next
  case False
  have "signalfd_has_pending P s w = (Inr (pend w AND sfd_sigs s), w)"
    using signals_okD(1) [OF assms(1)] by (simp add: signalfd_has_pending_def compat_sigandset_def)
  then have "signalfd_ctx_clear_signal P s kq True w = Some (True, s, w)"
    using False by (simp add: signalfd_ctx_clear_signal_def compat_sigisemptyset_def)
  then show ?thesis using False by (simp add: signalfd_ctx_poll_def)
qed

theorem signalfd_poll_exact_witness:
  "\<exists>s' w'. signalfd_ctx_poll signal_platform
      \<lparr>sfd_sigs = 6, sfd_kqueue_event = \<lparr>is_triggered = True, kqe_self_pipe = (-1, -1)\<rparr>\<rparr> 3 (Some 0) 8 = Some (Some 0, s', w') \<and>
    \<not> kqueue_event_is_triggered (sfd_kqueue_event s')"
proof -
  have "drain_kq signal_platform 3 (8 :: sigset) = Some 8" by (simp add: drain_kq.simps signal_platform_def)
  then have "kqueue_event_clear signal_platform 3 \<lparr>is_triggered = True, kqe_self_pipe = (-1, -1)\<rparr> 8 =
      Some (\<lparr>is_triggered = False, kqe_self_pipe = (-1, -1)\<rparr>, 8)"
    by (simp add: kqueue_event_clear_def) (simp add: signal_platform_def)
  then show ?thesis
    using signalfd_poll_exact [OF signal_platform_ok, of 3
        "\<lparr>sfd_sigs = 6, sfd_kqueue_event = \<lparr>is_triggered = True, kqe_self_pipe = (-1, -1)\<rparr>\<rparr>" 8 _ 8 0] by auto
qed

text \<open>
  Creating a signalfd never writes past the array of \<open>_SIG_MAXSIG + 2\<close> kevents on the stack and always
  returns, for every signal set and whatever the system calls answer.
\<close>

lemma signalfd_init_total:
  "signalfd_ctx_init P kq sigs w \<noteq> None"
proof -
  have n: "length (signal_kevs P sigs) \<le> cfg_SIG_MAXSIG P"
    unfolding signal_kevs_def length_map
    using length_filter_le [of "sigismember sigs" "[1..<Suc (cfg_SIG_MAXSIG P)]"] unfolding length_upt by linarith
  have "\<exists>r ke w1. kqueue_event_init P False w = Some (r, ke, w1)"
    by (simp add: kqueue_event_init_def Let_def split: sum.splits prod.splits)
  then obtain r ke w1 where i: "kqueue_event_init P False w = Some (r, ke, w1)" by blast
  have k: "length kevs \<le> 1" if "r = Inr kevs" for kevs
    using i that by (auto simp: kqueue_event_init_def Let_def split: if_splits sum.splits prod.splits)
  show ?thesis
  proof (cases r)
    case (Inr kevs)
    then show ?thesis
      using i n k [OF Inr] unfolding signalfd_ctx_init_def
      by (simp add: Let_def del: upt_Suc split: prod.splits sum.splits)
  qed (simp add: signalfd_ctx_init_def i)
qed

end
