(* ===== verification/RWLock.thy ===== *)
theory RWLock
  imports Platform
begin

text \<open>
  The reader-writer lock of \<open>src/rwlock.c\<close> that guards the table of open descriptions. Every
  function is a transition function on the lock and the program point of the calling thread: one
  application is one atomic operation of the C11 memory model or one call on the mutex or a
  semaphore, and \<open>None\<close> says that the thread cannot move (it is blocked, or not inside that function).
  The threads run interleaved: a state is the lock and the list of program points, a step lets one
  thread do one transition.

  The theory shows mutual exclusion, that the counters stay within their bounds so that none of
  the 32-bit operations wraps, and that no wake-up is lost: when the threads inside the functions have
  run as far as they can and nobody holds the lock, all of them have left.
\<close>

section \<open>The lock and its transitions\<close>

definition MAX_READERS :: int where "MAX_READERS = 2 ^ 30"

text \<open>Arithmetic of \<open>int_fast32_t\<close>: atomic additions wrap.\<close>

definition i32 :: "int \<Rightarrow> int" where "i32 x = signed_take_bit 31 x"

record RWLock =
  rw_mutex :: "nat option"
  writer_wait :: nat
  reader_wait :: nat
  num_pending :: int
  readers_departing :: int

datatype rw_pc =
    Idle
  | RBlocked
  | Reading
  | RDeparting
  | RPosting
  | WAcquiring
  | WLocked
  | WCounted int
  | WBlocked
  | Writing
  | WWaking nat bool

definition fresh_rwlock :: RWLock where
  "fresh_rwlock =
     \<lparr>rw_mutex = None, writer_wait = 0, reader_wait = 0, num_pending = 0, readers_departing = 0\<rparr>"

text \<open>\<open>sem_wait_nointr\<close> repeats an interrupted \<open>sem_wait\<close>.\<close>

partial_function (option) sem_wait_nointr :: "'w platform \<Rightarrow> 'w \<Rightarrow> ((errno + unit) \<times> 'w) option" where
  "sem_wait_nointr P w =
     (case sys_sem_wait P w of
        (Inl ec, w1) \<Rightarrow> if ec = EINTR then sem_wait_nointr P w1 else Some (Inl ec, w1)
      | (Inr u, w1) \<Rightarrow> Some (Inr u, w1))"

definition rwlock_lock_read :: "RWLock \<Rightarrow> rw_pc \<Rightarrow> (RWLock \<times> rw_pc) option" where
  "rwlock_lock_read l pc =
     (case pc of
        Idle \<Rightarrow>
          Some (l\<lparr>num_pending := i32 (num_pending l + 1)\<rparr>,
                if num_pending l + 1 < 0 then RBlocked else Reading)
      | RBlocked \<Rightarrow>
          if reader_wait l > 0 then Some (l\<lparr>reader_wait := reader_wait l - 1\<rparr>, Reading) else None
      | _ \<Rightarrow> None)"

definition rwlock_unlock_read :: "RWLock \<Rightarrow> rw_pc \<Rightarrow> (RWLock \<times> rw_pc) option" where
  "rwlock_unlock_read l pc =
     (case pc of
        Reading \<Rightarrow>
          Some (l\<lparr>num_pending := i32 (num_pending l - 1)\<rparr>,
                if num_pending l - 1 < 0 then RDeparting else Idle)
      | RDeparting \<Rightarrow>
          Some (l\<lparr>readers_departing := i32 (readers_departing l - 1)\<rparr>,
                if readers_departing l - 1 = 0 then RPosting else Idle)
      | RPosting \<Rightarrow> Some (l\<lparr>writer_wait := writer_wait l + 1\<rparr>, Idle)
      | _ \<Rightarrow> None)"

definition rwlock_lock_write :: "nat \<Rightarrow> RWLock \<Rightarrow> rw_pc \<Rightarrow> (RWLock \<times> rw_pc) option" where
  "rwlock_lock_write tid l pc =
     (case pc of
        Idle \<Rightarrow> Some (l, WAcquiring)
      | WAcquiring \<Rightarrow> if rw_mutex l = None then Some (l\<lparr>rw_mutex := Some tid\<rparr>, WLocked) else None
      | WLocked \<Rightarrow>
          (let r = num_pending l
           in Some (l\<lparr>num_pending := i32 (r - MAX_READERS)\<rparr>, if r \<noteq> 0 then WCounted r else Writing))
      | WCounted r \<Rightarrow>
          Some (l\<lparr>readers_departing := i32 (readers_departing l + r)\<rparr>,
                if readers_departing l + r \<noteq> 0 then WBlocked else Writing)
      | WBlocked \<Rightarrow>
          if writer_wait l > 0 then Some (l\<lparr>writer_wait := writer_wait l - 1\<rparr>, Writing) else None
      | _ \<Rightarrow> None)"

definition rwlock_unlock_common :: "bool \<Rightarrow> RWLock \<Rightarrow> rw_pc \<Rightarrow> (RWLock \<times> rw_pc) option" where
  "rwlock_unlock_common keep_reading l pc =
     (let keep = (if keep_reading then 1 else 0)
      in (case pc of
            Writing \<Rightarrow>
              (let r = num_pending l + MAX_READERS + keep
               in Some (l\<lparr>num_pending := i32 (num_pending l + (MAX_READERS + keep))\<rparr>,
                        WWaking (nat (r - keep)) keep_reading))
          | WWaking k b \<Rightarrow>
              if b \<noteq> keep_reading then None
              else if k > 0 then Some (l\<lparr>reader_wait := reader_wait l + 1\<rparr>, WWaking (k - 1) b)
              else Some (l\<lparr>rw_mutex := None\<rparr>, if keep_reading then Reading else Idle)
          | _ \<Rightarrow> None))"

definition rwlock_unlock_write :: "RWLock \<Rightarrow> rw_pc \<Rightarrow> (RWLock \<times> rw_pc) option" where
  "rwlock_unlock_write = rwlock_unlock_common False"

definition rwlock_downgrade :: "RWLock \<Rightarrow> rw_pc \<Rightarrow> (RWLock \<times> rw_pc) option" where
  "rwlock_downgrade = rwlock_unlock_common True"

text \<open>Creating and destroying the lock, with the order in which a failure undoes what was created.\<close>

definition rwlock_init :: "'w platform \<Rightarrow> 'w \<Rightarrow> (errno + RWLock) \<times> 'w" where
  "rwlock_init P w =
     (case sys_mutex_init P w of
        (Inl ec, w1) \<Rightarrow> (Inl ec, w1)
      | (Inr _, w1) \<Rightarrow>
          (case sys_sem_init P w1 of
             (Inl ec, w2) \<Rightarrow> (Inl ec, snd (sys_mutex_destroy P w2))
           | (Inr _, w2) \<Rightarrow>
               (case sys_sem_init P w2 of
                  (Inl ec, w3) \<Rightarrow> (Inl ec, snd (sys_mutex_destroy P (sys_sem_destroy P w3)))
                | (Inr _, w3) \<Rightarrow> (Inr fresh_rwlock, w3))))"

definition rwlock_terminate :: "'w platform \<Rightarrow> 'w \<Rightarrow> 'w" where
  "rwlock_terminate P w = snd (sys_mutex_destroy P (sys_sem_destroy P (sys_sem_destroy P w)))"

section \<open>Interleaved threads\<close>

type_synonym rw_state = "RWLock \<times> rw_pc list"

text \<open>The transition of thread \<open>t\<close>: the function it is in, or any it may call.\<close>

definition rw_transition :: "nat \<Rightarrow> RWLock \<Rightarrow> rw_pc \<Rightarrow> RWLock \<times> rw_pc \<Rightarrow> bool" where
  "rw_transition t l pc r \<longleftrightarrow>
     rwlock_lock_read l pc = Some r \<or> rwlock_unlock_read l pc = Some r \<or>
     rwlock_lock_write t l pc = Some r \<or> rwlock_unlock_write l pc = Some r \<or> rwlock_downgrade l pc = Some r"

inductive rw_step :: "rw_state \<Rightarrow> rw_state \<Rightarrow> bool" where
  rw_step: "t < length ths \<Longrightarrow> rw_transition t l (ths ! t) (l', pc') \<Longrightarrow> rw_step (l, ths) (l', ths[t := pc'])"

inductive_cases rw_stepE: "rw_step (l, ths) s'"

inductive rw_reachable :: "nat \<Rightarrow> rw_state \<Rightarrow> bool" for n where
  rw_init: "rw_reachable n (fresh_rwlock, replicate n Idle)"
| rw_next: "rw_reachable n s \<Longrightarrow> rw_step s s' \<Longrightarrow> rw_reachable n s'"

section \<open>Counting threads\<close>

definition cnt :: "('a \<Rightarrow> bool) \<Rightarrow> 'a list \<Rightarrow> int" where
  "cnt p xs = int (length (filter p xs))"

lemma cnt_nonneg: "0 \<le> cnt p xs"
  by (simp add: cnt_def)

lemma cnt_replicate [simp]: "cnt p (replicate n x) = (if p x then int n else 0)"
  by (simp add: cnt_def filter_replicate)

lemma cnt_update:
  "i < length xs \<Longrightarrow> cnt p (xs[i := v]) = cnt p xs - of_bool (p (xs ! i)) + of_bool (p v)"
proof (induction xs arbitrary: i)
  case (Cons x xs)
  then show ?case by (cases i) (auto simp: cnt_def)
qed simp

lemma cnt_pos: "i < length xs \<Longrightarrow> p (xs ! i) \<Longrightarrow> cnt p xs \<ge> 1"
  by (auto simp: cnt_def intro!: Suc_leI length_pos_if_in_set [of "xs ! i"])

lemma cnt_posD: "cnt p xs > 0 \<Longrightarrow> \<exists>i < length xs. p (xs ! i)"
  by (auto simp: cnt_def length_greater_0_conv filter_empty_conv in_set_conv_nth)

lemma cnt_zeroD: "cnt p xs = 0 \<Longrightarrow> i < length xs \<Longrightarrow> \<not> p (xs ! i)"
  using cnt_pos [of i xs p] by auto

text \<open>The classes of program points.\<close>

primrec in_writer :: "rw_pc \<Rightarrow> bool" where
  "in_writer Idle = False"
| "in_writer RBlocked = False"
| "in_writer Reading = False"
| "in_writer RDeparting = False"
| "in_writer RPosting = False"
| "in_writer WAcquiring = False"
| "in_writer WLocked = True"
| "in_writer (WCounted r) = True"
| "in_writer WBlocked = True"
| "in_writer Writing = True"
| "in_writer (WWaking k b) = True"

abbreviation blocked :: "rw_pc list \<Rightarrow> int" where "blocked \<equiv> cnt (\<lambda>p. p = RBlocked)"
abbreviation reading :: "rw_pc list \<Rightarrow> int" where "reading \<equiv> cnt (\<lambda>p. p = Reading)"
abbreviation departing :: "rw_pc list \<Rightarrow> int" where "departing \<equiv> cnt (\<lambda>p. p = RDeparting)"
abbreviation posting :: "rw_pc list \<Rightarrow> int" where "posting \<equiv> cnt (\<lambda>p. p = RPosting)"
definition not_reader :: "rw_pc \<Rightarrow> bool" where
  "not_reader p \<longleftrightarrow> p \<notin> {RBlocked, Reading, RDeparting, RPosting}"

abbreviation others :: "rw_pc list \<Rightarrow> int" where "others \<equiv> cnt not_reader"

lemma cnt_total: "blocked xs + reading xs + departing xs + posting xs + others xs = int (length xs)"
  by (induction xs) (auto simp: cnt_def not_reader_def)

lemmas cnt_nonnegs = cnt_nonneg [of "\<lambda>p. p = RBlocked"] cnt_nonneg [of "\<lambda>p. p = Reading"]
  cnt_nonneg [of "\<lambda>p. p = RDeparting"] cnt_nonneg [of "\<lambda>p. p = RPosting"] cnt_nonneg [of not_reader]

section \<open>The invariant\<close>

text \<open>Nobody excludes readers: all blocked readers have a wake-up waiting for them.\<close>

definition open_phase :: "RWLock \<Rightarrow> rw_pc list \<Rightarrow> bool" where
  "open_phase l ths \<longleftrightarrow>
     num_pending l = blocked ths + reading ths \<and> int (reader_wait l) = blocked ths \<and>
     readers_departing l = 0 \<and> departing ths = 0 \<and> posting ths = 0 \<and> writer_wait l = 0"

text \<open>The readers a writer has to wait for: those that read, are about to, or have not signed off.\<close>

definition old_readers :: "RWLock \<Rightarrow> rw_pc list \<Rightarrow> int" where
  "old_readers l ths = reading ths + int (reader_wait l) + departing ths"

primrec writer_phase :: "rw_pc \<Rightarrow> RWLock \<Rightarrow> rw_pc list \<Rightarrow> bool" where
  "writer_phase Idle l ths = False"
| "writer_phase RBlocked l ths = False"
| "writer_phase Reading l ths = False"
| "writer_phase RDeparting l ths = False"
| "writer_phase RPosting l ths = False"
| "writer_phase WAcquiring l ths = False"
| "writer_phase WLocked l ths = open_phase l ths"
| "writer_phase (WCounted r) l ths \<longleftrightarrow>
     num_pending l = blocked ths + reading ths - MAX_READERS \<and> int (reader_wait l) \<le> blocked ths \<and>
     readers_departing l = old_readers l ths - r \<and> 0 < r \<and> r \<le> int (length ths) \<and>
     old_readers l ths \<le> r \<and> posting ths = 0 \<and> writer_wait l = 0"
| "writer_phase WBlocked l ths \<longleftrightarrow>
     num_pending l = blocked ths + reading ths - MAX_READERS \<and> int (reader_wait l) \<le> blocked ths \<and>
     readers_departing l = old_readers l ths \<and>
     posting ths + int (writer_wait l) = (if old_readers l ths = 0 then 1 else 0)"
| "writer_phase Writing l ths \<longleftrightarrow>
     num_pending l = blocked ths - MAX_READERS \<and> reading ths = 0 \<and> reader_wait l = 0 \<and>
     readers_departing l = 0 \<and> departing ths = 0 \<and> posting ths = 0 \<and> writer_wait l = 0"
| "writer_phase (WWaking k b) l ths \<longleftrightarrow>
     num_pending l = blocked ths + reading ths + of_bool b \<and> int (reader_wait l) + int k = blocked ths \<and>
     readers_departing l = 0 \<and> departing ths = 0 \<and> posting ths = 0 \<and> writer_wait l = 0"

definition rw_inv :: "rw_state \<Rightarrow> bool" where
  "rw_inv s \<longleftrightarrow>
     (case s of (l, ths) \<Rightarrow>
        (\<forall>t < length ths. in_writer (ths ! t) \<longleftrightarrow> rw_mutex l = Some t) \<and>
        (case rw_mutex l of
           None \<Rightarrow> open_phase l ths
         | Some h \<Rightarrow> h < length ths \<and> writer_phase (ths ! h) l ths))"

lemma i32_id: "- (2 ^ 31) \<le> x \<Longrightarrow> x < 2 ^ 31 \<Longrightarrow> i32 x = x"
  unfolding i32_def by (rule signed_take_bit_int_eq_self) simp_all

lemma open_phase_bounds:
  assumes "open_phase l ths"
  shows "0 \<le> num_pending l" "num_pending l \<le> int (length ths)" "readers_departing l = 0"
  using assms cnt_total [of ths] cnt_nonnegs [of ths] unfolding open_phase_def by simp_all

lemma writer_phase_bounds:
  assumes "writer_phase w l ths"
  shows "- MAX_READERS \<le> num_pending l \<and> num_pending l \<le> int (length ths) + 1 \<and>
    - int (length ths) \<le> readers_departing l \<and> readers_departing l \<le> int (length ths)"
proof -
  note n = cnt_nonnegs [of ths]
  have m: "0 < MAX_READERS" by (simp add: MAX_READERS_def)
  show ?thesis
    using assms n m cnt_total [of ths]
    by (cases w) (auto simp: open_phase_def old_readers_def)
qed

text \<open>The steps of a reader, from every phase.\<close>

lemma lock_read_keeps:
  assumes "rwlock_lock_read l (ths ! t) = Some (l', pc')" "t < length ths" "int (length ths) < MAX_READERS"
  shows "rw_mutex l' = rw_mutex l" "\<not> in_writer (ths ! t)" "\<not> in_writer pc'"
    and "open_phase l ths \<Longrightarrow> open_phase l' (ths[t := pc'])"
    and "writer_phase w l ths \<Longrightarrow> writer_phase w l' (ths[t := pc'])"
proof -
  have pc: "ths ! t = Idle \<or> ths ! t = RBlocked"
    using assms(1) by (auto simp: rwlock_lock_read_def split: rw_pc.splits)
  then show "rw_mutex l' = rw_mutex l" "\<not> in_writer (ths ! t)" "\<not> in_writer pc'"
    using assms(1) by (auto simp: rwlock_lock_read_def split: if_splits)
  note n = cnt_nonnegs [of ths]
  have m: "0 < MAX_READERS" "MAX_READERS = 2 ^ 30" by (simp_all add: MAX_READERS_def)
  note u = cnt_update [OF assms(2)]
  have idle: "others ths \<ge> 1" if "ths ! t = Idle" using cnt_pos [OF assms(2)] that by (simp add: not_reader_def)
  have np: "i32 (num_pending l + 1) = num_pending l + 1"
    if "- MAX_READERS \<le> num_pending l" "num_pending l \<le> int (length ths) + 1"
    using that m assms(3) by (intro i32_id) simp_all
  show "open_phase l' (ths[t := pc'])" if o: "open_phase l ths"
    using pc
  proof
    assume "ths ! t = Idle"
    then show ?thesis
      using o assms(1) np open_phase_bounds [OF o] m n
      by (auto simp: rwlock_lock_read_def open_phase_def u)
  next
    assume "ths ! t = RBlocked"
    then show ?thesis
      using o assms(1) by (auto simp: rwlock_lock_read_def open_phase_def u split: if_splits)
  qed
  show "writer_phase w l' (ths[t := pc'])" if o: "writer_phase w l ths"
    using pc
  proof
    assume a: "ths ! t = Idle"
    then show ?thesis
      using o assms(1,3) np writer_phase_bounds [OF o] m(1) n idle cnt_total [of ths]
      by (cases w) (auto simp: rwlock_lock_read_def open_phase_def old_readers_def u split: if_splits)
  next
    assume "ths ! t = RBlocked"
    then show ?thesis
      using o assms(1)
      by (cases w) (auto simp: rwlock_lock_read_def open_phase_def old_readers_def u split: if_splits)
  qed
qed

lemma unlock_read_keeps:
  assumes "rwlock_unlock_read l (ths ! t) = Some (l', pc')" "t < length ths" "int (length ths) < MAX_READERS"
  shows "rw_mutex l' = rw_mutex l" "\<not> in_writer (ths ! t)" "\<not> in_writer pc'"
    and "open_phase l ths \<Longrightarrow> open_phase l' (ths[t := pc'])"
    and "writer_phase w l ths \<Longrightarrow> writer_phase w l' (ths[t := pc'])"
proof -
  have pc: "ths ! t = Reading \<or> ths ! t = RDeparting \<or> ths ! t = RPosting"
    using assms(1) by (auto simp: rwlock_unlock_read_def split: rw_pc.splits)
  then show "rw_mutex l' = rw_mutex l" "\<not> in_writer (ths ! t)" "\<not> in_writer pc'"
    using assms(1) by (auto simp: rwlock_unlock_read_def split: if_splits)
  note n = cnt_nonnegs [of ths]
  have m: "0 < MAX_READERS" "MAX_READERS = 2 ^ 30" by (simp_all add: MAX_READERS_def)
  note u = cnt_update [OF assms(2)]
  have here: "cnt (\<lambda>p. p = ths ! t) ths \<ge> 1" by (rule cnt_pos [OF assms(2)]) simp
  have i: "i32 (x - 1) = x - 1" if "- MAX_READERS \<le> x" "x \<le> int (length ths) + 1" for x
    using that m assms(3) by (intro i32_id) simp_all
  show "open_phase l' (ths[t := pc'])" if o: "open_phase l ths"
    using pc
  proof (elim disjE)
    assume "ths ! t = Reading"
    then show ?thesis
      using o assms(1) i [of "num_pending l"] open_phase_bounds [OF o] m(1) n here
      by (auto simp: rwlock_unlock_read_def open_phase_def u)
  qed (use o here in \<open>simp_all add: open_phase_def\<close>)
  show "writer_phase w l' (ths[t := pc'])" if o: "writer_phase w l ths"
    using pc
  proof (elim disjE)
    assume "ths ! t = Reading"
    then show ?thesis
      using o assms(1,3) i [of "num_pending l"] writer_phase_bounds [OF o] m(1) n here cnt_total [of ths]
      by (cases w) (auto simp: rwlock_unlock_read_def open_phase_def old_readers_def u of_bool_def split: if_splits)
  next
    assume "ths ! t = RDeparting"
    then show ?thesis
      using o assms(1,3) i [of "readers_departing l"] writer_phase_bounds [OF o] m(1) n here
      by (cases w) (auto simp: rwlock_unlock_read_def open_phase_def old_readers_def u split: if_splits)
  next
    assume "ths ! t = RPosting"
    then show ?thesis
      using o assms(1) n here
      by (cases w) (auto simp: rwlock_unlock_read_def open_phase_def old_readers_def u split: if_splits)
  qed
qed

lemma rw_inv_reader:
  assumes "rw_inv (l, ths)" "t < length ths" "rw_mutex l' = rw_mutex l" "\<not> in_writer (ths ! t)" "\<not> in_writer pc'"
    and "open_phase l ths \<Longrightarrow> open_phase l' (ths[t := pc'])"
    and "\<And>w. writer_phase w l ths \<Longrightarrow> writer_phase w l' (ths[t := pc'])"
  shows "rw_inv (l', ths[t := pc'])"
proof -
  have w: "\<forall>u < length ths. in_writer (ths ! u) \<longleftrightarrow> rw_mutex l = Some u" using assms(1) by (simp add: rw_inv_def)
  then have "\<forall>u < length ths. in_writer (ths[t := pc'] ! u) \<longleftrightarrow> rw_mutex l' = Some u"
    using assms(2-5) by (auto simp: nth_list_update)
  moreover have "case rw_mutex l' of None \<Rightarrow> open_phase l' (ths[t := pc'])
      | Some h \<Rightarrow> h < length ths \<and> writer_phase (ths[t := pc'] ! h) l' (ths[t := pc'])"
  proof (cases "rw_mutex l")
    case None
    then show ?thesis using assms(1,3,6) by (simp add: rw_inv_def)
  next
    case (Some h)
    then have "h \<noteq> t" "h < length ths" "writer_phase (ths ! h) l ths"
      using assms(1,4) w by (auto simp: rw_inv_def)
    then show ?thesis using Some assms(3,7) by simp
  qed
  ultimately show ?thesis by (simp add: rw_inv_def split: option.splits)
qed

lemma rw_inv_writer:
  assumes "rw_inv (l, ths)" "t < length ths" "in_writer (ths ! t)"
  shows "rw_mutex l = Some t" "writer_phase (ths ! t) l ths"
  using assms by (auto simp: rw_inv_def)

lemma rw_inv_writerI:
  assumes "rw_inv (l, ths)" "t < length ths" "rw_mutex l = Some t \<or> rw_mutex l = None" "rw_mutex l' = Some t"
    and "in_writer pc'" "writer_phase pc' l' (ths[t := pc'])"
  shows "rw_inv (l', ths[t := pc'])"
proof -
  have "\<forall>u < length ths. in_writer (ths ! u) \<longleftrightarrow> rw_mutex l = Some u" using assms(1) by (simp add: rw_inv_def)
  then have "\<forall>u < length ths. in_writer (ths[t := pc'] ! u) \<longleftrightarrow> rw_mutex l' = Some u"
    using assms(2-5) by (auto simp: nth_list_update)
  then show ?thesis using assms(2,4,6) by (simp add: rw_inv_def)
qed

lemma lock_write_keeps:
  assumes "rwlock_lock_write t l (ths ! t) = Some (l', pc')" "t < length ths" "int (length ths) < MAX_READERS"
    and "rw_inv (l, ths)"
  shows "rw_inv (l', ths[t := pc'])"
proof -
  note n = cnt_nonnegs [of ths]
  note u = cnt_update [OF assms(2)]
  have m: "0 < MAX_READERS" "MAX_READERS = 2 ^ 30" by (simp_all add: MAX_READERS_def)
  have id: "i32 x = x" if "- MAX_READERS \<le> x" "x \<le> int (length ths) + 1" for x
    using that m assms(3) by (intro i32_id) simp_all
  show ?thesis
  proof (cases "in_writer (ths ! t)")
    case False
    then have pc: "ths ! t = Idle \<or> ths ! t = WAcquiring"
      using assms(1) by (auto simp: rwlock_lock_write_def split: rw_pc.splits)
    then show ?thesis
    proof
      assume i: "ths ! t = Idle"
      then have same: "cnt p (ths[t := WAcquiring]) = cnt p ths" if "p Idle = p WAcquiring" for p
        using that by (simp add: u)
      have "open_phase l (ths[t := WAcquiring])" if "open_phase l ths"
        using that by (simp add: open_phase_def same)
      moreover have "writer_phase w l (ths[t := WAcquiring])" if "writer_phase w l ths" for w
        using that by (cases w) (simp_all add: open_phase_def old_readers_def same)
      ultimately show ?thesis
        using rw_inv_reader [OF assms(4,2), of l' pc'] False i assms(1) by (simp add: rwlock_lock_write_def)
    next
      assume a: "ths ! t = WAcquiring"
      then have none: "rw_mutex l = None" "l' = l\<lparr>rw_mutex := Some t\<rparr>" "pc' = WLocked"
        using assms(1) by (auto simp: rwlock_lock_write_def split: if_splits)
      have "open_phase l ths" using assms(4) none by (simp add: rw_inv_def)
      then have "writer_phase pc' l' (ths[t := pc'])" using a none by (simp add: open_phase_def u)
      then show ?thesis using rw_inv_writerI [OF assms(4,2), of l' pc'] none by simp
    qed
  next
    case True
    note h = rw_inv_writer [OF assms(4,2) True]
    have "in_writer pc' \<and> rw_mutex l' = Some t \<and> writer_phase pc' l' (ths[t := pc'])"
      using assms(1,3) h(1,2) True
    proof (cases "ths ! t")
      case WLocked
      then have o: "open_phase l ths" using h(2) by simp
      have "i32 (num_pending l - MAX_READERS) = num_pending l - MAX_READERS"
        using open_phase_bounds [OF o] m by (intro id) simp_all
      then show ?thesis
        using WLocked o assms(1) h(1) open_phase_bounds [OF o] n
        by (auto simp: rwlock_lock_write_def open_phase_def old_readers_def u Let_def split: if_splits)
    next
      case (WCounted r)
      then have p: "writer_phase (WCounted r) l ths" using h(2) by simp
      have "i32 (readers_departing l + r) = readers_departing l + r"
        using p writer_phase_bounds [OF p] assms(3) n m
        by (intro id) (auto simp: old_readers_def)
      then show ?thesis
        using WCounted p assms(1) h(1) n
        by (auto simp: rwlock_lock_write_def old_readers_def u split: if_splits)
    next
      case WBlocked
      then have p: "writer_phase WBlocked l ths" using h(2) by simp
      then show ?thesis
        using WBlocked assms(1) h(1) n
        by (auto simp: rwlock_lock_write_def old_readers_def u split: if_splits)
    qed (simp_all add: rwlock_lock_write_def)
    then show ?thesis using rw_inv_writerI [OF assms(4,2), of l' pc'] h(1) by simp
  qed
qed

lemma unlock_common_keeps:
  assumes "rwlock_unlock_common keep l (ths ! t) = Some (l', pc')" "t < length ths" "int (length ths) < MAX_READERS"
    and "rw_inv (l, ths)"
  shows "rw_inv (l', ths[t := pc'])"
proof -
  note n = cnt_nonnegs [of ths]
  note u = cnt_update [OF assms(2)]
  have m: "0 < MAX_READERS" "MAX_READERS = 2 ^ 30" by (simp_all add: MAX_READERS_def)
  have True: "in_writer (ths ! t)"
    using assms(1) by (auto simp: rwlock_unlock_common_def Let_def split: rw_pc.splits)
  note h = rw_inv_writer [OF assms(4,2) True]
  consider "ths ! t = Writing" | k where "ths ! t = WWaking k keep" "k > 0" | "ths ! t = WWaking 0 keep"
    using assms(1) by (auto simp: rwlock_unlock_common_def Let_def split: rw_pc.splits if_splits)
  then show ?thesis
  proof cases
    case 1
    have p: "writer_phase Writing l ths" using h(2) 1 by simp
    then have "i32 (num_pending l + (MAX_READERS + of_bool keep)) = blocked ths + of_bool keep"
      using cnt_total [of ths] n assms(3) m by (subst i32_id) (auto simp: of_bool_def)
    then have "writer_phase pc' l' (ths[t := pc']) \<and> in_writer pc' \<and> rw_mutex l' = Some t"
      using p 1 assms(1) h(1) n
      by (auto simp: rwlock_unlock_common_def Let_def u of_bool_def split: if_splits)
    then show ?thesis using rw_inv_writerI [OF assms(4,2), of l' pc'] h(1) by simp
  next
    case (2 k)
    then have "writer_phase pc' l' (ths[t := pc']) \<and> in_writer pc' \<and> rw_mutex l' = Some t"
      using assms(1) h n by (auto simp: rwlock_unlock_common_def Let_def u of_nat_diff)
    then show ?thesis using rw_inv_writerI [OF assms(4,2), of l' pc'] h(1) by simp
  next
    case 3
    have "\<forall>v < length ths. in_writer (ths ! v) \<longleftrightarrow> v = t" using assms(4) h(1) by (auto simp: rw_inv_def)
    then have "\<forall>v < length ths. \<not> in_writer (ths[t := pc'] ! v)"
      using 3 assms(1,2) by (auto simp: rwlock_unlock_common_def Let_def nth_list_update split: if_splits)
    moreover have "open_phase l' (ths[t := pc'])" "rw_mutex l' = None"
      using 3 assms(1) h by (auto simp: rwlock_unlock_common_def Let_def open_phase_def u split: if_splits)
    ultimately show ?thesis by (simp add: rw_inv_def)
  qed
qed

lemma rw_inv_step:
  assumes "rw_step (l, ths) s'" "rw_inv (l, ths)" "int (length ths) < MAX_READERS"
  shows "rw_inv s' \<and> length (snd s') = length ths"
proof -
  obtain t l' pc' where t: "t < length ths" "rw_transition t l (ths ! t) (l', pc')" and s': "s' = (l', ths[t := pc'])"
    using assms(1) by (auto elim: rw_stepE)
  consider "rwlock_lock_read l (ths ! t) = Some (l', pc')" | "rwlock_unlock_read l (ths ! t) = Some (l', pc')"
    | "rwlock_lock_write t l (ths ! t) = Some (l', pc')" | b where "rwlock_unlock_common b l (ths ! t) = Some (l', pc')"
    using t(2) unfolding rw_transition_def rwlock_unlock_write_def rwlock_downgrade_def by blast
  then have "rw_inv (l', ths[t := pc'])"
  proof cases
    case 1
    note k = lock_read_keeps [OF 1 t(1) assms(3)]
    show ?thesis by (rule rw_inv_reader [OF assms(2) t(1) k(1-3)]) (use k in simp_all)
  next
    case 2
    note k = unlock_read_keeps [OF 2 t(1) assms(3)]
    show ?thesis by (rule rw_inv_reader [OF assms(2) t(1) k(1-3)]) (use k in simp_all)
  next
    case 3
    then show ?thesis using lock_write_keeps t(1) assms by blast
  next
    case 4
    then show ?thesis using unlock_common_keeps t(1) assms by blast
  qed
  then show ?thesis using s' by simp
qed

lemma rw_reachable_inv:
  assumes "rw_reachable n s" "int n < MAX_READERS"
  shows "rw_inv s \<and> length (snd s) = n"
  using assms(1)
proof induction
  case rw_init
  show ?case by (simp add: rw_inv_def open_phase_def fresh_rwlock_def)
next
  case (rw_next s s')
  obtain l ths where s: "s = (l, ths)" by fastforce
  with rw_next have "rw_inv (l, ths)" "length ths = n" "rw_step (l, ths) s'" by simp_all
  then show ?case using rw_inv_step [of l ths s'] assms(2) by simp
qed

section \<open>Progress\<close>

text \<open>A thread is inside one of the functions when it neither is outside nor holds the lock.\<close>

definition inside :: "rw_pc \<Rightarrow> bool" where
  "inside pc \<longleftrightarrow> pc \<noteq> Idle \<and> pc \<noteq> Reading \<and> pc \<noteq> Writing"

inductive rw_internal :: "rw_state \<Rightarrow> rw_state \<Rightarrow> bool" where
  rw_internal: "t < length ths \<Longrightarrow> inside (ths ! t) \<Longrightarrow> rw_transition t l (ths ! t) (l', pc') \<Longrightarrow>
    rw_internal (l, ths) (l', ths[t := pc'])"

primrec remaining :: "rw_pc \<Rightarrow> nat" where
  "remaining Idle = 0"
| "remaining RBlocked = 1"
| "remaining Reading = 0"
| "remaining RDeparting = 2"
| "remaining RPosting = 1"
| "remaining WAcquiring = 4"
| "remaining WLocked = 3"
| "remaining (WCounted r) = 2"
| "remaining WBlocked = 1"
| "remaining Writing = 0"
| "remaining (WWaking k b) = k + 1"

lemma transition_remaining:
  "rw_transition t l pc (l', pc') \<Longrightarrow> inside pc \<Longrightarrow> remaining pc' < remaining pc"
  by (cases pc)
    (auto simp: rw_transition_def inside_def rwlock_lock_read_def rwlock_unlock_read_def rwlock_lock_write_def
      rwlock_unlock_write_def rwlock_downgrade_def rwlock_unlock_common_def Let_def split: if_splits)

lemma sum_list_update_less:
  "t < length xs \<Longrightarrow> f v < f (xs ! t) \<Longrightarrow> sum_list (map f (xs[t := v])) < (sum_list (map f xs) :: nat)"
proof (induction xs arbitrary: t)
  case (Cons x xs)
  then show ?case by (cases t) auto
qed simp

lemma rw_internal_decreases:
  assumes "rw_internal s s'"
  shows "sum_list (map remaining (snd s')) < sum_list (map remaining (snd s))"
  using assms
proof cases
  case (rw_internal t ths l l' pc')
  then show ?thesis using sum_list_update_less [of t ths remaining pc'] transition_remaining by simp
qed

text \<open>When a thread inside a function can move on its own.\<close>

lemma transition_enabled:
  assumes "inside pc" "pc = RBlocked \<longrightarrow> reader_wait l > 0" "pc = WBlocked \<longrightarrow> writer_wait l > 0"
    and "pc = WAcquiring \<longrightarrow> rw_mutex l = None"
  shows "\<exists>l' pc'. rw_transition t l pc (l', pc')"
proof (cases pc)
  case (WWaking k b)
  then show ?thesis
    by (cases b; cases k)
      (auto simp: rw_transition_def rwlock_unlock_write_def rwlock_downgrade_def rwlock_unlock_common_def)
qed (use assms in \<open>auto simp: rw_transition_def inside_def rwlock_lock_read_def rwlock_unlock_read_def
    rwlock_lock_write_def Let_def\<close>)

lemma rw_inv_moves:
  assumes "rw_inv (l, ths)" "\<forall>pc \<in> set ths. pc \<noteq> Reading \<and> pc \<noteq> Writing" "t < length ths" "ths ! t \<noteq> Idle"
  shows "\<exists>u < length ths. inside (ths ! u) \<and> (ths ! u = RBlocked \<longrightarrow> reader_wait l > 0) \<and>
    (ths ! u = WBlocked \<longrightarrow> writer_wait l > 0) \<and> (ths ! u = WAcquiring \<longrightarrow> rw_mutex l = None)"
proof -
  have ins: "inside (ths ! u)" if "u < length ths" "ths ! u \<noteq> Idle" for u
    using assms(2) that nth_mem [OF that(1)] by (auto simp: inside_def)
  have r0: "reading ths = 0" using assms(2) by (auto simp: cnt_def filter_empty_conv)
  show ?thesis
  proof (cases "rw_mutex l")
    case None
    then have o: "open_phase l ths" and w: "\<not> in_writer (ths ! t)" using assms(1,3) by (auto simp: rw_inv_def)
    have "reader_wait l > 0" if "ths ! t = RBlocked"
      using o cnt_pos [OF assms(3), of "\<lambda>p. p = RBlocked"] that by (simp add: open_phase_def)
    then show ?thesis using assms(3,4) ins None w by (intro exI [of _ t]) auto
  next
    case (Some h)
    then have h: "h < length ths" "writer_phase (ths ! h) l ths" using assms(1) by (auto simp: rw_inv_def)
    then have ih: "inside (ths ! h)" "in_writer (ths ! h)" using ins [OF h(1)] by (cases "ths ! h"; simp)+
    show ?thesis
    proof (cases "ths ! h = WBlocked \<and> writer_wait l = 0")
      case False
      then show ?thesis using h ih by (intro exI [of _ h]) auto
    next
      case True
      then have p: "posting ths = (if old_readers l ths = 0 then 1 else 0)" "int (reader_wait l) \<le> blocked ths"
        using h(2) by auto
      have "posting ths > 0 \<or> departing ths > 0 \<or> reader_wait l > 0 \<and> blocked ths > 0"
      proof (cases "old_readers l ths = 0")
        case False
        then have "int (reader_wait l) + departing ths \<noteq> 0" using r0 by (simp add: old_readers_def)
        then show ?thesis using p(2) cnt_nonnegs [of ths] by linarith
      qed (use p in simp)
      then obtain u where "u < length ths" "ths ! u = RPosting \<or> ths ! u = RDeparting \<or>
          ths ! u = RBlocked \<and> reader_wait l > 0"
        using cnt_posD [of "\<lambda>p. p = RPosting" ths] cnt_posD [of "\<lambda>p. p = RDeparting" ths]
          cnt_posD [of "\<lambda>p. p = RBlocked" ths] by blast
      then show ?thesis using ins [of u] by (intro exI [of _ u]) auto
    qed
  qed
qed

section \<open>Properties\<close>

lemma rw_reachable_step:
  "rw_reachable n (l, ths) \<Longrightarrow> t < length ths \<Longrightarrow> rw_transition t l (ths ! t) (l', pc') \<Longrightarrow> ths' = ths[t := pc'] \<Longrightarrow>
   rw_reachable n (l', ths')"
  using rw_next rw_step by blast

text \<open>A run of two threads to the state in which the first writes and the second waits to read.\<close>

definition demo_lock :: RWLock where
  "demo_lock = fresh_rwlock\<lparr>rw_mutex := Some 0, num_pending := 1 - MAX_READERS\<rparr>"

lemma demo_lock_reachable: "rw_reachable 2 (demo_lock, [Writing, RBlocked])"
proof -
  note defs = rw_transition_def rwlock_lock_write_def rwlock_lock_read_def fresh_rwlock_def demo_lock_def
    MAX_READERS_def i32_id
  have "rw_reachable 2 (fresh_rwlock, [Idle, Idle])"
    using rw_init [of 2] by (simp add: numeral_2_eq_2)
  then have "rw_reachable 2 (fresh_rwlock, [WAcquiring, Idle])"
    by (rule rw_reachable_step [where t = 0]) (simp_all add: defs)
  then have "rw_reachable 2 (fresh_rwlock\<lparr>rw_mutex := Some 0\<rparr>, [WLocked, Idle])"
    by (rule rw_reachable_step [where t = 0]) (simp_all add: defs)
  then have "rw_reachable 2 (fresh_rwlock\<lparr>rw_mutex := Some 0, num_pending := - MAX_READERS\<rparr>, [Writing, Idle])"
    by (rule rw_reachable_step [where t = 0]) (simp_all add: defs)
  then show ?thesis
    by (rule rw_reachable_step [where t = 1]) (simp_all add: defs)
qed

text \<open>C24: mutual exclusion. In every interleaving of fewer than \<open>2 ^ 30\<close> threads, while one thread is in
  its write section no other thread is in a write or a read section.\<close>

theorem rwlock_mutual_exclusion:
  assumes "rw_reachable n (l, ths)" "int n < MAX_READERS"
    and "t < n" "ths ! t = Writing" "u < n" "u \<noteq> t"
  shows "ths ! u \<noteq> Writing \<and> ths ! u \<noteq> Reading"
proof -
  have inv: "rw_inv (l, ths)" and len: "length ths = n" using rw_reachable_inv [OF assms(1,2)] by simp_all
  note h = rw_inv_writer [OF inv, of t]
  have m: "rw_mutex l = Some t" "writer_phase Writing l ths" using h assms(3,4) len by simp_all
  have "\<not> in_writer (ths ! u)" using inv m(1) assms(5,6) len by (auto simp: rw_inv_def)
  moreover have "ths ! u \<noteq> Reading" using cnt_zeroD [of "\<lambda>p. p = Reading" ths u] m(2) assms(5) len by simp
  ultimately show ?thesis by auto
qed

theorem rwlock_mutual_exclusion_witness:
  "[Writing, RBlocked] ! 1 \<noteq> Writing \<and> [Writing, RBlocked] ! 1 \<noteq> Reading \<and>
   rw_reachable 2 (demo_lock, [Writing, RBlocked])"
  using rwlock_mutual_exclusion [OF demo_lock_reachable, of 0 1] demo_lock_reachable
  by (simp add: MAX_READERS_def)

text \<open>C26: the counters of the lock stay within their types: \<open>num_pending\<close> and \<open>readers_departing\<close> never
  leave the range of a 32-bit integer, so that no atomic operation on them wraps, and the semaphores
  never hold more wake-ups than there are threads.\<close>

theorem rwlock_counters_bounded:
  assumes "rw_reachable n (l, ths)" "int n < MAX_READERS"
  shows "- MAX_READERS \<le> num_pending l \<and> num_pending l \<le> int n + 1 \<and>
    \<bar>readers_departing l\<bar> \<le> int n \<and> writer_wait l \<le> 1 \<and> reader_wait l \<le> n"
proof -
  have inv: "rw_inv (l, ths)" and len: "length ths = n" using rw_reachable_inv [OF assms] by simp_all
  note n = cnt_nonnegs [of ths] cnt_total [of ths]
  show ?thesis
  proof (cases "rw_mutex l")
    case None
    then have o: "open_phase l ths" using inv by (simp add: rw_inv_def)
    then have "int (reader_wait l) \<le> int n" using n len by (simp add: open_phase_def)
    then show ?thesis
      using o open_phase_bounds [OF o] len by (simp add: open_phase_def MAX_READERS_def)
  next
    case (Some h)
    then have p: "writer_phase (ths ! h) l ths" using inv by (simp add: rw_inv_def)
    then have "writer_wait l \<le> 1 \<and> int (reader_wait l) \<le> int n"
      using n len by (cases "ths ! h") (auto simp: open_phase_def split: if_splits)
    then show ?thesis using writer_phase_bounds [OF p] len by (simp add: abs_le_iff)
  qed
qed

theorem rwlock_counters_bounded_witness:
  "- MAX_READERS \<le> num_pending demo_lock \<and> num_pending demo_lock \<le> 3"
  using rwlock_counters_bounded [OF demo_lock_reachable] by (simp add: MAX_READERS_def)


text \<open>C25: no wake-up is lost. When nobody is in a read or write section and no thread inside a function of
  the lock can move, then no thread is inside: nobody stays blocked on a lock that is free.\<close>

theorem rwlock_no_lost_wakeup:
  assumes "rw_reachable n (l, ths)" "int n < MAX_READERS"
    and "\<forall>pc \<in> set ths. pc \<noteq> Reading \<and> pc \<noteq> Writing" and "\<nexists>s'. rw_internal (l, ths) s'"
  shows "ths = replicate n Idle"
proof -
  have inv: "rw_inv (l, ths)" and len: "length ths = n" using rw_reachable_inv [OF assms(1,2)] by simp_all
  have "ths ! t = Idle" if t: "t < length ths" for t
  proof (rule ccontr)
    assume "ths ! t \<noteq> Idle"
    then obtain u where u: "u < length ths" "inside (ths ! u)"
      and "\<exists>l' pc'. rw_transition u l (ths ! u) (l', pc')"
      using rw_inv_moves [OF inv assms(3) t] transition_enabled by blast
    then show False using assms(4) rw_internal by blast
  qed
  then show ?thesis using len by (auto intro: nth_equalityI)
qed

theorem rwlock_no_lost_wakeup_witness:
  "[Idle, Idle] = replicate 2 Idle \<and> rw_reachable 2 (fresh_rwlock, replicate 2 Idle)"
proof -
  have "\<nexists>s'. rw_internal (fresh_rwlock, replicate 2 Idle) s'"
    by (auto simp: inside_def elim: rw_internal.cases)
  with rwlock_no_lost_wakeup [OF rw_init [of 2]] show ?thesis
    using rw_init [of 2] by (simp add: MAX_READERS_def numeral_2_eq_2)
qed

end
