(* ===== verification/File_Desc.thy ===== *)
theory File_Desc
  imports Epollfd_Ctx Eventfd_Ctx Timerfd_Ctx Signalfd_Ctx RWLock
begin

text \<open>
  The open file descriptions of \<open>src/epoll_shim_ctx.c\<close> (its first part): reference counting, destruction
  through the table of virtual functions, the monitoring of real-time clock steps, and the view of a
  description as a \<open>PollableDesc\<close>.

  The descriptions live in a store indexed by their addresses, inside the record \<open>EpollShimCtx\<close> of the
  library's shared state; \<open>None\<close> is the result of touching a description that has been freed. A call is
  modelled as it runs in one thread: a mutex or the reader-writer lock that the thread would wait for
  while holding it itself is \<open>None\<close>, too. What other threads do to the shared state happens at the points
  where a thread waits, as a parameter of the operations that wait.
\<close>

section \<open>State\<close>

datatype fd_ctx =
    Ctx_none
  | Ctx_epollfd EpollFDCtx
  | Ctx_eventfd EventFDCtx
  | Ctx_timerfd TimerFDCtx
  | Ctx_signalfd SignalFDCtx

text \<open>A vtable is known by its address; the functions in it are those of the four source files.\<close>

datatype vtable = epollfd_vtable | eventfd_vtable | timerfd_vtable | signalfd_vtable

record FileDescription =
  refcount :: int
  desc_locked :: bool
  desc_flags :: "32 word"
  desc_ctx :: fd_ctx
  desc_vtable :: "vtable option"

datatype lock_mode = Unlocked | ReadLocked | WriteLocked

text \<open>
  The global context. \<open>open_files\<close> has length \<open>open_files_length\<close>; \<open>shim_lock\<close> is the mode in which the
  running thread holds \<open>rwlock\<close>; \<open>init_error\<close> is \<open>epoll_shim_ctx_init_error\<close>; \<open>descs\<close> is the store of
  descriptions; \<open>crashed\<close> records an assertion that failed inside a callback.
\<close>

record EpollShimCtx =
  open_files :: "addr option list"
  shim_lock :: lock_mode
  nr_fds_for_realtime_step_detector :: "64 word"
  realtime_step_detector_generation :: "64 word"
  init_error :: errno
  descs :: "addr \<rightharpoonup> FileDescription"
  crashed :: bool

definition set_desc :: "addr \<Rightarrow> FileDescription \<Rightarrow> EpollShimCtx \<Rightarrow> EpollShimCtx" where
  "set_desc a d S = S\<lparr>descs := (descs S)(a \<mapsto> d)\<rparr>"

section \<open>Reference counts\<close>

definition file_description_init :: "'w platform \<Rightarrow> 'w \<Rightarrow> (errno + FileDescription) \<times> 'w" where
  "file_description_init P w =
     (case sys_mutex_init P w of
        (Inl ec, w1) \<Rightarrow> (Inl ec, w1)
      | (Inr _, w1) \<Rightarrow>
          (Inr \<lparr>refcount = 1, desc_locked = False, desc_flags = 0, desc_ctx = Ctx_none, desc_vtable = None\<rparr>, w1))"

definition file_description_create ::
  "'w platform \<Rightarrow> EpollShimCtx \<Rightarrow> 'w \<Rightarrow> (errno + addr) \<times> EpollShimCtx \<times> 'w" where
  "file_description_create P S w =
     (case sys_malloc P w of
        (Inl ec, w1) \<Rightarrow> (Inl ec, S, w1)
      | (Inr a, w1) \<Rightarrow>
          (case file_description_init P w1 of
             (Inl ec, w2) \<Rightarrow> (Inl ec, S, sys_free P a w2)
           | (Inr d, w2) \<Rightarrow> (Inr a, set_desc a d S, w2)))"

definition file_description_ref :: "EpollShimCtx \<Rightarrow> addr \<Rightarrow> EpollShimCtx option" where
  "file_description_ref S a = do {
     d \<leftarrow> descs S a;
     c_assert (refcount d > 0);
     Some (set_desc a (d\<lparr>refcount := refcount d + 1\<rparr>) S)
   }"

type_synonym 'w closer =
  "EpollShimCtx \<Rightarrow> FileDescription \<Rightarrow> 'w \<Rightarrow> ((errno + unit) \<times> EpollShimCtx \<times> 'w) option"

text \<open>The first error of two.\<close>

definition first_error :: "errno + unit \<Rightarrow> errno + unit \<Rightarrow> errno + unit" where
  "first_error r s = (case r of Inl ec \<Rightarrow> Inl ec | Inr _ \<Rightarrow> s)"

definition file_description_terminate ::
  "'w closer \<Rightarrow> 'w platform \<Rightarrow> EpollShimCtx \<Rightarrow> FileDescription \<Rightarrow> 'w \<Rightarrow>
   ((errno + unit) \<times> EpollShimCtx \<times> 'w) option" where
  "file_description_terminate close_fun P S d w = do {
     (r, S1, w1) \<leftarrow> (if desc_vtable d = None then Some (Inr (), S, w) else close_fun S d w);
     let (r2, w2) = sys_mutex_destroy P w1;
     Some (first_error r r2, S1, w2)
   }"

definition file_description_destroy ::
  "'w closer \<Rightarrow> 'w platform \<Rightarrow> EpollShimCtx \<Rightarrow> addr \<Rightarrow> 'w \<Rightarrow> ((errno + unit) \<times> EpollShimCtx \<times> 'w) option" where
  "file_description_destroy close_fun P S a w = do {
     d \<leftarrow> descs S a;
     (r, S1, w1) \<leftarrow> file_description_terminate close_fun P S d w;
     Some (r, S1\<lparr>descs := (descs S1)(a := None)\<rparr>, sys_free P a w1)
   }"

definition file_description_unref_with ::
  "'w closer \<Rightarrow> 'w platform \<Rightarrow> EpollShimCtx \<Rightarrow> addr \<Rightarrow> 'w \<Rightarrow> ((errno + unit) \<times> EpollShimCtx \<times> 'w) option" where
  "file_description_unref_with close_fun P S a w = do {
     d \<leftarrow> descs S a;
     c_assert (refcount d > 0);
     let S1 = set_desc a (d\<lparr>refcount := refcount d - 1\<rparr>) S;
     if refcount d = 1 then file_description_destroy close_fun P S1 a w else Some (Inr (), S1, w)
   }"

section \<open>Monitoring steps of the real-time clock\<close>

definition epoll_shim_ctx_start_realtime_step_detection ::
  "'w platform \<Rightarrow> EpollShimCtx \<Rightarrow> 'w \<Rightarrow> (errno + unit) \<times> 'w" where
  "epoll_shim_ctx_start_realtime_step_detection P S w =
     (case timerfd_ctx_get_monotonic_offset P w of
        (Inl ec, w1) \<Rightarrow> (Inl ec, w1)
      | (Inr offset, w1) \<Rightarrow>
          (case sys_sigfillset P w1 of
             (Inl ec, w2) \<Rightarrow> (Inl ec, w2)
           | (Inr all_sigs, w2) \<Rightarrow>
               (case sys_sigmask_block P all_sigs w2 of
                  (Inl ec, w3) \<Rightarrow> (Inl ec, w3)
                | (Inr oldset, w3) \<Rightarrow>
                    (let (r, w4) =
                       (case sys_malloc P w3 of
                          (Inl ec, v) \<Rightarrow> (Inl ec, v)
                        | (Inr args, v) \<Rightarrow>
                            (case sys_thread_create P (realtime_step_detector_generation S) offset v of
                               (Inl ec, v1) \<Rightarrow> (Inl ec, sys_free P args v1)
                             | (Inr _, v1) \<Rightarrow> (Inr (), v1)))
                     in (r, snd (sys_sigmask_set P oldset w4))))))"

definition epoll_shim_ctx_update_realtime_change_monitoring ::
  "'w platform \<Rightarrow> EpollShimCtx \<Rightarrow> int \<Rightarrow> 'w \<Rightarrow> (EpollShimCtx \<times> 'w) option" where
  "epoll_shim_ctx_update_realtime_change_monitoring P S change w =
     (if change = 0 then Some (S, w)
      else
        (let old_nr_fds = nr_fds_for_realtime_step_detector S
         in if change < 0
            then do {
              c_assert (old_nr_fds \<ge> word_of_int (- change));
              let S1 = S\<lparr>nr_fds_for_realtime_step_detector := old_nr_fds - word_of_int (- change)\<rparr>;
              Some (if nr_fds_for_realtime_step_detector S1 = 0
                    then S1\<lparr>realtime_step_detector_generation := realtime_step_detector_generation S1 + 1\<rparr>
                    else S1, w)
            }
            else
              (let S1 = S\<lparr>nr_fds_for_realtime_step_detector := old_nr_fds + word_of_int change\<rparr>
               in Some (S1, if old_nr_fds = 0
                            then snd (epoll_shim_ctx_start_realtime_step_detection P S1 w) else w))))"

section \<open>Closing\<close>

definition epoll_shim_ctx_global :: "EpollShimCtx \<Rightarrow> errno + unit" where
  "epoll_shim_ctx_global S = (if init_error S \<noteq> 0 then Inl (init_error S) else Inr ())"

text \<open>Can the timer be affected by a step of the real-time clock?\<close>

definition timer_can_jump :: "TimerFDCtx \<Rightarrow> int" where
  "timer_can_jump t = (if timer_clockid t = CLOCK_REALTIME \<and> is_abstime t then 1 else 0)"

definition timerfd_close :: "'w platform \<Rightarrow> EpollShimCtx \<Rightarrow> TimerFDCtx \<Rightarrow> 'w \<Rightarrow> ((errno + unit) \<times> EpollShimCtx \<times> 'w) option" where
  "timerfd_close P S t w = do {
     c_assert (epoll_shim_ctx_global S = Inr ());
     (S1, w1) \<leftarrow> epoll_shim_ctx_update_realtime_change_monitoring P S (- timer_can_jump t) w;
     Some (Inr (), S1, w1)
   }"

definition eventfd_close :: "'w platform \<Rightarrow> EventFDCtx \<Rightarrow> 'w \<Rightarrow> (errno + unit) \<times> 'w" where
  "eventfd_close P e w = eventfd_ctx_terminate P e w"

definition signalfd_close :: "'w platform \<Rightarrow> SignalFDCtx \<Rightarrow> 'w \<Rightarrow> (errno + unit) \<times> 'w" where
  "signalfd_close P s w = signalfd_ctx_terminate P s w"

text \<open>\<open>close_fun\<close> of the descriptions that hold no other ones.\<close>

definition leaf_close :: "'w platform \<Rightarrow> 'w closer" where
  "leaf_close P S d w =
     (case (desc_vtable d, desc_ctx d) of
        (Some eventfd_vtable, Ctx_eventfd e) \<Rightarrow> (let (r, w1) = eventfd_close P e w in Some (r, S, w1))
      | (Some timerfd_vtable, Ctx_timerfd t) \<Rightarrow> timerfd_close P S t w
      | (Some signalfd_vtable, Ctx_signalfd s) \<Rightarrow> (let (r, w1) = signalfd_close P s w in Some (r, S, w1))
      | _ \<Rightarrow> None)"

section \<open>Descriptions as pollable objects\<close>

text \<open>A lock that the thread already holds is a deadlock.\<close>

definition lock_desc :: "EpollShimCtx \<Rightarrow> addr \<Rightarrow> (FileDescription \<times> EpollShimCtx) option" where
  "lock_desc S a = do {
     d \<leftarrow> descs S a;
     c_assert (\<not> desc_locked d);
     Some (d\<lparr>desc_locked := True\<rparr>, set_desc a (d\<lparr>desc_locked := True\<rparr>) S)
   }"

definition unlock_desc :: "EpollShimCtx \<Rightarrow> addr \<Rightarrow> EpollShimCtx option" where
  "unlock_desc S a = do {
     d \<leftarrow> descs S a;
     c_assert (desc_locked d);
     Some (set_desc a (d\<lparr>desc_locked := False\<rparr>) S)
   }"

text \<open>\<open>poll_fun\<close>: only timers and signals have one. Events are \<open>None\<close> for a null pointer.\<close>

definition has_poll_fun :: "FileDescription \<Rightarrow> bool" where
  "has_poll_fun d \<longleftrightarrow> desc_vtable d = Some timerfd_vtable \<or> desc_vtable d = Some signalfd_vtable"

definition timerfd_poll ::
  "'w platform \<Rightarrow> EpollShimCtx \<Rightarrow> addr \<Rightarrow> int \<Rightarrow> 32 word option \<Rightarrow> 'w \<Rightarrow> (32 word option \<times> EpollShimCtx \<times> 'w) option" where
  "timerfd_poll P S a kq rv w = do {
     (d, S1) \<leftarrow> lock_desc S a;
     (case desc_ctx d of
        Ctx_timerfd t \<Rightarrow> do {
          (r, t1, w1) \<leftarrow> timerfd_ctx_poll P t kq rv w;
          S2 \<leftarrow> unlock_desc (set_desc a (d\<lparr>desc_ctx := Ctx_timerfd t1\<rparr>) S1) a;
          Some (r, S2, w1)
        }
      | _ \<Rightarrow> None)
   }"

definition signalfd_poll ::
  "'w platform \<Rightarrow> EpollShimCtx \<Rightarrow> addr \<Rightarrow> int \<Rightarrow> 32 word option \<Rightarrow> 'w \<Rightarrow> (32 word option \<times> EpollShimCtx \<times> 'w) option" where
  "signalfd_poll P S a kq rv w = do {
     (d, S1) \<leftarrow> lock_desc S a;
     (case desc_ctx d of
        Ctx_signalfd s \<Rightarrow> do {
          (r, s1, w1) \<leftarrow> signalfd_ctx_poll P s kq rv w;
          S2 \<leftarrow> unlock_desc (set_desc a (d\<lparr>desc_ctx := Ctx_signalfd s1\<rparr>) S1) a;
          Some (r, S2, w1)
        }
      | _ \<Rightarrow> None)
   }"

definition fd_poll ::
  "'w platform \<Rightarrow> EpollShimCtx \<Rightarrow> addr \<Rightarrow> int \<Rightarrow> 32 word option \<Rightarrow> 'w \<Rightarrow> (32 word option \<times> EpollShimCtx \<times> 'w) option" where
  "fd_poll P S a fd rv w = do {
     d \<leftarrow> descs S a;
     (case desc_vtable d of
        Some timerfd_vtable \<Rightarrow> timerfd_poll P S a fd rv w
      | Some signalfd_vtable \<Rightarrow> signalfd_poll P S a fd rv w
      | _ \<Rightarrow> None)
   }"

definition fd_ref :: "EpollShimCtx \<Rightarrow> addr \<Rightarrow> EpollShimCtx option" where
  "fd_ref = file_description_ref"

definition fd_unref :: "'w platform \<Rightarrow> EpollShimCtx \<Rightarrow> addr \<Rightarrow> 'w \<Rightarrow> (EpollShimCtx \<times> 'w) option" where
  "fd_unref P S a w = do { (_, S1, w1) \<leftarrow> file_description_unref_with (leaf_close P) P S a w; Some (S1, w1) }"

text \<open>\<open>fd_as_pollable_desc\<close>: the pointer part, \<open>None\<close> for a null pointer. The vtable is always the same.\<close>

definition fd_as_pollable_desc :: "EpollShimCtx \<Rightarrow> addr option \<Rightarrow> addr option option" where
  "fd_as_pollable_desc S desc =
     (case desc of
        None \<Rightarrow> Some None
      | Some a \<Rightarrow> do { d \<leftarrow> descs S a; c_assert (desc_vtable d \<noteq> None); Some (if has_poll_fun d then Some a else None) })"

section \<open>The platform of the epoll context\<close>

text \<open>
  The epoll context calls back into the descriptions. Its operations run on the world \<open>(S, w)\<close>: the
  system calls act on \<open>w\<close>, the three callbacks are \<open>fd_poll\<close>, \<open>fd_ref\<close> and \<open>fd_unref\<close> on \<open>S\<close>.
\<close>

definition on_world :: "('w \<Rightarrow> 'r \<times> 'w) \<Rightarrow> EpollShimCtx \<times> 'w \<Rightarrow> 'r \<times> EpollShimCtx \<times> 'w" where
  "on_world f = (\<lambda>(S, w). let (r, w1) = f w in (r, S, w1))"

definition on_world_unit :: "('w \<Rightarrow> 'w) \<Rightarrow> EpollShimCtx \<times> 'w \<Rightarrow> EpollShimCtx \<times> 'w" where
  "on_world_unit f = (\<lambda>(S, w). (S, f w))"

definition callback_poll ::
  "'w platform \<Rightarrow> addr \<Rightarrow> int \<Rightarrow> 32 word option \<Rightarrow> EpollShimCtx \<times> 'w \<Rightarrow> 32 word option \<times> EpollShimCtx \<times> 'w" where
  "callback_poll P a fd rv = (\<lambda>(S, w).
     (case fd_poll P S a fd rv w of
        None \<Rightarrow> (None, S\<lparr>crashed := True\<rparr>, w) | Some (r, S1, w1) \<Rightarrow> (r, S1, w1)))"

definition callback_ref :: "addr \<Rightarrow> EpollShimCtx \<times> 'w \<Rightarrow> EpollShimCtx \<times> 'w" where
  "callback_ref a = (\<lambda>(S, w). (case fd_ref S a of None \<Rightarrow> S\<lparr>crashed := True\<rparr> | Some S1 \<Rightarrow> S1, w))"

definition callback_unref :: "'w platform \<Rightarrow> addr \<Rightarrow> EpollShimCtx \<times> 'w \<Rightarrow> EpollShimCtx \<times> 'w" where
  "callback_unref P a = (\<lambda>(S, w).
     (case fd_unref P S a w of None \<Rightarrow> (S\<lparr>crashed := True\<rparr>, w) | Some (S1, w1) \<Rightarrow> (S1, w1)))"

definition shim_platform :: "'w platform \<Rightarrow> (EpollShimCtx \<times> 'w) platform" where
  "shim_platform P =
     \<lparr>cfg_EVFILT_USER = cfg_EVFILT_USER P,
      cfg_EVFILT_EXCEPT = cfg_EVFILT_EXCEPT P,
      cfg_NOTE_USECONDS = cfg_NOTE_USECONDS P,
      cfg_APPLE = cfg_APPLE P,
      cfg_FreeBSD = cfg_FreeBSD P,
      cfg_NetBSD = cfg_NetBSD P,
      cfg_DragonFly = cfg_DragonFly P,
      cfg_quirky_timer = cfg_quirky_timer P,
      cfg_quirk_timer_zero = cfg_quirk_timer_zero P,
      cfg_data32 = cfg_data32 P,
      cfg_CLK_TCK = cfg_CLK_TCK P,
      cfg_POLLRDHUP = cfg_POLLRDHUP P,
      cfg_PIPE_BUF = cfg_PIPE_BUF P,
      cfg_SIZE_MAX = cfg_SIZE_MAX P,
      cfg_sizeof_kevent = cfg_sizeof_kevent P,
      cfg_sizeof_pollfd = cfg_sizeof_pollfd P,
      cfg_stack_kevent = cfg_stack_kevent P,
      cfg_OpenBSD = cfg_OpenBSD P,
      cfg_SIG_MAXSIG = cfg_SIG_MAXSIG P,
      cfg_NSIG = cfg_NSIG P,
      cfg_default_ignored = cfg_default_ignored P,
      cfg_SIGKILL = cfg_SIGKILL P,
      cfg_SIGSTOP = cfg_SIGSTOP P,
      cfg_sizeof_ptr = cfg_sizeof_ptr P,
      cfg_sizeof_epoll_event = cfg_sizeof_epoll_event P,
      sys_kevent = (\<lambda>a b c. on_world (sys_kevent P a b c)),
      sys_kqueue1 = (\<lambda>a. on_world (sys_kqueue1 P a)),
      sys_poll = (\<lambda>a b. on_world (sys_poll P a b)),
      sys_read = (\<lambda>a b. on_world (sys_read P a b)),
      sys_write = (\<lambda>a b. on_world (sys_write P a b)),
      sys_close = (\<lambda>a. on_world (sys_close P a)),
      sys_pipe2 = (\<lambda>a. on_world (sys_pipe2 P a)),
      sys_fcntl_getfl = (\<lambda>a. on_world (sys_fcntl_getfl P a)),
      sys_ioctl_fionread = (\<lambda>a. on_world (sys_ioctl_fionread P a)),
      sys_ioctl_fionbio = (\<lambda>a b. on_world (sys_ioctl_fionbio P a b)),
      sys_cap_rights = (\<lambda>a. on_world (sys_cap_rights P a)),
      sys_fstat = (\<lambda>a. on_world (sys_fstat P a)),
      sys_clock_gettime = (\<lambda>a. on_world (sys_clock_gettime P a)),
      sys_boottime = (on_world (sys_boottime P)),
      sys_basetime = (on_world (sys_basetime P)),
      sys_malloc = (on_world (sys_malloc P)),
      sys_realloc = (\<lambda>a. on_world (sys_realloc P a)),
      sys_free = (\<lambda>a. on_world_unit (sys_free P a)),
      sys_mutex_init = (on_world (sys_mutex_init P)),
      sys_mutex_destroy = (on_world (sys_mutex_destroy P)),
      sys_cond_init = (on_world (sys_cond_init P)),
      sys_cond_destroy = (on_world (sys_cond_destroy P)),
      sys_cond_wait = (\<lambda>a. on_world (sys_cond_wait P a)),
      sys_sem_init = (on_world (sys_sem_init P)),
      sys_sem_destroy = (on_world_unit (sys_sem_destroy P)),
      sys_sem_wait = (on_world (sys_sem_wait P)),
      sys_kqueue = (on_world (sys_kqueue P)),
      sys_pipe = (on_world (sys_pipe P)),
      sys_socket = (\<lambda>a b c. on_world (sys_socket P a b c)),
      sys_socketpair = (\<lambda>a b c. on_world (sys_socketpair P a b c)),
      sys_fcntl = (\<lambda>a b c. on_world (sys_fcntl P a b c)),
      sys_ppoll = (\<lambda>a b c. on_world (sys_ppoll P a b c)),
      sys_sigpending = (on_world (sys_sigpending P)),
      sys_sigaction = (\<lambda>a. on_world (sys_sigaction P a)),
      sys_sigaction_set = (\<lambda>a b. on_world_unit (sys_sigaction_set P a b)),
      sys_sigtimedwait = (\<lambda>a. on_world (sys_sigtimedwait P a)),
      sys_sigwait = (\<lambda>a. on_world (sys_sigwait P a)),
      sys_thrsigdivert = (\<lambda>a. on_world (sys_thrsigdivert P a)),
      sys_sigfillset = (on_world (sys_sigfillset P)),
      sys_sigmask_get = (on_world (sys_sigmask_get P)),
      sys_sigmask_block = (\<lambda>a. on_world (sys_sigmask_block P a)),
      sys_sigmask_set = (\<lambda>a. on_world (sys_sigmask_set P a)),
      sys_thread_create = (\<lambda>a b. on_world (sys_thread_create P a b)),
      sys_nanosleep = (\<lambda>a. on_world_unit (sys_nanosleep P a)),
      vt_poll_fun = callback_poll P,
      vt_ref_fun = callback_ref,
      vt_unref_fun = callback_unref P\<rparr>"

text \<open>The callbacks must not have failed.\<close>

definition not_crashed :: "EpollShimCtx \<Rightarrow> unit option" where
  "not_crashed S = c_assert (\<not> crashed S)"

definition epollfd_close :: "'w platform \<Rightarrow> EpollShimCtx \<Rightarrow> EpollFDCtx \<Rightarrow> 'w \<Rightarrow> ((errno + unit) \<times> EpollShimCtx \<times> 'w) option" where
  "epollfd_close P S e w = do {
     (r, _, S1, w1) \<leftarrow> epollfd_ctx_terminate (shim_platform P) e (S, w);
     not_crashed S1;
     Some (r, S1, w1)
   }"

text \<open>\<open>desc->vtable->close_fun\<close>.\<close>

definition desc_close :: "'w platform \<Rightarrow> 'w closer" where
  "desc_close P S d w =
     (case (desc_vtable d, desc_ctx d) of
        (Some epollfd_vtable, Ctx_epollfd e) \<Rightarrow> epollfd_close P S e w
      | _ \<Rightarrow> leaf_close P S d w)"

definition file_description_unref ::
  "'w platform \<Rightarrow> EpollShimCtx \<Rightarrow> addr \<Rightarrow> 'w \<Rightarrow> ((errno + unit) \<times> EpollShimCtx \<times> 'w) option" where
  "file_description_unref P = file_description_unref_with (desc_close P) P"

section \<open>Locks and references, from one thread\<close>

lemma set_desc_simps [simp]:
  "descs (set_desc a d S) = (descs S)(a \<mapsto> d)"
  "open_files (set_desc a d S) = open_files S"
  "shim_lock (set_desc a d S) = shim_lock S"
  "init_error (set_desc a d S) = init_error S"
  "crashed (set_desc a d S) = crashed S"
  "nr_fds_for_realtime_step_detector (set_desc a d S) = nr_fds_for_realtime_step_detector S"
  "realtime_step_detector_generation (set_desc a d S) = realtime_step_detector_generation S"
  "set_desc a d (set_desc a d' S) = set_desc a d S"
  "descs S a = Some d \<Longrightarrow> set_desc a d S = S"
  by (simp_all add: set_desc_def fun_upd_idem)

lemma lock_desc_free:
  assumes "descs S a = Some d" "\<not> desc_locked d"
  shows "lock_desc S a = Some (d\<lparr>desc_locked := True\<rparr>, set_desc a (d\<lparr>desc_locked := True\<rparr>) S)"
  using assms by (simp add: lock_desc_def)

lemma unlock_set_desc:
  "desc_locked d \<Longrightarrow> unlock_desc (set_desc a d S) a = Some (set_desc a (d\<lparr>desc_locked := False\<rparr>) S)"
  by (simp add: unlock_desc_def)

lemma relock_ctx [simp]:
  "\<not> desc_locked d \<Longrightarrow> d\<lparr>desc_ctx := c, desc_locked := False\<rparr> = d\<lparr>desc_ctx := c\<rparr>"
  by (cases d) simp

lemma relock_flags [simp]:
  "\<not> desc_locked d \<Longrightarrow> d\<lparr>desc_flags := f, desc_locked := False\<rparr> = d\<lparr>desc_flags := f\<rparr>"
  "\<not> desc_locked d \<Longrightarrow> d\<lparr>desc_locked := False\<rparr> = d"
  by (cases d, simp)+

lemma unref_not_last:
  assumes "descs S a = Some d" "refcount d > 1"
  shows "file_description_unref_with close_fun P S a w = Some (Inr (), set_desc a (d\<lparr>refcount := refcount d - 1\<rparr>) S, w)"
  using assms by (simp add: file_description_unref_with_def)

text \<open>Giving the reference back restores the state.\<close>

lemma unref_extra:
  assumes "descs S a = Some d" "0 < refcount d"
  shows "file_description_unref P (set_desc a (d\<lparr>refcount := refcount d + 1\<rparr>) S) a w = Some (Inr (), S, w)"
  using assms by (simp add: file_description_unref_def unref_not_last [where d = "d\<lparr>refcount := refcount d + 1\<rparr>"])

lemma unref_one_more:
  assumes "0 < refcount d" "refcount d' = refcount d"
  shows "file_description_unref P (set_desc a (d'\<lparr>refcount := refcount d + 1\<rparr>) S) a w =
    Some (Inr (), set_desc a d' S, w)"
  using assms
  by (simp add: file_description_unref_def unref_not_last [where d = "d'\<lparr>refcount := refcount d + 1\<rparr>"])
    (metis (no_types) FileDescription.surjective FileDescription.update_convs(1) assms(2))

section \<open>The number of timers that a clock step can affect\<close>

text \<open>The timers that a step of the clock can affect, and the counter that follows their number.\<close>

definition jumping :: "EpollShimCtx \<Rightarrow> addr set" where
  "jumping S = {a. \<exists>d t. descs S a = Some d \<and> desc_ctx d = Ctx_timerfd t \<and> timer_can_jump t = 1}"

definition monitored :: "EpollShimCtx \<Rightarrow> bool" where
  "monitored S \<longleftrightarrow>
     finite (dom (descs S)) \<and> card (dom (descs S)) < 2 ^ 64 \<and>
     unat (nr_fds_for_realtime_step_detector S) = card (jumping S)"

lemma jumping_subset: "jumping S \<subseteq> dom (descs S)"
  by (auto simp: jumping_def)

lemma timer_can_jump_01: "timer_can_jump t = 0 \<or> timer_can_jump t = 1"
  by (simp add: timer_can_jump_def)

text \<open>The counter after one timer has changed; \<open>None\<close> for a description that is freed.\<close>

definition desc_jumps :: "FileDescription option \<Rightarrow> int" where
  "desc_jumps x = (case x of
       Some d \<Rightarrow> (case desc_ctx d of Ctx_timerfd t \<Rightarrow> timer_can_jump t | _ \<Rightarrow> 0) | None \<Rightarrow> 0)"

lemma desc_jumps_01: "desc_jumps x = 0 \<or> desc_jumps x = 1"
  using timer_can_jump_01 by (auto simp: desc_jumps_def split: option.splits fd_ctx.splits)

lemma jumping_alt: "jumping S = {a. desc_jumps (descs S a) = 1}"
proof (rule set_eqI)
  fix a
  show "a \<in> jumping S \<longleftrightarrow> a \<in> {a. desc_jumps (descs S a) = 1}"
  proof (cases "descs S a")
    case (Some d)
    then show ?thesis by (cases "desc_ctx d") (simp_all add: jumping_def desc_jumps_def)
  qed (simp add: jumping_def desc_jumps_def)
qed

lemma card_jumping_upd:
  assumes "finite (dom (descs S))"
  shows "int (card (jumping (S\<lparr>descs := (descs S)(a := x)\<rparr>))) =
    int (card (jumping S)) - desc_jumps (descs S a) + desc_jumps x"
proof -
  have fin: "finite (jumping S)" using assms jumping_subset finite_subset by blast
  have j: "jumping (S\<lparr>descs := (descs S)(a := x)\<rparr>) =
      (if desc_jumps x = 1 then insert a (jumping S) else jumping S - {a})"
    by (auto simp: jumping_alt)
  have m: "a \<in> jumping S \<longleftrightarrow> desc_jumps (descs S a) = 1" by (simp add: jumping_alt)
  have pos: "0 < card (jumping S)" if "a \<in> jumping S" using fin that by (auto simp: card_gt_0_iff)
  show ?thesis
    using desc_jumps_01 [of x] desc_jumps_01 [of "descs S a"] fin m pos
    unfolding j by (auto simp: card_insert_if card_Diff_singleton_if)
qed

lemma update_monitoring:
  assumes "change = 0 \<or> change = 1 \<or> change = -1"
    and "0 \<le> int (unat (nr_fds_for_realtime_step_detector S)) + change"
    and "int (unat (nr_fds_for_realtime_step_detector S)) + change < 2 ^ 64"
  shows "\<exists>n g w'. epoll_shim_ctx_update_realtime_change_monitoring P S change w =
      Some (S\<lparr>nr_fds_for_realtime_step_detector := n, realtime_step_detector_generation := g\<rparr>, w') \<and>
    int (unat n) = int (unat (nr_fds_for_realtime_step_detector S)) + change \<and>
    g = realtime_step_detector_generation S + (if change < 0 \<and> n = 0 then 1 else 0)"
proof -
  let ?n = "nr_fds_for_realtime_step_detector S"
  consider "change = 0" | "change = 1" | "change = -1" using assms(1) by blast
  then show ?thesis
  proof cases
    case 1
    show ?thesis
      by (rule exI [of _ ?n], rule exI [of _ "realtime_step_detector_generation S"], rule exI [of _ w])
        (simp add: 1 epoll_shim_ctx_update_realtime_change_monitoring_def)
  next
    case 2
    have "int (unat ?n + 1) < int (2 ^ 64)" using assms(3) 2 by simp
    then have "unat ?n + 1 < 2 ^ 64" by (simp only: of_nat_less_iff)
    then have u: "unat (?n + 1) = unat ?n + 1" by (simp add: unat_word_ariths)
    show ?thesis
      by (rule exI [where x = "?n + 1"], rule exI [where x = "realtime_step_detector_generation S"])
        (simp add: 2 u epoll_shim_ctx_update_realtime_change_monitoring_def Let_def)
  next
    case 3
    then have nz: "?n \<noteq> 0" using assms(2) by auto
    then have u: "unat (?n - 1) = unat ?n - 1" "1 \<le> ?n" "0 < unat ?n" by (simp_all add: unat_minus_one word_le_nat_alt unat_gt_0 Suc_leI)
    show ?thesis
      by (rule exI [where x = "?n - 1"]) (use u in \<open>simp add: 3 of_nat_diff epoll_shim_ctx_update_realtime_change_monitoring_def Let_def\<close>)
  qed
qed

text \<open>The monitoring follows a change of one description.\<close>

lemma monitored_step:
  assumes "monitored S" "descs S a = Some d" "change = desc_jumps x - desc_jumps (Some d)"
  shows "\<exists>n g w'. epoll_shim_ctx_update_realtime_change_monitoring P S change w =
      Some (S\<lparr>nr_fds_for_realtime_step_detector := n, realtime_step_detector_generation := g\<rparr>, w') \<and>
    unat n = card (jumping (S\<lparr>descs := (descs S)(a := x)\<rparr>)) \<and>
    g = realtime_step_detector_generation S + (if nr_fds_for_realtime_step_detector S \<noteq> 0 \<and> n = 0 then 1 else 0)"
proof -
  have fin: "finite (dom (descs S))" "card (dom (descs S)) < 2 ^ 64"
    and n: "unat (nr_fds_for_realtime_step_detector S) = card (jumping S)"
    using assms(1) by (auto simp: monitored_def)
  note c = card_jumping_upd [OF fin(1), of a x]
  have le: "card (jumping (S\<lparr>descs := (descs S)(a := x)\<rparr>)) \<le> card (dom (descs S))"
    using fin(1) assms(2) by (intro card_mono) (auto simp: jumping_def)
  have eq: "int (unat (nr_fds_for_realtime_step_detector S)) + change = int (card (jumping (S\<lparr>descs := (descs S)(a := x)\<rparr>)))"
    using c n assms(2,3) by simp
  have "change = 0 \<or> change = 1 \<or> change = -1"
    using assms(3) desc_jumps_01 [of x] desc_jumps_01 [of "Some d"] by auto
  moreover obtain n g w' where u: "epoll_shim_ctx_update_realtime_change_monitoring P S change w =
      Some (S\<lparr>nr_fds_for_realtime_step_detector := n, realtime_step_detector_generation := g\<rparr>, w')"
    "int (unat n) = int (unat (nr_fds_for_realtime_step_detector S)) + change"
    "g = realtime_step_detector_generation S + (if change < 0 \<and> n = 0 then 1 else 0)"
    using update_monitoring [of change S P w] calculation(1) eq le fin(2) by fastforce
  moreover have "unat n = card (jumping (S\<lparr>descs := (descs S)(a := x)\<rparr>))" using u(2) unfolding eq by (simp only: of_nat_eq_iff)
  moreover have "change < 0 \<longleftrightarrow> nr_fds_for_realtime_step_detector S \<noteq> 0" if "n = 0"
  proof -
    have "uint (nr_fds_for_realtime_step_detector S) = - change" using u(2) that by simp
    moreover have "0 \<le> uint (nr_fds_for_realtime_step_detector S)" by simp
    ultimately show ?thesis using uint_0_iff [of "nr_fds_for_realtime_step_detector S"] by linarith
  qed
  ultimately show ?thesis by (intro exI [where x = n] exI [where x = g] exI [where x = w']) auto
qed

text \<open>What a call that replaces one description leaves behind.\<close>

definition monitored_after :: "EpollShimCtx \<Rightarrow> addr \<Rightarrow> FileDescription option \<Rightarrow> EpollShimCtx \<Rightarrow> bool" where
  "monitored_after S a x S' \<longleftrightarrow>
     monitored S' \<and> descs S' = (descs S)(a := x) \<and>
     realtime_step_detector_generation S' = realtime_step_detector_generation S +
       (if nr_fds_for_realtime_step_detector S \<noteq> 0 \<and> nr_fds_for_realtime_step_detector S' = 0 then 1 else 0)"

lemma monitored_afterI:
  assumes "monitored S" "descs S a = Some d" "descs S' = (descs S)(a := x)"
    and "unat (nr_fds_for_realtime_step_detector S') = card (jumping (S\<lparr>descs := (descs S)(a := x)\<rparr>))"
    and "realtime_step_detector_generation S' = realtime_step_detector_generation S +
       (if nr_fds_for_realtime_step_detector S \<noteq> 0 \<and> nr_fds_for_realtime_step_detector S' = 0 then 1 else 0)"
  shows "monitored_after S a x S'"
proof -
  have fin: "finite (dom (descs S))" "card (dom (descs S)) < 2 ^ 64" using assms(1) by (auto simp: monitored_def)
  have "dom ((descs S)(a := x)) \<subseteq> dom (descs S)" using assms(2) by (auto split: if_splits)
  moreover have "jumping S' = jumping (S\<lparr>descs := (descs S)(a := x)\<rparr>)" by (simp add: jumping_def assms(3))
  ultimately show ?thesis
    using assms(3-5) fin card_mono [OF fin(1), of "dom ((descs S)(a := x))"] finite_subset [of "dom ((descs S)(a := x))"]
    by (simp add: monitored_after_def monitored_def)
qed

lemma monitored_same_ctx:
  assumes "monitored S" "descs S a = Some d" "desc_ctx d' = desc_ctx d"
  shows "monitored (set_desc a d' S)"
proof -
  have "jumping (set_desc a d' S) = jumping S"
    using assms(2,3) by (auto simp: jumping_alt desc_jumps_def split: if_splits)
  moreover have "dom (descs (set_desc a d' S)) = dom (descs S)" using assms(2) by auto
  ultimately show ?thesis using assms(1) by (simp add: monitored_def)
qed

lemma timer_unref_monitored:
  assumes "monitored S" "descs S a = Some d" "desc_ctx d = Ctx_timerfd t" "desc_vtable d = Some timerfd_vtable"
    and "refcount d = 1" "init_error S = 0"
  shows "\<exists>r S' w'. file_description_unref P S a w = Some (r, S', w') \<and> monitored_after S a None S'"
proof -
  let ?l = "d\<lparr>refcount := 0\<rparr>"
  let ?S = "set_desc a ?l S"
  have mon: "monitored ?S" "descs ?S a = Some ?l" using monitored_same_ctx [OF assms(1,2), of ?l] by simp_all
  have ch: "- timer_can_jump t = desc_jumps None - desc_jumps (Some ?l)" using assms(3) by (simp add: desc_jumps_def)
  obtain n g w2 where u: "epoll_shim_ctx_update_realtime_change_monitoring P ?S (- timer_can_jump t) w =
      Some (?S\<lparr>nr_fds_for_realtime_step_detector := n, realtime_step_detector_generation := g\<rparr>, w2)"
    "unat n = card (jumping (?S\<lparr>descs := (descs ?S)(a := None)\<rparr>))"
    "g = realtime_step_detector_generation S + (if nr_fds_for_realtime_step_detector S \<noteq> 0 \<and> n = 0 then 1 else 0)"
    using monitored_step [OF mon ch] by fastforce
  let ?S3 = "(?S\<lparr>nr_fds_for_realtime_step_detector := n, realtime_step_detector_generation := g\<rparr>)\<lparr>descs := (descs S)(a := None)\<rparr>"
  obtain r w3 where "sys_mutex_destroy P w2 = (r, w3)" by force
  then have "file_description_unref P S a w = Some (first_error (Inr ()) r, ?S3, sys_free P a w3)"
    using u(1) assms(2-6)
    by (simp add: file_description_unref_def file_description_unref_with_def file_description_destroy_def
        file_description_terminate_def desc_close_def leaf_close_def timerfd_close_def epoll_shim_ctx_global_def Let_def)
  moreover have "jumping (?S\<lparr>descs := (descs ?S)(a := None)\<rparr>) = jumping (S\<lparr>descs := (descs S)(a := None)\<rparr>)"
    by (simp add: jumping_def)
  then have "monitored_after S a None ?S3"
    using u(2,3) by (intro monitored_afterI [OF assms(1,2)]) simp_all
  ultimately show ?thesis by blast
qed

end
