(* ===== verification/Shim_Ctx.thy ===== *)
theory Shim_Ctx
  imports File_Desc
begin

text \<open>
  The table of open descriptions of \<open>src/epoll_shim_ctx.c\<close> (its second part): creating a description
  together with its kqueue, installing, finding and removing it, and the thread that watches for steps
  of the real-time clock. The growth of the table is the doubling loop of the source on 32-bit unsigned
  numbers.
\<close>

section \<open>The reader-writer lock, as one thread sees it\<close>

definition lock_write :: "EpollShimCtx \<Rightarrow> EpollShimCtx option" where
  "lock_write S = do { c_assert (shim_lock S = Unlocked); Some (S\<lparr>shim_lock := WriteLocked\<rparr>) }"

definition unlock_write :: "EpollShimCtx \<Rightarrow> EpollShimCtx option" where
  "unlock_write S = do { c_assert (shim_lock S = WriteLocked); Some (S\<lparr>shim_lock := Unlocked\<rparr>) }"

definition lock_read :: "EpollShimCtx \<Rightarrow> EpollShimCtx option" where
  "lock_read S = do { c_assert (shim_lock S = Unlocked); Some (S\<lparr>shim_lock := ReadLocked\<rparr>) }"

definition unlock_read :: "EpollShimCtx \<Rightarrow> EpollShimCtx option" where
  "unlock_read S = do { c_assert (shim_lock S = ReadLocked); Some (S\<lparr>shim_lock := Unlocked\<rparr>) }"

definition lock_downgrade :: "EpollShimCtx \<Rightarrow> EpollShimCtx option" where
  "lock_downgrade S = do { c_assert (shim_lock S = WriteLocked); Some (S\<lparr>shim_lock := ReadLocked\<rparr>) }"

section \<open>Initialisation\<close>

definition empty_shim :: EpollShimCtx where
  "empty_shim =
     \<lparr>open_files = [], shim_lock = Unlocked, nr_fds_for_realtime_step_detector = 0,
      realtime_step_detector_generation = 0, init_error = 0, descs = Map.empty, crashed = False\<rparr>"

definition epoll_shim_ctx_init :: "'w platform \<Rightarrow> 'w \<Rightarrow> (errno + EpollShimCtx) \<times> 'w" where
  "epoll_shim_ctx_init P w =
     (case sys_mutex_init P w of
        (Inl ec, w1) \<Rightarrow> (Inl ec, w1)
      | (Inr _, w1) \<Rightarrow>
          (case rwlock_init P w1 of
             (Inl ec, w2) \<Rightarrow> (Inl ec, snd (sys_mutex_destroy P w2))
           | (Inr _, w2) \<Rightarrow> (Inr empty_shim, w2)))"

definition epoll_shim_ctx_global_init :: "'w platform \<Rightarrow> 'w \<Rightarrow> EpollShimCtx \<times> 'w" where
  "epoll_shim_ctx_global_init P w =
     (case epoll_shim_ctx_init P w of
        (Inl ec, w1) \<Rightarrow> (empty_shim\<lparr>init_error := ec\<rparr>, w1)
      | (Inr S, w1) \<Rightarrow> (S, w1))"

section \<open>Creating a description\<close>

text \<open>The loop \<open>while (space_needed <= kq) space_needed <<= 1\<close>.\<close>

partial_function (option) double_space :: "32 word \<Rightarrow> 32 word \<Rightarrow> 32 word option" where
  "double_space space kq = (if space \<le> kq then double_space (push_bit 1 space) kq else Some space)"

definition grow_table ::
  "'w platform \<Rightarrow> EpollShimCtx \<Rightarrow> int \<Rightarrow> 'w \<Rightarrow> ((errno + unit) \<times> EpollShimCtx \<times> 'w) option" where
  "grow_table P S kq w =
     (if \<not> length (open_files S) \<le> nat kq then Some (Inr (), S, w)
      else do {
        space \<leftarrow> double_space 32 (word_of_int kq);
        let sz = unat space * cfg_sizeof_ptr P;
        if sz > cfg_SIZE_MAX P then Some (Inl ENOMEM, S, w)
        else (case sys_realloc P sz w of
                (Inl ec, w1) \<Rightarrow> Some (Inl ec, S, w1)
              | (Inr _, w1) \<Rightarrow>
                  Some (Inr (),
                        S\<lparr>open_files := open_files S @ replicate (unat space - length (open_files S)) None\<rparr>, w1))
      })"

text \<open>A description left over from a descriptor that was closed behind the library's back is dropped.\<close>

definition drop_stale ::
  "'w platform \<Rightarrow> EpollShimCtx \<Rightarrow> int \<Rightarrow> 'w \<Rightarrow> (EpollShimCtx \<times> 'w) option" where
  "drop_stale P S kq w = do {
     c_assert (nat kq < length (open_files S));
     (case open_files S ! nat kq of
        None \<Rightarrow> Some (S, w)
      | Some a \<Rightarrow> do {
          (_, S1, w1) \<leftarrow> file_description_unref P S a w;
          Some (S1\<lparr>open_files := (open_files S1)[nat kq := None]\<rparr>, w1)
        })
   }"

text \<open>On success the lock stays held for writing; the caller installs or drops the description.\<close>

definition epoll_shim_ctx_create_desc ::
  "'w platform \<Rightarrow> EpollShimCtx \<Rightarrow> 32 word \<Rightarrow> 'w \<Rightarrow> ((errno + int \<times> addr) \<times> EpollShimCtx \<times> 'w) option" where
  "epoll_shim_ctx_create_desc P S flags w = do {
     S0 \<leftarrow> lock_write S;
     (case sys_kqueue1 P flags w of
        (Inl ec, w1) \<Rightarrow> do { S1 \<leftarrow> unlock_write S0; Some (Inl ec, S1, w1) }
      | (Inr kq, w1) \<Rightarrow> do {
          let fail = (\<lambda>ec S w. do { let (_, w1) = sys_close P kq w; S1 \<leftarrow> unlock_write S; Some (Inl ec, S1, w1) });
          (g, S1, w2) \<leftarrow> grow_table P S0 kq w1;
          (case g of
             Inl ec \<Rightarrow> fail ec S1 w2
           | Inr _ \<Rightarrow> do {
               (S2, w3) \<leftarrow> drop_stale P S1 kq w2;
               (case file_description_create P S2 w3 of
                  (Inl ec, S3, w4) \<Rightarrow> fail ec S3 w4
                | (Inr a, S3, w4) \<Rightarrow> Some (Inr (kq, a), S3, w4))
             })
        })
   }"

definition epoll_shim_ctx_install_desc :: "EpollShimCtx \<Rightarrow> int \<Rightarrow> addr \<Rightarrow> EpollShimCtx option" where
  "epoll_shim_ctx_install_desc S fd a = do {
     c_assert (nat fd < length (open_files S));
     unlock_write (S\<lparr>open_files := (open_files S)[nat fd := Some a]\<rparr>)
   }"

definition epoll_shim_ctx_drop_desc ::
  "'w platform \<Rightarrow> EpollShimCtx \<Rightarrow> int \<Rightarrow> addr \<Rightarrow> 'w \<Rightarrow> (EpollShimCtx \<times> 'w) option" where
  "epoll_shim_ctx_drop_desc P S fd a w = do {
     (_, S1, w1) \<leftarrow> file_description_unref P S a w;
     let (_, w2) = sys_close P fd w1;
     S2 \<leftarrow> unlock_write S1;
     Some (S2, w2)
   }"

section \<open>Finding descriptions\<close>

definition epoll_shim_ctx_find_desc_impl :: "EpollShimCtx \<Rightarrow> int \<Rightarrow> addr option" where
  "epoll_shim_ctx_find_desc_impl S fd =
     (if fd < 0 \<or> nat fd \<ge> length (open_files S) then None else open_files S ! nat fd)"

definition epoll_shim_ctx_find_desc :: "EpollShimCtx \<Rightarrow> int \<Rightarrow> (addr option \<times> EpollShimCtx) option" where
  "epoll_shim_ctx_find_desc S fd =
     (if fd < 0 then Some (None, S)
      else do {
        S1 \<leftarrow> lock_read S;
        let desc = epoll_shim_ctx_find_desc_impl S1 fd;
        S2 \<leftarrow> (case desc of None \<Rightarrow> Some S1 | Some a \<Rightarrow> file_description_ref S1 a);
        S3 \<leftarrow> unlock_read S2;
        Some (desc, S3)
      })"

text \<open>The loop over the table; \<open>f\<close> gets a description and its descriptor.\<close>

fun for_each_from ::
  "(addr \<Rightarrow> int \<Rightarrow> EpollShimCtx \<times> 'w \<Rightarrow> (EpollShimCtx \<times> 'w) option) \<Rightarrow> int \<Rightarrow> addr option list \<Rightarrow>
   EpollShimCtx \<times> 'w \<Rightarrow> (EpollShimCtx \<times> 'w) option" where
  "for_each_from f i [] s = Some s"
| "for_each_from f i (None # ds) s = for_each_from f (i + 1) ds s"
| "for_each_from f i (Some a # ds) s = do { s1 \<leftarrow> f a i s; for_each_from f (i + 1) ds s1 }"

definition epoll_shim_ctx_for_each_unlocked ::
  "(addr \<Rightarrow> int \<Rightarrow> EpollShimCtx \<times> 'w \<Rightarrow> (EpollShimCtx \<times> 'w) option) \<Rightarrow>
   EpollShimCtx \<times> 'w \<Rightarrow> (EpollShimCtx \<times> 'w) option" where
  "epoll_shim_ctx_for_each_unlocked f s =
     for_each_from f 0 (take (nat INT32_MAX + 1) (open_files (fst s))) s"

section \<open>Removing a description\<close>

definition is_epollfd :: "FileDescription \<Rightarrow> bool" where
  "is_epollfd d \<longleftrightarrow> desc_vtable d = Some epollfd_vtable"

definition epollfd_lock :: "addr \<Rightarrow> int \<Rightarrow> EpollShimCtx \<times> 'w \<Rightarrow> (EpollShimCtx \<times> 'w) option" where
  "epollfd_lock a kq s = do {
     d \<leftarrow> descs (fst s) a;
     if is_epollfd d then do { (_, S1) \<leftarrow> lock_desc (fst s) a; Some (S1, snd s) } else Some s
   }"

definition epollfd_unlock :: "addr \<Rightarrow> int \<Rightarrow> EpollShimCtx \<times> 'w \<Rightarrow> (EpollShimCtx \<times> 'w) option" where
  "epollfd_unlock a kq s = do {
     d \<leftarrow> descs (fst s) a;
     if is_epollfd d then do { S1 \<leftarrow> unlock_desc (fst s) a; Some (S1, snd s) } else Some s
   }"

definition epollfd_remove_fd ::
  "'w platform \<Rightarrow> int \<Rightarrow> addr \<Rightarrow> int \<Rightarrow> EpollShimCtx \<times> 'w \<Rightarrow> (EpollShimCtx \<times> 'w) option" where
  "epollfd_remove_fd P fd a kq s = do {
     d \<leftarrow> descs (fst s) a;
     (case (desc_vtable d, desc_ctx d) of
        (Some epollfd_vtable, Ctx_epollfd e) \<Rightarrow> do {
          (e1, S1, w1) \<leftarrow> epollfd_ctx_remove_fd (shim_platform P) e kq fd s;
          not_crashed S1;
          d1 \<leftarrow> descs S1 a;
          Some (set_desc a (d1\<lparr>desc_ctx := Ctx_epollfd e1\<rparr>) S1, w1)
        }
      | (Some epollfd_vtable, _) \<Rightarrow> None
      | _ \<Rightarrow> Some s)
   }"

definition epoll_shim_ctx_remove_desc ::
  "'w platform \<Rightarrow> EpollShimCtx \<Rightarrow> int \<Rightarrow> 'w \<Rightarrow> ((errno + unit) \<times> EpollShimCtx \<times> 'w) option" where
  "epoll_shim_ctx_remove_desc P S fd w = do {
     c_assert (fd \<ge> 0);
     S0 \<leftarrow> lock_write S;
     let desc = epoll_shim_ctx_find_desc_impl S0 fd;
     let S1 = (if desc = None then S0 else S0\<lparr>open_files := (open_files S0)[nat fd := None]\<rparr>);
     S2 \<leftarrow> lock_downgrade S1;
     s3 \<leftarrow> epoll_shim_ctx_for_each_unlocked epollfd_lock (S2, w);
     s4 \<leftarrow> epoll_shim_ctx_for_each_unlocked (epollfd_remove_fd P fd) s3;
     (r, S5, w5) \<leftarrow> (case desc of
        None \<Rightarrow> Some (Inr (), s4) | Some a \<Rightarrow> file_description_unref P (fst s4) a (snd s4));
     let (r2, w6) = sys_close P fd w5;
     (S7, w7) \<leftarrow> epoll_shim_ctx_for_each_unlocked epollfd_unlock (S5, w6);
     S8 \<leftarrow> unlock_read S7;
     Some (first_error r r2, S8, w7)
   }"

section \<open>Watching the real-time clock\<close>

definition timerfd_realtime_change ::
  "'w platform \<Rightarrow> addr \<Rightarrow> int \<Rightarrow> EpollShimCtx \<times> 'w \<Rightarrow> (EpollShimCtx \<times> 'w) option" where
  "timerfd_realtime_change P a kq s = do {
     (d, S1) \<leftarrow> lock_desc (fst s) a;
     (case desc_ctx d of
        Ctx_timerfd t \<Rightarrow> do {
          (t1, w1) \<leftarrow> timerfd_ctx_realtime_change P t kq (snd s);
          S2 \<leftarrow> unlock_desc (set_desc a (d\<lparr>desc_ctx := Ctx_timerfd t1\<rparr>) S1) a;
          Some (S2, w1)
        }
      | _ \<Rightarrow> None)
   }"

definition trigger_realtime_change_notification ::
  "'w platform \<Rightarrow> addr \<Rightarrow> int \<Rightarrow> EpollShimCtx \<times> 'w \<Rightarrow> (EpollShimCtx \<times> 'w) option" where
  "trigger_realtime_change_notification P a kq s = do {
     d \<leftarrow> descs (fst s) a;
     c_assert (desc_vtable d \<noteq> None);
     if desc_vtable d = Some timerfd_vtable then timerfd_realtime_change P a kq s else Some s
   }"

text \<open>
  The detector thread. \<open>env\<close> is what the other threads do to the shared state during the sleep.
\<close>

partial_function (option) realtime_step_detection ::
  "'w platform \<Rightarrow> (EpollShimCtx \<times> 'w \<Rightarrow> EpollShimCtx \<times> 'w) \<Rightarrow> 64 word \<Rightarrow> timespec \<Rightarrow>
   EpollShimCtx \<times> 'w \<Rightarrow> (EpollShimCtx \<times> 'w) option" where
  "realtime_step_detection P env generation offset s =
     (let (S, w) = env (fst s, sys_nanosleep P \<lparr>tv_sec = 1, tv_nsec = 0\<rparr> (snd s))
      in (case timerfd_ctx_get_monotonic_offset P w of
            (Inl _, w1) \<Rightarrow> Some (S, w1)
          | (Inr new_offset, w1) \<Rightarrow>
              if realtime_step_detector_generation S \<noteq> generation then Some (S, w1)
              else if new_offset = offset then realtime_step_detection P env generation offset (S, w1)
              else Option.bind (lock_read S) (\<lambda>S1.
                   Option.bind (epoll_shim_ctx_for_each_unlocked (trigger_realtime_change_notification P) (S1, w1)) (\<lambda>(S2, w2).
                   Option.bind (unlock_read S2) (\<lambda>S3. realtime_step_detection P env generation new_offset (S3, w2))))))"

section \<open>Looking up descriptors\<close>

text \<open>Every entry of the table is a live description.\<close>

definition table_live :: "EpollShimCtx \<Rightarrow> bool" where
  "table_live S \<longleftrightarrow> (\<forall>a. Some a \<in> set (open_files S) \<longrightarrow> (\<exists>d. descs S a = Some d \<and> 0 < refcount d))"

lemma find_desc_impl_live:
  assumes "table_live S" "epoll_shim_ctx_find_desc_impl S fd = Some a"
  shows "\<exists>d. descs S a = Some d \<and> 0 < refcount d"
  using assms by (auto simp: table_live_def epoll_shim_ctx_find_desc_impl_def split: if_splits)
    (metis linorder_not_le nth_mem)

lemma find_desc_impl_lock [simp]:
  "epoll_shim_ctx_find_desc_impl (S\<lparr>shim_lock := m\<rparr>) fd = epoll_shim_ctx_find_desc_impl S fd"
  by (simp add: epoll_shim_ctx_find_desc_impl_def)

lemma find_desc_impl_negative [simp]: "fd < 0 \<Longrightarrow> epoll_shim_ctx_find_desc_impl S fd = None"
  by (simp add: epoll_shim_ctx_find_desc_impl_def)

lemma find_desc_impl_set_desc [simp]:
  "epoll_shim_ctx_find_desc_impl (set_desc a d S) fd = epoll_shim_ctx_find_desc_impl S fd"
  by (simp add: epoll_shim_ctx_find_desc_impl_def)

lemma table_live_set_desc:
  "table_live S \<Longrightarrow> 0 < refcount d \<Longrightarrow> table_live (set_desc a d S)"
  by (auto simp: table_live_def)

text \<open>Looking up a descriptor: one more reference, nothing else.\<close>

lemma find_desc_none:
  assumes "shim_lock S = Unlocked" "epoll_shim_ctx_find_desc_impl S fd = None"
  shows "epoll_shim_ctx_find_desc S fd = Some (None, S)"
proof -
  have "S\<lparr>shim_lock := Unlocked\<rparr> = S" using assms(1) by simp
  then show ?thesis using assms
    by (simp add: epoll_shim_ctx_find_desc_def lock_read_def unlock_read_def Let_def)
qed

lemma find_desc_some:
  assumes "shim_lock S = Unlocked" "epoll_shim_ctx_find_desc_impl S fd = Some a"
    and "descs S a = Some d" "0 < refcount d"
  shows "epoll_shim_ctx_find_desc S fd = Some (Some a, set_desc a (d\<lparr>refcount := refcount d + 1\<rparr>) S)"
proof -
  have "0 \<le> fd" using assms(2) by (auto simp: epoll_shim_ctx_find_desc_impl_def split: if_splits)
  then show ?thesis using assms
    by (simp add: epoll_shim_ctx_find_desc_def lock_read_def unlock_read_def file_description_ref_def set_desc_def Let_def)
qed

lemma find_desc_cases:
  assumes "shim_lock S = Unlocked" "table_live S"
  obtains (absent) "epoll_shim_ctx_find_desc_impl S fd = None" "epoll_shim_ctx_find_desc S fd = Some (None, S)"
  | (found) a d where "epoll_shim_ctx_find_desc_impl S fd = Some a" "descs S a = Some d" "0 < refcount d"
      "epoll_shim_ctx_find_desc S fd = Some (Some a, set_desc a (d\<lparr>refcount := refcount d + 1\<rparr>) S)"
  using find_desc_none [OF assms(1)] find_desc_some [OF assms(1)] find_desc_impl_live [OF assms(2)]
  by (metis option.exhaust)

text \<open>A library state with one eventfd, for the witnesses.\<close>

definition demo_shim :: "fd_ctx \<Rightarrow> vtable \<Rightarrow> 32 word \<Rightarrow> EpollShimCtx" where
  "demo_shim c vt flags =
     empty_shim\<lparr>open_files := [None, None, None, Some 64],
       descs := [64 \<mapsto> \<lparr>refcount = 1, desc_locked = False, desc_flags = flags, desc_ctx = c, desc_vtable = Some vt\<rparr>]\<rparr>"

section \<open>Growth of the table\<close>

lemma double_space_done: "kq < space \<Longrightarrow> double_space space kq = Some space"
  using double_space.simps [of space kq] by (simp add: not_le [symmetric])

lemma double_space_step: "space \<le> kq \<Longrightarrow> double_space space kq = double_space (push_bit 1 space) kq"
  using double_space.simps [of space kq] by simp

lemma uint_power_of_two: "j \<le> 31 \<Longrightarrow> uint (2 ^ j :: 32 word) = 2 ^ j"
proof (transfer, rule take_bit_int_eq_self)
  fix j :: nat
  assume "j \<le> 31"
  then have "(2 :: int) ^ j \<le> 2 ^ 31" by (rule power_increasing) simp
  then show "(2 :: int) ^ j < 2 ^ LENGTH(32)" by simp
qed simp

text \<open>From a power of two not above \<open>2 ^ 31\<close>, doubling reaches a power of two above \<open>kq\<close>.\<close>

lemma double_space_power:
  assumes "k \<le> 31" "uint kq < 2 ^ 31"
  shows "\<exists>space. double_space (2 ^ k) kq = Some space \<and> uint kq < uint space \<and>
    uint space \<le> max (2 ^ k) (2 * uint kq)"
  using assms(1)
proof (induction "31 - k" arbitrary: k rule: less_induct)
  case less
  note u = uint_power_of_two [OF less.prems]
  show ?case
  proof (cases "kq < 2 ^ k")
    case True
    then show ?thesis using u by (auto simp: double_space_done word_less_def)
  next
    case False
    then have le: "2 ^ k \<le> uint kq" using u by (simp add: word_less_def)
    then have "k < 31" using assms(2) power_strict_increasing_iff [of "2 :: int" k 31]
      by (smt (verit, best) less.prems nat_less_le)
    then obtain space where "double_space (2 ^ Suc k) kq = Some space" "uint kq < uint space"
      "uint space \<le> max (2 ^ Suc k) (2 * uint kq)"
      using less.hyps [of "Suc k"] by (metis Suc_leI diff_less_mono2 lessI)
    moreover have "double_space (2 ^ k) kq = double_space (2 ^ Suc k) kq"
      using double_space_step [of "2 ^ k" kq] False by (simp add: push_bit_eq_mult mult.commute)
    ultimately show ?thesis using le by auto
  qed
qed

lemma double_space_total:
  assumes "0 \<le> kq" "kq \<le> INT32_MAX"
  shows "\<exists>space. double_space 32 (word_of_int kq) = Some space \<and> nat kq < unat space \<and>
    unat space \<le> max 32 (2 * nat kq)"
proof -
  have u: "uint (word_of_int kq :: 32 word) = kq"
    unfolding uint_word_of_int_eq using assms by (intro take_bit_int_eq_self) (simp_all add: INT32_MAX_def)
  have c: "(2 :: 32 word) ^ 5 = 32" "(2 :: int) ^ 5 = 32" by simp_all
  have "(5 :: nat) \<le> 31" "kq < 2 ^ 31" using assms(2) by (simp_all add: INT32_MAX_def)
  then obtain space where s: "double_space 32 (word_of_int kq) = Some space" "kq < uint space" "uint space \<le> max 32 (2 * kq)"
    using double_space_power [of 5 "word_of_int kq", unfolded u c] by blast
  have "int (unat space) = uint space" by simp
  then have "nat kq < unat space" "unat space \<le> max 32 (2 * nat kq)"
    using s(2,3) assms(1) by linarith+
  then show ?thesis using s(1) by blast
qed

text \<open>
  C35: growing the table of open descriptions always returns: for every descriptor that the kernel can
  give, the doubling loop ends with a table that has the descriptor's slot and is at most twice as large
  as needed; existing entries stay, new slots are empty, and nothing else changes, also on an error.
\<close>

theorem table_growth:
  assumes "0 \<le> kq" "kq \<le> INT32_MAX"
  shows "\<exists>r S' w'. grow_table P S kq w = Some (r, S', w') \<and>
    (r = Inr () \<longrightarrow> nat kq < length (open_files S')) \<and>
    (\<exists>k. open_files S' = open_files S @ replicate k None) \<and>
    length (open_files S') \<le> max (length (open_files S)) (max 32 (2 * nat kq)) \<and>
    S' = S\<lparr>open_files := open_files S'\<rparr>"
proof (cases "length (open_files S) \<le> nat kq")
  case True
  obtain space where s: "double_space 32 (word_of_int kq) = Some space" "nat kq < unat space"
    "unat space \<le> max 32 (2 * nat kq)"
    using double_space_total [OF assms] by blast
  show ?thesis
    using True s by (auto simp: grow_table_def Let_def intro!: exI [of _ 0] split: prod.splits sum.splits)
next
  case False
  then show ?thesis by (auto simp: grow_table_def intro: exI [of _ 0])
qed

theorem table_growth_witness:
  "\<exists>r S' w'. grow_table (quiet_platform :: unit platform) empty_shim 1000 () = Some (r, S', w') \<and>
     (r = Inr () \<longrightarrow> 1000 < length (open_files S')) \<and> length (open_files S') \<le> 2000"
  using table_growth [of 1000 "quiet_platform :: unit platform" empty_shim "()"]
  by (fastforce simp: INT32_MAX_def empty_shim_def)

end
