(* ===== verification/Blocking.thy ===== *)
theory Blocking
  imports Shim_Ctx
begin

text \<open>
  What the four kinds of descriptors share: publishing a new description, and reading that waits. The
  three loops \<open>..._read_or_block\<close> of the sources have the same shape; the locale \<open>blocking_read\<close> states
  it and holds what follows from it, and each loop is an interpretation in its own theory.

  A state is the shared state together with the world. While a thread waits in \<open>poll\<close> it holds no lock
  and other threads run; their effect is the function \<open>env\<close>.
\<close>

type_synonym 'w state = "EpollShimCtx \<times> 'w"
type_synonym 'w env = "'w state \<Rightarrow> 'w state"

section \<open>Publishing a description\<close>

text \<open>
  The end of the four creation functions: with the context initialised the description gets its vtable
  and is installed, otherwise it is dropped. The result is the new descriptor.
\<close>

definition publish_desc ::
  "'w platform \<Rightarrow> EpollShimCtx \<Rightarrow> int \<Rightarrow> addr \<Rightarrow> 32 word \<Rightarrow> vtable \<Rightarrow> errno + fd_ctx \<Rightarrow> 'w \<Rightarrow>
   ((errno + int) \<times> EpollShimCtx \<times> 'w) option" where
  "publish_desc P S fd a flags vt r w = do {
     d \<leftarrow> descs S a;
     let d1 = d\<lparr>desc_flags := flags AND O_NONBLOCK\<rparr>;
     (case r of
        Inl ec \<Rightarrow> do {
          (S1, w1) \<leftarrow> epoll_shim_ctx_drop_desc P (set_desc a d1 S) fd a w;
          Some (Inl ec, S1, w1)
        }
      | Inr ctx \<Rightarrow> do {
          S1 \<leftarrow> epoll_shim_ctx_install_desc (set_desc a (d1\<lparr>desc_ctx := ctx, desc_vtable := Some vt\<rparr>) S) fd a;
          Some (Inr fd, S1, w)
        })
   }"

section \<open>Looking up the description of a call\<close>

text \<open>
  The error for a descriptor that has no description of the wanted kind: \<open>EBADF\<close> when it is not open,
  \<open>EINVAL\<close> otherwise.
\<close>

definition wrong_fd_error :: "'w platform \<Rightarrow> int \<Rightarrow> 'w \<Rightarrow> errno \<times> 'w" where
  "wrong_fd_error P fd w =
     (if fd < 0 then (EBADF, w)
      else (case sys_fstat P fd w of (Inl _, w1) \<Rightarrow> (EBADF, w1) | (Inr _, w1) \<Rightarrow> (EINVAL, w1)))"

text \<open>
  The frame of the calls on a descriptor: take a reference, check the kind, run \<open>body\<close>, give the
  reference back.
\<close>

definition with_desc ::
  "'w platform \<Rightarrow> vtable \<Rightarrow> int \<Rightarrow> EpollShimCtx \<Rightarrow> 'w \<Rightarrow>
   (addr \<Rightarrow> EpollShimCtx \<Rightarrow> 'w \<Rightarrow> ((errno + 'a) \<times> EpollShimCtx \<times> 'w) option) \<Rightarrow>
   ((errno + 'a) \<times> EpollShimCtx \<times> 'w) option" where
  "with_desc P vt fd S w body =
     (case epoll_shim_ctx_global S of
        Inl ec \<Rightarrow> Some (Inl ec, S, w)
      | Inr _ \<Rightarrow> do {
          (desc, S1) \<leftarrow> epoll_shim_ctx_find_desc S fd;
          (case desc of
             None \<Rightarrow> (let (ec, w1) = wrong_fd_error P fd w in Some (Inl ec, S1, w1))
           | Some a \<Rightarrow> do {
               d \<leftarrow> descs S1 a;
               (r, S2, w2) \<leftarrow>
                 (if desc_vtable d \<noteq> Some vt
                  then (let (ec, w1) = wrong_fd_error P fd w in Some (Inl ec, S1, w1))
                  else body a S1 w);
               (_, S3, w3) \<leftarrow> file_description_unref P S2 a w2;
               Some (r, S3, w3)
             })
        })"

text \<open>The descriptor has a description of the given kind.\<close>

definition has_kind :: "EpollShimCtx \<Rightarrow> int \<Rightarrow> vtable \<Rightarrow> bool" where
  "has_kind S fd vt \<longleftrightarrow>
     (case epoll_shim_ctx_find_desc_impl S fd of
        None \<Rightarrow> False
      | Some a \<Rightarrow> (case descs S a of None \<Rightarrow> False | Some d \<Rightarrow> desc_vtable d = Some vt))"

text \<open>The shared state between two calls: initialised, no lock held, all entries live.\<close>

definition shim_ready :: "EpollShimCtx \<Rightarrow> bool" where
  "shim_ready S \<longleftrightarrow> init_error S = 0 \<and> shim_lock S = Unlocked \<and> table_live S"

lemma shim_readyD:
  assumes "shim_ready S"
  shows "epoll_shim_ctx_global S = Inr ()" "shim_lock S = Unlocked" "table_live S"
  using assms by (simp_all add: shim_ready_def epoll_shim_ctx_global_def)

lemma with_desc_wrong:
  assumes "shim_ready S" "\<not> has_kind S fd vt"
  shows "with_desc P vt fd S w body = (let (ec, w1) = wrong_fd_error P fd w in Some (Inl ec, S, w1))"
proof (cases rule: find_desc_cases [OF shim_readyD(2,3) [OF assms(1)], of fd])
  case 1
  then show ?thesis by (simp add: with_desc_def shim_readyD(1) [OF assms(1)])
next
  case (2 a d)
  have "desc_vtable d \<noteq> Some vt" using assms(2) 2(1,2) by (simp add: has_kind_def)
  then show ?thesis
    using 2(4)
    by (simp add: with_desc_def shim_readyD(1) [OF assms(1)] unref_extra [OF 2(2,3)] Let_def split: prod.splits)
qed

text \<open>A call on a description of the right kind: the body runs with one more reference.\<close>

lemma with_desc_right:
  assumes "shim_ready S" "epoll_shim_ctx_find_desc_impl S fd = Some a" "descs S a = Some d" "desc_vtable d = Some vt"
  shows "with_desc P vt fd S w body =
    Option.bind (body a (set_desc a (d\<lparr>refcount := refcount d + 1\<rparr>) S) w) (\<lambda>(r, S2, w2).
      Option.bind (file_description_unref P S2 a w2) (\<lambda>(_, S3, w3). Some (r, S3, w3)))"
proof (cases rule: find_desc_cases [OF shim_readyD(2,3) [OF assms(1)], of fd])
  case 1
  then show ?thesis using assms(2) by simp
next
  case (2 b e)
  then show ?thesis using assms(2-4) by (simp add: with_desc_def shim_readyD(1) [OF assms(1)])
qed

section \<open>Reading that waits\<close>

text \<open>Waiting until the kqueue is readable.\<close>

definition poll_readable :: "'w platform \<Rightarrow> 'w env \<Rightarrow> int \<Rightarrow> 'w state \<Rightarrow> (errno + unit) \<times> 'w state" where
  "poll_readable P env kq s =
     (case sys_poll P [\<lparr>pfd_fd = kq, pfd_events = POLLIN, pfd_revents = 0\<rparr>] (-1) (snd s) of
        (Inl ec, w1) \<Rightarrow> (Inl ec, fst s, w1)
      | (Inr _, w1) \<Rightarrow> (Inr (), env (fst s, w1)))"

locale blocking_read =
  fixes attempt :: "'s \<Rightarrow> ((errno + 'v) \<times> bool \<times> 's) option"
    and park :: "'s \<Rightarrow> (errno + unit) \<times> 's"
    and read_or_block :: "'s \<Rightarrow> ((errno + 'v) \<times> 's) option"
  assumes read_or_block_eq:
    "read_or_block s =
       Option.bind (attempt s) (\<lambda>(r, nonblock, s1).
         if nonblock \<or> r \<noteq> Inl EAGAIN then Some (r, s1)
         else (case park s1 of (Inl ec, s2) \<Rightarrow> Some (Inl ec, s2) | (Inr _, s2) \<Rightarrow> read_or_block s2))"
begin

text \<open>A non-blocking read is one attempt, and so is one that finds something.\<close>

lemma returns_at_once:
  assumes "attempt s = Some (r, nonblock, s1)" "nonblock \<or> r \<noteq> Inl EAGAIN"
  shows "read_or_block s = Some (r, s1)"
  using assms by (subst read_or_block_eq) simp

text \<open>One round of waiting.\<close>

definition waits :: "'s \<Rightarrow> 's \<Rightarrow> bool" where
  "waits s s' \<longleftrightarrow> (\<exists>s1. attempt s = Some (Inl EAGAIN, False, s1) \<and> park s1 = (Inr (), s'))"

lemma waits_same: "waits s s' \<Longrightarrow> read_or_block s = read_or_block s'"
  by (subst read_or_block_eq) (auto simp: waits_def)

text \<open>However often a reader has waited: once there is something, it returns it.\<close>

lemma returns_when_ready:
  assumes "waits\<^sup>*\<^sup>* s s'" "attempt s' = Some (r, nonblock, s1)" "nonblock \<or> r \<noteq> Inl EAGAIN"
  shows "read_or_block s = Some (r, s1)"
  using assms(1)
proof (induction rule: converse_rtranclp_induct)
  case base
  show ?case using returns_at_once [OF assms(2,3)] .
next
  case (step x y)
  then show ?case using waits_same by simp
qed

lemma interrupted:
  assumes "waits\<^sup>*\<^sup>* s s'" "attempt s' = Some (Inl EAGAIN, False, s1)" "park s1 = (Inl ec, s2)"
  shows "read_or_block s = Some (Inl ec, s2)"
  using assms(1)
proof (induction rule: converse_rtranclp_induct)
  case base
  show ?case using assms(2,3) by (subst read_or_block_eq) simp
next
  case (step x y)
  then show ?case using waits_same by simp
qed

end

end
