(* ===== verification/Eventfd_Api.thy ===== *)
theory Eventfd_Api
  imports Blocking
begin

text \<open>
  \<open>src/eventfd.c\<close>: creating an eventfd, and the virtual functions behind \<open>read\<close>, \<open>write\<close> and \<open>close\<close> on it.
  A buffer of eight bytes is the 64-bit value that \<open>memcpy\<close> moves in or out.
\<close>

section \<open>Operations\<close>

abbreviation EFD_SEMAPHORE :: "32 word" where "EFD_SEMAPHORE \<equiv> 1"
abbreviation EFD_CLOEXEC :: "32 word" where "EFD_CLOEXEC \<equiv> O_CLOEXEC"
abbreviation EFD_NONBLOCK :: "32 word" where "EFD_NONBLOCK \<equiv> O_NONBLOCK"

text \<open>One attempt to read, with the mutex held; the flag says whether the description is non-blocking.\<close>

definition eventfd_attempt ::
  "'w platform \<Rightarrow> addr \<Rightarrow> int \<Rightarrow> 'w state \<Rightarrow> ((errno + 64 word) \<times> bool \<times> 'w state) option" where
  "eventfd_attempt P a kq s = do {
     (d, S1) \<leftarrow> lock_desc (fst s) a;
     (case desc_ctx d of
        Ctx_eventfd e \<Rightarrow> do {
          (r, e1, w1) \<leftarrow> eventfd_ctx_read P kq e (snd s);
          S2 \<leftarrow> unlock_desc (set_desc a (d\<lparr>desc_ctx := Ctx_eventfd e1\<rparr>) S1) a;
          Some (r, has_bits (desc_flags d) O_NONBLOCK, S2, w1)
        }
      | _ \<Rightarrow> None)
   }"

partial_function (option) eventfd_ctx_read_or_block ::
  "'w platform \<Rightarrow> 'w env \<Rightarrow> addr \<Rightarrow> int \<Rightarrow> 'w state \<Rightarrow> ((errno + 64 word) \<times> 'w state) option" where
  "eventfd_ctx_read_or_block P env a kq s =
     Option.bind (eventfd_attempt P a kq s) (\<lambda>(r, nonblock, s1).
       if nonblock \<or> r \<noteq> Inl EAGAIN then Some (r, s1)
       else (case poll_readable P env kq s1 of
               (Inl ec, s2) \<Rightarrow> Some (Inl ec, s2)
             | (Inr _, s2) \<Rightarrow> eventfd_ctx_read_or_block P env a kq s2))"

interpretation efd: blocking_read "eventfd_attempt P a kq" "poll_readable P env kq"
  "eventfd_ctx_read_or_block P env a kq" for P env a kq
  by unfold_locales (rule eventfd_ctx_read_or_block.simps)

definition eventfd_helper_read ::
  "'w platform \<Rightarrow> 'w env \<Rightarrow> addr \<Rightarrow> int \<Rightarrow> nat \<Rightarrow> 'w state \<Rightarrow> ((errno + 64 word) \<times> 'w state) option" where
  "eventfd_helper_read P env a kq nbytes s =
     (if nbytes \<noteq> 8 then Some (Inl EINVAL, s) else eventfd_ctx_read_or_block P env a kq s)"

definition eventfd_helper_write ::
  "'w platform \<Rightarrow> addr \<Rightarrow> int \<Rightarrow> 64 word \<Rightarrow> nat \<Rightarrow> 'w state \<Rightarrow> ((errno + nat) \<times> 'w state) option" where
  "eventfd_helper_write P a kq value nbytes s =
     (if nbytes \<noteq> 8 then Some (Inl EINVAL, s)
      else do {
        (d, S1) \<leftarrow> lock_desc (fst s) a;
        (case desc_ctx d of
           Ctx_eventfd e \<Rightarrow>
             (let (r, e1, w1) = eventfd_ctx_write P kq e value (snd s)
              in do {
                   S2 \<leftarrow> unlock_desc (set_desc a (d\<lparr>desc_ctx := Ctx_eventfd e1\<rparr>) S1) a;
                   Some (case r of Inl ec \<Rightarrow> Inl ec | Inr _ \<Rightarrow> Inr 8, S2, w1)
                 })
         | _ \<Rightarrow> None)
      })"

definition eventfd_impl ::
  "'w platform \<Rightarrow> EpollShimCtx \<Rightarrow> 32 word \<Rightarrow> 32 word \<Rightarrow> 'w \<Rightarrow> ((errno + int) \<times> EpollShimCtx \<times> 'w) option" where
  "eventfd_impl P S initval flags w =
     (if \<not> subset_bits flags (EFD_SEMAPHORE OR EFD_CLOEXEC OR EFD_NONBLOCK) then Some (Inl EINVAL, S, w)
      else (case epoll_shim_ctx_global S of
              Inl ec \<Rightarrow> Some (Inl ec, S, w)
            | Inr _ \<Rightarrow> do {
                (c, S1, w1) \<leftarrow> epoll_shim_ctx_create_desc P S (flags AND (O_CLOEXEC OR O_NONBLOCK)) w;
                (case c of
                   Inl ec \<Rightarrow> Some (Inl ec, S1, w1)
                 | Inr (fd, a) \<Rightarrow> do {
                     let ctx_flags = (if has_bits flags EFD_SEMAPHORE then EVENTFD_CTX_FLAG_SEMAPHORE else 0);
                     (i, w2) \<leftarrow> eventfd_ctx_init P fd initval ctx_flags w1;
                     publish_desc P S1 fd a flags eventfd_vtable
                       (case i of Inl ec \<Rightarrow> Inl ec | Inr e \<Rightarrow> Inr (Ctx_eventfd e)) w2
                   })
              }))"

section \<open>One attempt\<close>

lemma eventfd_attempt_eq:
  assumes "descs S a = Some d" "\<not> desc_locked d" "desc_ctx d = Ctx_eventfd e"
    and "eventfd_ctx_read P kq e w = Some (r, e1, w1)"
  shows "eventfd_attempt P a kq (S, w) =
    Some (r, has_bits (desc_flags d) O_NONBLOCK, set_desc a (d\<lparr>desc_ctx := Ctx_eventfd e1\<rparr>) S, w1)"
  using assms by (simp add: eventfd_attempt_def lock_desc_free unlock_set_desc)

lemma eventfd_helper_write_eq:
  assumes "descs S a = Some d" "\<not> desc_locked d" "desc_ctx d = Ctx_eventfd e"
    and "eventfd_ctx_write P kq e v w = (r, e1, w1)"
  shows "eventfd_helper_write P a kq v 8 (S, w) =
    Some (case r of Inl ec \<Rightarrow> Inl ec | Inr _ \<Rightarrow> Inr 8, set_desc a (d\<lparr>desc_ctx := Ctx_eventfd e1\<rparr>) S, w1)"
  using assms by (simp add: eventfd_helper_write_def lock_desc_free unlock_set_desc)

end
