(* ===== verification/Timerfd_Api.thy ===== *)
theory Timerfd_Api
  imports Blocking
begin

text \<open>
  \<open>src/timerfd.c\<close>: creating, setting, querying and reading a timer descriptor. Setting a timer keeps the
  number of timers that a step of the real-time clock can affect, for the monitoring of \<open>File_Desc\<close>.
\<close>

section \<open>Operations\<close>

abbreviation TFD_CLOEXEC :: "32 word" where "TFD_CLOEXEC \<equiv> O_CLOEXEC"
abbreviation TFD_NONBLOCK :: "32 word" where "TFD_NONBLOCK \<equiv> O_NONBLOCK"
abbreviation TFD_TIMER_ABSTIME :: "32 word" where "TFD_TIMER_ABSTIME \<equiv> 1"
abbreviation TFD_TIMER_CANCEL_ON_SET :: "32 word" where "TFD_TIMER_CANCEL_ON_SET \<equiv> 2"

definition timerfd_attempt ::
  "'w platform \<Rightarrow> addr \<Rightarrow> int \<Rightarrow> 'w state \<Rightarrow> ((errno + 64 word) \<times> bool \<times> 'w state) option" where
  "timerfd_attempt P a kq s = do {
     (d, S1) \<leftarrow> lock_desc (fst s) a;
     (case desc_ctx d of
        Ctx_timerfd t \<Rightarrow> do {
          (r, t1, w1) \<leftarrow> timerfd_ctx_read P t kq (snd s);
          let nonblock = has_bits (desc_flags d) O_NONBLOCK;
          S2 \<leftarrow> unlock_desc (set_desc a (d\<lparr>desc_ctx := Ctx_timerfd t1\<rparr>) S1) a;
          Some (if nonblock \<and> r = Inr 0 then Inl EAGAIN else r, nonblock, S2, w1)
        }
      | _ \<Rightarrow> None)
   }"

partial_function (option) timerfd_ctx_read_or_block ::
  "'w platform \<Rightarrow> 'w env \<Rightarrow> addr \<Rightarrow> int \<Rightarrow> 'w state \<Rightarrow> ((errno + 64 word) \<times> 'w state) option" where
  "timerfd_ctx_read_or_block P env a kq s =
     Option.bind (timerfd_attempt P a kq s) (\<lambda>(r, nonblock, s1).
       if nonblock \<or> r \<noteq> Inl EAGAIN then Some (r, s1)
       else (case poll_readable P env kq s1 of
               (Inl ec, s2) \<Rightarrow> Some (Inl ec, s2)
             | (Inr _, s2) \<Rightarrow> timerfd_ctx_read_or_block P env a kq s2))"

interpretation tfd: blocking_read "timerfd_attempt P a kq" "poll_readable P env kq"
  "timerfd_ctx_read_or_block P env a kq" for P env a kq
  by unfold_locales (rule timerfd_ctx_read_or_block.simps)

text \<open>The number of expirations, or \<open>None\<close> when no byte is transferred.\<close>

definition timerfd_read ::
  "'w platform \<Rightarrow> 'w env \<Rightarrow> addr \<Rightarrow> int \<Rightarrow> nat \<Rightarrow> 'w state \<Rightarrow> ((errno + 64 word option) \<times> 'w state) option" where
  "timerfd_read P env a kq nbytes s =
     (if nbytes < 8 then Some (Inl EINVAL, s)
      else do {
        (r, s1) \<leftarrow> timerfd_ctx_read_or_block P env a kq s;
        Some (case r of Inl ec \<Rightarrow> Inl ec | Inr n \<Rightarrow> Inr (if n = 0 then None else Some n), s1)
      })"

text \<open>Clock ids other than the two known ones are \<open>None\<close>.\<close>

definition timerfd_create_impl ::
  "'w platform \<Rightarrow> EpollShimCtx \<Rightarrow> clockid option \<Rightarrow> 32 word \<Rightarrow> 'w \<Rightarrow> ((errno + int) \<times> EpollShimCtx \<times> 'w) option" where
  "timerfd_create_impl P S clockid flags w =
     (case clockid of
        None \<Rightarrow> Some (Inl EINVAL, S, w)
      | Some c \<Rightarrow>
          if \<not> subset_bits flags (TFD_CLOEXEC OR TFD_NONBLOCK) then Some (Inl EINVAL, S, w)
          else (case epoll_shim_ctx_global S of
                  Inl ec \<Rightarrow> Some (Inl ec, S, w)
                | Inr _ \<Rightarrow> do {
                    (r, S1, w1) \<leftarrow> epoll_shim_ctx_create_desc P S (flags AND (O_CLOEXEC OR O_NONBLOCK)) w;
                    (case r of
                       Inl ec \<Rightarrow> Some (Inl ec, S1, w1)
                     | Inr (fd, a) \<Rightarrow>
                         publish_desc P S1 fd a flags timerfd_vtable (Inr (Ctx_timerfd (timerfd_ctx_init c))) w1)
                  }))"

text \<open>The part of \<open>timerfd_settime_impl\<close> under the mutex of the description.\<close>

definition settime_locked ::
  "'w platform \<Rightarrow> int \<Rightarrow> 32 word \<Rightarrow> itimerspec \<Rightarrow> bool \<Rightarrow> addr \<Rightarrow> EpollShimCtx \<Rightarrow> 'w \<Rightarrow>
   ((errno + itimerspec option) \<times> EpollShimCtx \<times> 'w) option" where
  "settime_locked P fd flags new want_old a S w = do {
     (d, S1) \<leftarrow> lock_desc S a;
     (case desc_ctx d of
        Ctx_timerfd t \<Rightarrow> do {
          (r, old, t1, w1) \<leftarrow> timerfd_ctx_settime P t fd (has_bits flags TFD_TIMER_ABSTIME)
             (has_bits flags TFD_TIMER_CANCEL_ON_SET) new want_old w;
          (S2, w2) \<leftarrow> (if r = Inr () \<or> r = Inl ECANCELED
             then epoll_shim_ctx_update_realtime_change_monitoring P S1 (timer_can_jump t1 - timer_can_jump t) w1
             else Some (S1, w1));
          S3 \<leftarrow> unlock_desc (set_desc a (d\<lparr>desc_ctx := Ctx_timerfd t1\<rparr>) S2) a;
          Some (case r of Inl ec \<Rightarrow> Inl ec | Inr _ \<Rightarrow> Inr old, S3, w2)
        }
      | _ \<Rightarrow> None)
   }"

text \<open>The new setting is \<open>None\<close> for a null pointer; the old one is stored when \<open>want_old\<close>.\<close>

definition timerfd_settime_impl ::
  "'w platform \<Rightarrow> EpollShimCtx \<Rightarrow> int \<Rightarrow> 32 word \<Rightarrow> itimerspec option \<Rightarrow> bool \<Rightarrow> 'w \<Rightarrow>
   ((errno + itimerspec option) \<times> EpollShimCtx \<times> 'w) option" where
  "timerfd_settime_impl P S fd flags new want_old w =
     (case new of
        None \<Rightarrow> Some (Inl EFAULT, S, w)
      | Some n \<Rightarrow>
          if \<not> subset_bits flags (TFD_TIMER_ABSTIME OR TFD_TIMER_CANCEL_ON_SET) then Some (Inl EINVAL, S, w)
          else with_desc P timerfd_vtable fd S w (settime_locked P fd flags n want_old))"

definition gettime_locked ::
  "'w platform \<Rightarrow> addr \<Rightarrow> EpollShimCtx \<Rightarrow> 'w \<Rightarrow> ((errno + itimerspec) \<times> EpollShimCtx \<times> 'w) option" where
  "gettime_locked P a S w = do {
     (d, S1) \<leftarrow> lock_desc S a;
     (case desc_ctx d of
        Ctx_timerfd t \<Rightarrow> do {
          (r, t1, w1) \<leftarrow> timerfd_ctx_gettime P t w;
          S2 \<leftarrow> unlock_desc (set_desc a (d\<lparr>desc_ctx := Ctx_timerfd t1\<rparr>) S1) a;
          Some (r, S2, w1)
        }
      | _ \<Rightarrow> None)
   }"

definition timerfd_gettime_impl ::
  "'w platform \<Rightarrow> EpollShimCtx \<Rightarrow> int \<Rightarrow> 'w \<Rightarrow> ((errno + itimerspec) \<times> EpollShimCtx \<times> 'w) option" where
  "timerfd_gettime_impl P S fd w = with_desc P timerfd_vtable fd S w (gettime_locked P)"

section \<open>Properties\<close>

text \<open>A setting that is refused changes nothing about whether the timer can jump.\<close>

lemma settime_arm_refused:
  "settime_arm P t kq abst canc new known w = Some (Inl e, t1, w1) \<Longrightarrow> t1 = t"
  unfolding settime_arm_def Let_def
  by (auto split: Option.bind_splits option.splits sum.splits prod.splits)

lemma settime_refused:
  assumes "clock_ok P" "timer_wf t" "timerfd_ctx_settime P t kq abst canc new want w = Some (Inl e, old, t', w')"
    and "e \<noteq> ECANCELED"
  shows "timer_can_jump t' = timer_can_jump t"
proof (cases rule: settime_old_total [OF assms(1,2), where want = want and w = w])
  case 1
  then show ?thesis using assms(3) by (auto simp: timerfd_ctx_settime_def split: if_splits)
next
  case (2 known old t0 w0)
  show ?thesis
  proof (cases "itimerspec_is_valid new")
    case False
    then show ?thesis using assms(3) by (simp add: timerfd_ctx_settime_def)
  next
    case True
    then have "t' = t0"
      using 2(1) assms(3,4)
      by (auto simp: timerfd_ctx_settime_def Let_def split: if_splits Option.bind_splits sum.splits prod.splits
          dest: settime_arm_refused)
    then show ?thesis using 2(3) by (simp add: same_setup_def timer_can_jump_def)
  qed
qed

lemma settime_monitored:
  assumes "kevent_receipts P" "clock_ok P" "monitored S" "descs S a = Some d" "\<not> desc_locked d"
    and "desc_ctx d = Ctx_timerfd t" "timer_wf t" "ts_wf (it_value new)" "ts_wf (it_interval new)"
  shows "\<exists>r t' S' w'. settime_locked P fd flags new want a S w = Some (r, S', w') \<and> timer_wf t' \<and>
    monitored_after S a (Some (d\<lparr>desc_ctx := Ctx_timerfd t'\<rparr>)) S'"
proof -
  obtain r old t1 w1 where st: "timerfd_ctx_settime P t fd (has_bits flags TFD_TIMER_ABSTIME)
      (has_bits flags TFD_TIMER_CANCEL_ON_SET) new want w = Some (r, old, t1, w1)" "timer_wf t1"
    by (rule settime_total [OF assms(1,2,7-9), where kq = fd and abst = "has_bits flags TFD_TIMER_ABSTIME"
          and canc = "has_bits flags TFD_TIMER_CANCEL_ON_SET" and want = want and w = w])
  let ?l = "d\<lparr>desc_locked := True\<rparr>" and ?d = "d\<lparr>desc_ctx := Ctx_timerfd t1\<rparr>"
  let ?S = "set_desc a ?l S"
  let ?change = "if r = Inr () \<or> r = Inl ECANCELED then timer_can_jump t1 - timer_can_jump t else 0"
  have mon: "monitored ?S" "descs ?S a = Some ?l" using monitored_same_ctx [OF assms(3,4), of ?l] by simp_all
  have ch: "?change = desc_jumps (Some ?d) - desc_jumps (Some ?l)"
    using settime_refused [OF assms(2,7)] st(1) assms(6) by (cases r) (auto simp: desc_jumps_def)
  obtain n g w2 where u: "epoll_shim_ctx_update_realtime_change_monitoring P ?S ?change w1 =
      Some (?S\<lparr>nr_fds_for_realtime_step_detector := n, realtime_step_detector_generation := g\<rparr>, w2)"
    "unat n = card (jumping (?S\<lparr>descs := (descs ?S)(a := Some ?d)\<rparr>))"
    "g = realtime_step_detector_generation S + (if nr_fds_for_realtime_step_detector S \<noteq> 0 \<and> n = 0 then 1 else 0)"
    using monitored_step [OF mon ch] by fastforce
  let ?S3 = "set_desc a ?d (?S\<lparr>nr_fds_for_realtime_step_detector := n, realtime_step_detector_generation := g\<rparr>)"
  have "(if r = Inr () \<or> r = Inl ECANCELED
      then epoll_shim_ctx_update_realtime_change_monitoring P ?S (timer_can_jump t1 - timer_can_jump t) w1
      else Some (?S, w1)) = epoll_shim_ctx_update_realtime_change_monitoring P ?S ?change w1"
    by (simp add: epoll_shim_ctx_update_realtime_change_monitoring_def)
  then have "settime_locked P fd flags new want a S w = Some (case r of Inl ec \<Rightarrow> Inl ec | Inr _ \<Rightarrow> Inr old, ?S3, w2)"
    using u(1) assms(4-6) st(1) unlock_set_desc [of "?l\<lparr>desc_ctx := Ctx_timerfd t1\<rparr>" a]
    by (simp add: settime_locked_def lock_desc_free)
  moreover have "jumping (?S\<lparr>descs := (descs ?S)(a := Some ?d)\<rparr>) = jumping (S\<lparr>descs := (descs S)(a := Some ?d)\<rparr>)"
    by (simp add: jumping_def)
  then have "monitored_after S a (Some ?d) ?S3"
    using u(2,3) by (intro monitored_afterI [OF assms(3,4)]) simp_all
  ultimately show ?thesis using st(2) by blast
qed

text \<open>
  C34: the monitoring of the real-time clock counts exactly the timers that a step of the clock can affect.
  Setting a timer, whether it succeeds, is cancelled or fails, and dropping the last reference to one
  always return, fail no assertion and keep the counter equal to the number of such timers; the generation
  that ends the detector thread is advanced exactly when the last of them goes.
\<close>

theorem clock_monitoring_exact:
  assumes "kevent_receipts P" "clock_ok P" "monitored S" "descs S a = Some d" "\<not> desc_locked d"
    and "desc_ctx d = Ctx_timerfd t" "timer_wf t" "ts_wf (it_value new)" "ts_wf (it_interval new)"
  shows "(\<exists>r t' S' w'. settime_locked P fd flags new want a S w = Some (r, S', w') \<and> timer_wf t' \<and>
      monitored_after S a (Some (d\<lparr>desc_ctx := Ctx_timerfd t'\<rparr>)) S') \<and>
    (desc_vtable d = Some timerfd_vtable \<and> refcount d = 1 \<and> init_error S = 0 \<longrightarrow>
      (\<exists>r S' w'. file_description_unref P S a w = Some (r, S', w') \<and> monitored_after S a None S'))"
  using settime_monitored [OF assms, of fd flags want w] timer_unref_monitored [OF assms(3,4,6), of P w] by blast

theorem clock_monitoring_exact_witness:
  "\<exists>r S' w'. settime_locked (quiet_platform :: unit platform) 3 TFD_TIMER_ABSTIME
       \<lparr>it_interval = ts_zero, it_value = \<lparr>tv_sec = 200, tv_nsec = 0\<rparr>\<rparr> False 64
       (demo_shim (Ctx_timerfd (timerfd_ctx_init CLOCK_REALTIME)) timerfd_vtable 0) () = Some (r, S', w') \<and>
     monitored S'"
proof -
  let ?S = "demo_shim (Ctx_timerfd (timerfd_ctx_init CLOCK_REALTIME)) timerfd_vtable 0"
  have "monitored ?S"
    by (simp add: monitored_def jumping_def demo_shim_def empty_shim_def timer_can_jump_def timerfd_ctx_init_def)
  then show ?thesis
    using clock_monitoring_exact [of "quiet_platform :: unit platform" ?S 64
        "\<lparr>refcount = 1, desc_locked = False, desc_flags = 0,
          desc_ctx = Ctx_timerfd (timerfd_ctx_init CLOCK_REALTIME), desc_vtable = Some timerfd_vtable\<rparr>"
        "timerfd_ctx_init CLOCK_REALTIME" "\<lparr>it_interval = ts_zero, it_value = \<lparr>tv_sec = 200, tv_nsec = 0\<rparr>\<rparr>"
        3 TFD_TIMER_ABSTIME False "()"]
    by (fastforce simp: demo_shim_def monitored_after_def ts_defs)
qed

end
