(* ===== verification/Signalfd_Api.thy ===== *)
theory Signalfd_Api
  imports Blocking
begin

text \<open>
  \<open>src/signalfd.c\<close>: creating a signalfd and reading as many signals as the buffer has room for, of which
  only the first may be waited for.
\<close>

section \<open>Operations\<close>

abbreviation SFD_CLOEXEC :: "32 word" where "SFD_CLOEXEC \<equiv> O_CLOEXEC"
abbreviation SFD_NONBLOCK :: "32 word" where "SFD_NONBLOCK \<equiv> O_NONBLOCK"

definition sizeof_siginfo :: nat where "sizeof_siginfo = 128"

definition signalfd_attempt ::
  "'w platform \<Rightarrow> addr \<Rightarrow> int \<Rightarrow> bool \<Rightarrow> 'w state \<Rightarrow> ((errno + SignalFDCtxSiginfo) \<times> bool \<times> 'w state) option" where
  "signalfd_attempt P a kq force_nonblock s = do {
     (d, S1) \<leftarrow> lock_desc (fst s) a;
     (case desc_ctx d of
        Ctx_signalfd c \<Rightarrow> do {
          (r, c1, w1) \<leftarrow> signalfd_ctx_read P c kq zero_ssi (snd s);
          S2 \<leftarrow> unlock_desc (set_desc a (d\<lparr>desc_ctx := Ctx_signalfd c1\<rparr>) S1) a;
          Some (r, force_nonblock \<or> has_bits (desc_flags d) O_NONBLOCK, S2, w1)
        }
      | _ \<Rightarrow> None)
   }"

partial_function (option) signalfd_ctx_read_or_block ::
  "'w platform \<Rightarrow> 'w env \<Rightarrow> addr \<Rightarrow> int \<Rightarrow> bool \<Rightarrow> 'w state \<Rightarrow> ((errno + SignalFDCtxSiginfo) \<times> 'w state) option" where
  "signalfd_ctx_read_or_block P env a kq force_nonblock s =
     Option.bind (signalfd_attempt P a kq force_nonblock s) (\<lambda>(r, nonblock, s1).
       if nonblock \<or> r \<noteq> Inl EAGAIN then Some (r, s1)
       else (case poll_readable P env kq s1 of
               (Inl ec, s2) \<Rightarrow> Some (Inl ec, s2)
             | (Inr _, s2) \<Rightarrow> signalfd_ctx_read_or_block P env a kq force_nonblock s2))"

interpretation sfd: blocking_read "signalfd_attempt P a kq force_nonblock" "poll_readable P env kq"
  "signalfd_ctx_read_or_block P env a kq force_nonblock" for P env a kq force_nonblock
  by unfold_locales (rule signalfd_ctx_read_or_block.simps)

text \<open>The loop over the slots of the buffer: the signals read and the error that ended it.\<close>

fun read_signals ::
  "'w platform \<Rightarrow> 'w env \<Rightarrow> addr \<Rightarrow> int \<Rightarrow> bool \<Rightarrow> nat \<Rightarrow> 'w state \<Rightarrow>
   (SignalFDCtxSiginfo list \<times> errno \<times> 'w state) option" where
  "read_signals P env a kq force_nonblock 0 s = Some ([], 0, s)"
| "read_signals P env a kq force_nonblock (Suc slots) s = do {
     (r, s1) \<leftarrow> signalfd_ctx_read_or_block P env a kq force_nonblock s;
     (case r of
        Inl ec \<Rightarrow> Some ([], ec, s1)
      | Inr info \<Rightarrow> do {
          (infos, ec, s2) \<leftarrow> read_signals P env a kq True slots s1;
          Some (info # infos, ec, s2)
        })
   }"

definition signalfd_read ::
  "'w platform \<Rightarrow> 'w env \<Rightarrow> addr \<Rightarrow> int \<Rightarrow> nat \<Rightarrow> 'w state \<Rightarrow> ((errno + SignalFDCtxSiginfo list) \<times> 'w state) option" where
  "signalfd_read P env a kq nbytes s =
     (if nbytes < sizeof_siginfo then Some (Inl EINVAL, s)
      else do {
        (infos, ec, s1) \<leftarrow> read_signals P env a kq False (nbytes div sizeof_siginfo) s;
        Some (if infos \<noteq> [] then Inr infos else Inl ec, s1)
      })"

text \<open>The signal set is \<open>None\<close> for a null pointer.\<close>

definition signalfd_impl ::
  "'w platform \<Rightarrow> EpollShimCtx \<Rightarrow> int \<Rightarrow> sigset option \<Rightarrow> 32 word \<Rightarrow> 'w \<Rightarrow> ((errno + int) \<times> EpollShimCtx \<times> 'w) option" where
  "signalfd_impl P S fd sigs flags w =
     (if sigs = None \<or> \<not> subset_bits flags (SFD_NONBLOCK OR SFD_CLOEXEC) then Some (Inl EINVAL, S, w)
      else if fd \<noteq> -1 then (let (ec, w1) = wrong_fd_error P fd w in Some (Inl ec, S, w1))
      else (case epoll_shim_ctx_global S of
              Inl ec \<Rightarrow> Some (Inl ec, S, w)
            | Inr _ \<Rightarrow> do {
                (c, S1, w1) \<leftarrow> epoll_shim_ctx_create_desc P S (flags AND (O_CLOEXEC OR O_NONBLOCK)) w;
                (case c of
                   Inl ec \<Rightarrow> Some (Inl ec, S1, w1)
                 | Inr (sfd, a) \<Rightarrow> do {
                     (i, w2) \<leftarrow> signalfd_ctx_init P sfd (the sigs) w1;
                     publish_desc P S1 sfd a flags signalfd_vtable
                       (case i of Inl ec \<Rightarrow> Inl ec | Inr e \<Rightarrow> Inr (Ctx_signalfd e)) w2
                   })
              }))"

section \<open>Properties\<close>

text \<open>A read that must not wait does not depend on the other threads.\<close>

lemma read_or_block_forced:
  "signalfd_ctx_read_or_block P env a kq True s = signalfd_ctx_read_or_block P env2 a kq True s"
proof (cases "signalfd_attempt P a kq True s")
  case None
  then show ?thesis by (subst (1 2) signalfd_ctx_read_or_block.simps) simp
next
  case (Some x)
  then obtain q s1 where "signalfd_attempt P a kq True s = Some (q, True, s1)"
    by (auto simp: signalfd_attempt_def split: Option.bind_splits fd_ctx.splits)
  then have "signalfd_ctx_read_or_block P e a kq True s = Some (q, s1)" for e
    by (rule sfd.returns_at_once) simp
  then show ?thesis by simp
qed

lemma read_signals_forced:
  "read_signals P env a kq True n s = read_signals P env2 a kq True n s"
proof (induction n arbitrary: s)
  case (Suc n)
  then have "read_signals P env a kq True n = read_signals P env2 a kq True n" by (rule ext)
  then show ?case unfolding read_signals.simps read_or_block_forced [of P env a kq _ env2] by (simp only:)
qed simp

lemma read_signals_length:
  assumes "read_signals P env a kq force n s = Some (infos, ec, s')"
  shows "length infos \<le> n"
  using assms
proof (induction n arbitrary: force s infos)
  case (Suc n)
  then show ?case by (auto split: Option.bind_splits sum.splits)
qed simp



end
