(* ===== verification/Epoll_Api.thy ===== *)
theory Epoll_Api
  imports Blocking Compat
begin

text \<open>
  \<open>src/epoll.c\<close>: \<open>epoll_create\<close>, \<open>epoll_ctl\<close> and \<open>epoll_pwait\<close> on top of the epoll context, whose callbacks
  into other descriptions go through \<open>shim_platform\<close>.

  In the waiting loop other threads act while the thread is in \<open>ppoll\<close>. A thread that changes the
  poll-only descriptors waits until all pollers have left, so its action completes after this thread has
  taken itself off the count of pollers; the model lets the other threads act at that point.
\<close>

section \<open>Creating and controlling\<close>

abbreviation EPOLL_CLOEXEC :: "32 word" where "EPOLL_CLOEXEC \<equiv> O_CLOEXEC"

definition epoll_create_impl ::
  "'w platform \<Rightarrow> EpollShimCtx \<Rightarrow> 32 word \<Rightarrow> 'w \<Rightarrow> ((errno + int) \<times> EpollShimCtx \<times> 'w) option" where
  "epoll_create_impl P S flags w =
     (case epoll_shim_ctx_global S of
        Inl ec \<Rightarrow> Some (Inl ec, S, w)
      | Inr _ \<Rightarrow> do {
          (c, S1, w1) \<leftarrow> epoll_shim_ctx_create_desc P S (flags AND (O_CLOEXEC OR O_NONBLOCK)) w;
          (case c of
             Inl ec \<Rightarrow> Some (Inl ec, S1, w1)
           | Inr (fd, a) \<Rightarrow>
               (let (i, w2) = epollfd_ctx_init P w1
                in publish_desc P S1 fd a flags epollfd_vtable
                     (case i of Inl ec \<Rightarrow> Inl ec | Inr e \<Rightarrow> Inr (Ctx_epollfd e)) w2))
        })"

definition epoll_create ::
  "'w platform \<Rightarrow> EpollShimCtx \<Rightarrow> int \<Rightarrow> 'w \<Rightarrow> ((errno + int) \<times> EpollShimCtx \<times> 'w) option" where
  "epoll_create P S sz w = (if sz \<le> 0 then Some (Inl EINVAL, S, w) else epoll_create_impl P S 0 w)"

definition epoll_create1 ::
  "'w platform \<Rightarrow> EpollShimCtx \<Rightarrow> 32 word \<Rightarrow> 'w \<Rightarrow> ((errno + int) \<times> EpollShimCtx \<times> 'w) option" where
  "epoll_create1 P S flags w =
     (if \<not> subset_bits flags EPOLL_CLOEXEC then Some (Inl EINVAL, S, w) else epoll_create_impl P S flags w)"

text \<open>Running an operation of the epoll context of a description that is locked.\<close>

definition on_epollfd ::
  "addr \<Rightarrow> (EpollFDCtx \<Rightarrow> 'w state \<Rightarrow> ('r \<times> EpollFDCtx \<times> 'w state) option) \<Rightarrow> 'w state \<Rightarrow> ('r \<times> 'w state) option" where
  "on_epollfd a f s = do {
     (d, S1) \<leftarrow> lock_desc (fst s) a;
     (case desc_ctx d of
        Ctx_epollfd e \<Rightarrow> do {
          (r, e1, S2, w2) \<leftarrow> f e (S1, snd s);
          not_crashed S2;
          d2 \<leftarrow> descs S2 a;
          S3 \<leftarrow> unlock_desc (set_desc a (d2\<lparr>desc_ctx := Ctx_epollfd e1\<rparr>) S2) a;
          Some (r, S3, w2)
        }
      | _ \<Rightarrow> None)
   }"

definition epoll_ctl_body ::
  "'w platform \<Rightarrow> int \<Rightarrow> int \<Rightarrow> int \<Rightarrow> epoll_event option \<Rightarrow> addr \<Rightarrow> EpollShimCtx \<Rightarrow> 'w \<Rightarrow>
   ((errno + unit) \<times> EpollShimCtx \<times> 'w) option" where
  "epoll_ctl_body P fd op fd2 ev a S w = do {
     (fd2_desc, S1) \<leftarrow> (if op = EPOLL_CTL_ADD then epoll_shim_ctx_find_desc S fd2 else Some (None, S));
     pollable \<leftarrow> fd_as_pollable_desc S1 fd2_desc;
     (r, S2, w2) \<leftarrow> on_epollfd a (\<lambda>e s. epollfd_ctx_ctl (shim_platform P) e fd op fd2 pollable ev s) (S1, w);
     (case fd2_desc of
        None \<Rightarrow> Some (r, S2, w2)
      | Some b \<Rightarrow> do { (_, S3, w3) \<leftarrow> file_description_unref P S2 b w2; Some (r, S3, w3) })
   }"

definition epoll_ctl_impl ::
  "'w platform \<Rightarrow> EpollShimCtx \<Rightarrow> int \<Rightarrow> int \<Rightarrow> int \<Rightarrow> epoll_event option \<Rightarrow> 'w \<Rightarrow>
   ((errno + unit) \<times> EpollShimCtx \<times> 'w) option" where
  "epoll_ctl_impl P S fd op fd2 ev w =
     (if ev = None \<and> op \<noteq> EPOLL_CTL_DEL then Some (Inl EFAULT, S, w)
      else with_desc P epollfd_vtable fd S w (epoll_ctl_body P fd op fd2 ev))"

section \<open>Waiting\<close>

text \<open>The time left until the deadline, not below zero.\<close>

definition remaining_timeout :: "timespec \<Rightarrow> timespec \<Rightarrow> timespec" where
  "remaining_timeout deadline now =
     (let t = timespecsub deadline now in if tv_sec t < 0 then ts_zero else t)"

text \<open>The array for \<open>ppoll\<close>, and taking part in the count of pollers.\<close>

definition prepare_poll ::
  "'w platform \<Rightarrow> int \<Rightarrow> EpollFDCtx \<Rightarrow> 'w state \<Rightarrow> ((errno + pollfd list) \<times> EpollFDCtx \<times> 'w state) option" where
  "prepare_poll P kq e s =
     (let sz = (1 + poll_fds_size e) * cfg_sizeof_pollfd P
      in if sz > cfg_SIZE_MAX P then Some (Inl ENOMEM, e, s)
         else (case sys_realloc P sz (snd s) of
                 (Inl ec, w1) \<Rightarrow> Some (Inl ec, e, fst s, w1)
               | (Inr _, w1) \<Rightarrow> do {
                   pfds \<leftarrow> epollfd_ctx_fill_pollfds e kq;
                   c_assert (length pfds \<le> 1 + poll_fds_size e);
                   Some (Inr pfds, e\<lparr>nr_polling_threads := nr_polling_threads e + 1\<rparr>, fst s, w1)
                 }))"

text \<open>Taking oneself off the count; this needs no lock of the description.\<close>

definition leave_poll :: "addr \<Rightarrow> 'w state \<Rightarrow> 'w state option" where
  "leave_poll a s = do {
     d \<leftarrow> descs (fst s) a;
     (case desc_ctx d of
        Ctx_epollfd e \<Rightarrow> do {
          c_assert (nr_polling_threads e > 0);
          Some (set_desc a (d\<lparr>desc_ctx := Ctx_epollfd (e\<lparr>nr_polling_threads := nr_polling_threads e - 1\<rparr>)\<rparr>) (fst s), snd s)
        }
      | _ \<Rightarrow> None)
   }"

text \<open>One round of waiting: the remaining timeout, or the error that ends the wait.\<close>

definition block_round ::
  "'w platform \<Rightarrow> 'w env \<Rightarrow> addr \<Rightarrow> int \<Rightarrow> (timespec \<times> timespec) option \<Rightarrow> sigset option \<Rightarrow> 'w state \<Rightarrow>
   ((errno + (timespec \<times> timespec) option) \<times> 'w state) option" where
  "block_round P env a kq timeouts sigs s = do {
     (r, s1) \<leftarrow> on_epollfd a (prepare_poll P kq) s;
     (case r of
        Inl ec \<Rightarrow> Some (Inl ec, s1)
      | Inr pfds \<Rightarrow> do {
          let (n, w2) = real_ppoll P pfds (map_option snd timeouts) sigs (snd s1);
          s2 \<leftarrow> leave_poll a (fst s1, w2);
          let s3 = env s2;
          (case n of
             Inl ec \<Rightarrow> Some (Inl ec, s3)
           | Inr _ \<Rightarrow>
               (case timeouts of
                  None \<Rightarrow> Some (Inr None, s3)
                | Some (deadline, _) \<Rightarrow>
                    Some (case sys_clock_gettime P CLOCK_MONOTONIC (snd s3) of
                        (Inl ec, w4) \<Rightarrow> (Inl ec, fst s3, w4)
                      | (Inr now, w4) \<Rightarrow> (Inr (Some (deadline, remaining_timeout deadline now)), fst s3, w4))))
        })
   }"

text \<open>Deadline and timeout are both absent when the caller waits for ever.\<close>

partial_function (option) epollfd_ctx_wait_or_block ::
  "'w platform \<Rightarrow> 'w env \<Rightarrow> addr \<Rightarrow> int \<Rightarrow> int \<Rightarrow> (timespec \<times> timespec) option \<Rightarrow> sigset option \<Rightarrow> 'w state \<Rightarrow>
   ((errno + epoll_event list) \<times> 'w state) option" where
  "epollfd_ctx_wait_or_block plat env a kq nev timeouts sigs s =
     Option.bind (on_epollfd a (\<lambda>e. epollfd_ctx_wait (shim_platform plat) e kq nev) s) (\<lambda>(r, s1).
       (case r of
          Inl ec \<Rightarrow> Some (Inl ec, s1)
        | Inr evs \<Rightarrow>
            if evs \<noteq> [] \<or> (\<exists>d. timeouts = Some (d, ts_zero)) then Some (Inr evs, s1)
            else Option.bind (block_round plat env a kq timeouts sigs s1) (\<lambda>(b, s2).
              (case b of
                 Inl ec \<Rightarrow> Some (Inl ec, s2)
               | Inr t \<Rightarrow> epollfd_ctx_wait_or_block plat env a kq nev t sigs s2))))"

definition timeout_to_deadline ::
  "'w platform \<Rightarrow> int \<Rightarrow> 'w \<Rightarrow> ((errno + timespec \<times> timespec) \<times> 'w) option" where
  "timeout_to_deadline P to w = do {
     c_assert (to \<ge> 0);
     if to = 0 then Some (Inr (ts_zero, ts_zero), w)
     else (case sys_clock_gettime P CLOCK_MONOTONIC w of
             (Inl ec, w1) \<Rightarrow> Some (Inl ec, w1)
           | (Inr now, w1) \<Rightarrow> do {
               let timeout = \<lparr>tv_sec = to sdiv 1000, tv_nsec = (to smod 1000) * 1000000\<rparr>;
               d \<leftarrow> timespecadd_safe now timeout;
               Some (case d of None \<Rightarrow> Inl EINVAL | Some deadline \<Rightarrow> Inr (deadline, timeout), w1)
             })
   }"

definition epoll_pwait_body ::
  "'w platform \<Rightarrow> 'w env \<Rightarrow> int \<Rightarrow> int \<Rightarrow> int \<Rightarrow> sigset option \<Rightarrow> addr \<Rightarrow> EpollShimCtx \<Rightarrow> 'w \<Rightarrow>
   ((errno + epoll_event list) \<times> EpollShimCtx \<times> 'w) option" where
  "epoll_pwait_body P env fd nev to sigs a S w = do {
     (t, w1) \<leftarrow> (if to \<ge> 0
        then do { (r, w1) \<leftarrow> timeout_to_deadline P to w; Some (case r of Inl ec \<Rightarrow> Inl ec | Inr p \<Rightarrow> Inr (Some p), w1) }
        else Some (Inr None, w));
     (case t of
        Inl ec \<Rightarrow> Some (Inl ec, S, w1)
      | Inr timeouts \<Rightarrow> do {
          (r, S2, w2) \<leftarrow> epollfd_ctx_wait_or_block P env a fd nev timeouts sigs (S, w1);
          Some (r, S2, w2)
        })
   }"

definition epoll_pwait_impl ::
  "'w platform \<Rightarrow> 'w env \<Rightarrow> EpollShimCtx \<Rightarrow> int \<Rightarrow> int \<Rightarrow> int \<Rightarrow> sigset option \<Rightarrow> 'w \<Rightarrow>
   ((errno + epoll_event list) \<times> EpollShimCtx \<times> 'w) option" where
  "epoll_pwait_impl P env S fd nev to sigs w =
     (if nev < 1 \<or> nev > INT32_MAX div int (cfg_sizeof_epoll_event P) then Some (Inl EINVAL, S, w)
      else with_desc P epollfd_vtable fd S w (epoll_pwait_body P env fd nev to sigs))"

definition epoll_wait ::
  "'w platform \<Rightarrow> 'w env \<Rightarrow> EpollShimCtx \<Rightarrow> int \<Rightarrow> int \<Rightarrow> int \<Rightarrow> 'w \<Rightarrow>
   ((errno + epoll_event list) \<times> EpollShimCtx \<times> 'w) option" where
  "epoll_wait P env S fd nev to w = epoll_pwait_impl P env S fd nev to None w"

end
