(* ===== verification/Shim_Api.thy ===== *)
theory Shim_Api
  imports Eventfd_Api Timerfd_Api Signalfd_Api Epoll_Api
begin

text \<open>
  The functions of \<open>src/epoll_shim_ctx.c\<close> that take the place of \<open>close\<close>, \<open>read\<close>, \<open>write\<close>, \<open>poll\<close>, \<open>ppoll\<close> and
  \<open>fcntl\<close>, with the dispatch through the table of virtual functions of a description, and the two
  helpers of \<open>src/eventfd.c\<close> on top of them.

  What a read stores in the caller's buffer is a list of bytes, or the \<open>signalfd_siginfo\<close> records.
  A 64-bit number in a buffer has the byte order of a little-endian machine.
\<close>

section \<open>Buffers\<close>

fun store_bytes :: "nat \<Rightarrow> 64 word \<Rightarrow> 8 word list" where
  "store_bytes 0 v = []"
| "store_bytes (Suc n) v = ucast v # store_bytes n (drop_bit 8 v)"

definition store64 :: "64 word \<Rightarrow> 8 word list" where "store64 v = store_bytes 8 v"

fun load64 :: "8 word list \<Rightarrow> 64 word" where
  "load64 [] = 0"
| "load64 (b # bs) = ucast b OR push_bit 8 (load64 bs)"

datatype read_data = Bytes "8 word list" | Signals "SignalFDCtxSiginfo list"

fun bytes_transferred :: "read_data \<Rightarrow> nat" where
  "bytes_transferred (Bytes bs) = length bs"
| "bytes_transferred (Signals is) = sizeof_siginfo * length is"

definition SSIZE_MAX :: "'w platform \<Rightarrow> nat" where "SSIZE_MAX P = cfg_SIZE_MAX P div 2"

section \<open>Closing\<close>

definition epoll_shim_close ::
  "'w platform \<Rightarrow> EpollShimCtx \<Rightarrow> int \<Rightarrow> 'w \<Rightarrow> ((errno + unit) \<times> EpollShimCtx \<times> 'w) option" where
  "epoll_shim_close P S fd w =
     (if fd < 0 \<or> epoll_shim_ctx_global S \<noteq> Inr ()
      then (let (r, w1) = sys_close P fd w in Some (r, S, w1))
      else epoll_shim_ctx_remove_desc P S fd w)"

section \<open>Reading and writing\<close>

definition fd_context_default_read :: "'w state \<Rightarrow> ((errno + read_data) \<times> 'w state) option" where
  "fd_context_default_read s = Some (Inl EINVAL, s)"

definition fd_context_default_write :: "'w state \<Rightarrow> ((errno + nat) \<times> 'w state) option" where
  "fd_context_default_write s = Some (Inl EINVAL, s)"

text \<open>\<open>desc->vtable->read_fun\<close> and \<open>desc->vtable->write_fun\<close>.\<close>

definition read_fun ::
  "'w platform \<Rightarrow> 'w env \<Rightarrow> vtable \<Rightarrow> addr \<Rightarrow> int \<Rightarrow> nat \<Rightarrow> 'w state \<Rightarrow> ((errno + read_data) \<times> 'w state) option" where
  "read_fun P env vt a fd nbytes s =
     (case vt of
        epollfd_vtable \<Rightarrow> fd_context_default_read s
      | eventfd_vtable \<Rightarrow> do {
          (r, s1) \<leftarrow> eventfd_helper_read P env a fd nbytes s;
          Some (case r of Inl ec \<Rightarrow> Inl ec | Inr v \<Rightarrow> Inr (Bytes (store64 v)), s1)
        }
      | timerfd_vtable \<Rightarrow> do {
          (r, s1) \<leftarrow> timerfd_read P env a fd nbytes s;
          Some (case r of Inl ec \<Rightarrow> Inl ec
                | Inr n \<Rightarrow> Inr (Bytes (case n of None \<Rightarrow> [] | Some v \<Rightarrow> store64 v)), s1)
        }
      | signalfd_vtable \<Rightarrow> do {
          (r, s1) \<leftarrow> signalfd_read P env a fd nbytes s;
          Some (case r of Inl ec \<Rightarrow> Inl ec | Inr infos \<Rightarrow> Inr (Signals infos), s1)
        })"

definition write_fun ::
  "'w platform \<Rightarrow> vtable \<Rightarrow> addr \<Rightarrow> int \<Rightarrow> 8 word list \<Rightarrow> 'w state \<Rightarrow> ((errno + nat) \<times> 'w state) option" where
  "write_fun P vt a fd buf s =
     (case vt of
        eventfd_vtable \<Rightarrow> eventfd_helper_write P a fd (load64 buf) (length buf) s
      | _ \<Rightarrow> fd_context_default_write s)"

text \<open>
  The frame of both: a descriptor without description goes to the system's function, one with it to
  the virtual function, between taking a reference and giving it back.
\<close>

definition dispatch_io ::
  "'w platform \<Rightarrow> EpollShimCtx \<Rightarrow> int \<Rightarrow> nat \<Rightarrow> 'w \<Rightarrow> ('w \<Rightarrow> (errno + 'a) \<times> 'w) \<Rightarrow>
   (vtable \<Rightarrow> addr \<Rightarrow> 'w state \<Rightarrow> ((errno + 'a) \<times> 'w state) option) \<Rightarrow>
   ((errno + 'a) \<times> EpollShimCtx \<times> 'w) option" where
  "dispatch_io P S fd nbytes w sys vfun =
     (let real = (\<lambda>S. let (r, w1) = sys w in Some (r, S, w1))
      in if fd < 0 \<or> epoll_shim_ctx_global S \<noteq> Inr () then real S
         else do {
           (desc, S1) \<leftarrow> epoll_shim_ctx_find_desc S fd;
           (case desc of
              None \<Rightarrow> real S1
            | Some a \<Rightarrow> do {
                (r, S2, w2) \<leftarrow>
                  (if nbytes > SSIZE_MAX P then Some (Inl EINVAL, S1, w)
                   else do { d \<leftarrow> descs S1 a; vt \<leftarrow> desc_vtable d; vfun vt a (S1, w) });
                (_, S3, w3) \<leftarrow> file_description_unref P S2 a w2;
                Some (r, S3, w3)
              })
         })"

definition epoll_shim_read ::
  "'w platform \<Rightarrow> 'w env \<Rightarrow> EpollShimCtx \<Rightarrow> int \<Rightarrow> nat \<Rightarrow> 'w \<Rightarrow> ((errno + read_data) \<times> EpollShimCtx \<times> 'w) option" where
  "epoll_shim_read P env S fd nbytes w =
     dispatch_io P S fd nbytes w
       (\<lambda>w. let (r, w1) = sys_read P fd nbytes w in (case r of Inl ec \<Rightarrow> Inl ec | Inr bs \<Rightarrow> Inr (Bytes bs), w1))
       (\<lambda>vt a. read_fun P env vt a fd nbytes)"

definition epoll_shim_write ::
  "'w platform \<Rightarrow> EpollShimCtx \<Rightarrow> int \<Rightarrow> 8 word list \<Rightarrow> 'w \<Rightarrow> ((errno + nat) \<times> EpollShimCtx \<times> 'w) option" where
  "epoll_shim_write P S fd buf w =
     dispatch_io P S fd (length buf) w (sys_write P fd buf) (\<lambda>vt a. write_fun P vt a fd buf)"

text \<open>\<open>eventfd_read\<close> gives the value on success; \<open>eventfd_write\<close> only says whether it succeeded.\<close>

definition eventfd_read ::
  "'w platform \<Rightarrow> 'w env \<Rightarrow> EpollShimCtx \<Rightarrow> int \<Rightarrow> 'w \<Rightarrow> (64 word option \<times> EpollShimCtx \<times> 'w) option" where
  "eventfd_read P env S fd w = do {
     (r, S1, w1) \<leftarrow> epoll_shim_read P env S fd 8 w;
     Some (case r of Inr (Bytes bs) \<Rightarrow> if length bs = 8 then Some (load64 bs) else None | _ \<Rightarrow> None, S1, w1)
   }"

definition eventfd_write ::
  "'w platform \<Rightarrow> EpollShimCtx \<Rightarrow> int \<Rightarrow> 64 word \<Rightarrow> 'w \<Rightarrow> (bool \<times> EpollShimCtx \<times> 'w) option" where
  "eventfd_write P S fd v w = do {
     (r, S1, w1) \<leftarrow> epoll_shim_write P S fd (store64 v) w;
     Some (r = Inr 8, S1, w1)
   }"

section \<open>Polling\<close>

text \<open>The first loop: every description that has a \<open>poll_fun\<close> brings its kqueue up to date.\<close>

fun refresh_fds :: "'w platform \<Rightarrow> pollfd list \<Rightarrow> 'w state \<Rightarrow> 'w state option" where
  "refresh_fds P [] s = Some s"
| "refresh_fds P (p # ps) s =
     (case epoll_shim_ctx_find_desc_impl (fst s) (pfd_fd p) of
        None \<Rightarrow> refresh_fds P ps s
      | Some a \<Rightarrow> do {
          d \<leftarrow> descs (fst s) a;
          if has_poll_fun d then do {
            (_, s1) \<leftarrow> fd_poll P (fst s) a (pfd_fd p) None (snd s);
            refresh_fds P ps s1
          } else refresh_fds P ps s
        })"

text \<open>
  The second loop: such a description also says which events it has, and an entry that has none any
  more is not counted. \<open>revents\<close> is uninitialised in the source; the value in memory is that of the
  entry here, and \<open>poll_fun\<close> overwrites it.
\<close>

fun collect_revents ::
  "'w platform \<Rightarrow> pollfd list \<Rightarrow> int \<Rightarrow> 'w state \<Rightarrow> (pollfd list \<times> int \<times> 'w state) option" where
  "collect_revents P [] n s = Some ([], n, s)"
| "collect_revents P (p # ps) n s = do {
     (p1, n1, s1) \<leftarrow>
       (if pfd_revents p = 0 then Some (p, n, s)
        else (case epoll_shim_ctx_find_desc_impl (fst s) (pfd_fd p) of
                None \<Rightarrow> Some (p, n, s)
              | Some a \<Rightarrow> do {
                  d \<leftarrow> descs (fst s) a;
                  if has_poll_fun d then do {
                    (rv, s1) \<leftarrow> fd_poll P (fst s) a (pfd_fd p) (Some (ucast (pfd_revents p))) (snd s);
                    v \<leftarrow> rv;
                    let p1 = p\<lparr>pfd_revents := ucast v\<rparr>;
                    Some (p1, if pfd_revents p1 = 0 then n - 1 else n, s1)
                  } else Some (p, n, s)
                }));
     (ps1, n2, s2) \<leftarrow> collect_revents P ps n1 s1;
     Some (p1 # ps1, n2, s2)
   }"

text \<open>
  One round of the loop: \<open>Inl\<close> is the answer of the call, \<open>Inr\<close> the entries and the timeout for the next
  round. The other threads run while this one is in \<open>ppoll\<close>.
\<close>

definition ppoll_round ::
  "'w platform \<Rightarrow> 'w env \<Rightarrow> pollfd list \<Rightarrow> (timespec \<times> timespec) option \<Rightarrow> sigset option \<Rightarrow> 'w state \<Rightarrow>
   (((errno + int \<times> pollfd list) + pollfd list \<times> (timespec \<times> timespec) option) \<times> 'w state) option" where
  "ppoll_round P env fds timeouts sigs s = do {
     S1 \<leftarrow> lock_read (fst s);
     s2 \<leftarrow> refresh_fds P fds (S1, snd s);
     S3 \<leftarrow> unlock_read (fst s2);
     let (r, w4) = real_ppoll P fds (map_option snd timeouts) sigs (snd s2);
     let s4 = env (S3, w4);
     (case r of
        Inl ec \<Rightarrow> Some (Inl (Inl ec), s4)
      | Inr (n, fds1) \<Rightarrow>
          if n = 0 then Some (Inl (Inr (0, fds1)), s4)
          else do {
            S5 \<leftarrow> lock_read (fst s4);
            (fds2, n2, s6) \<leftarrow> collect_revents P fds1 n (S5, snd s4);
            S7 \<leftarrow> unlock_read (fst s6);
            (if n2 = 0 \<and> \<not> (\<exists>d. timeouts = Some (d, ts_zero)) then
               (case timeouts of
                  None \<Rightarrow> Some (Inr (fds2, None), S7, snd s6)
                | Some (deadline, _) \<Rightarrow>
                    (case sys_clock_gettime P CLOCK_MONOTONIC (snd s6) of
                       (Inl ec, w8) \<Rightarrow> Some (Inl (Inl ec), S7, w8)
                     | (Inr now, w8) \<Rightarrow>
                         Some (Inr (fds2, Some (deadline, remaining_timeout deadline now)), S7, w8)))
             else Some (Inl (Inr (n2, fds2)), S7, snd s6))
          })
   }"

partial_function (option) epoll_shim_ppoll_deadline ::
  "'w platform \<Rightarrow> 'w env \<Rightarrow> pollfd list \<Rightarrow> (timespec \<times> timespec) option \<Rightarrow> sigset option \<Rightarrow> 'w state \<Rightarrow>
   ((errno + int \<times> pollfd list) \<times> 'w state) option" where
  "epoll_shim_ppoll_deadline plat env fds timeouts sigs s =
     Option.bind (ppoll_round plat env fds timeouts sigs s) (\<lambda>(r, s1).
       (case r of
          Inl answer \<Rightarrow> Some (answer, s1)
        | Inr (fds1, t) \<Rightarrow> epoll_shim_ppoll_deadline plat env fds1 t sigs s1))"

definition epoll_shim_ppoll_impl ::
  "'w platform \<Rightarrow> 'w env \<Rightarrow> pollfd list \<Rightarrow> timespec option \<Rightarrow> sigset option \<Rightarrow> 'w state \<Rightarrow>
   ((errno + int \<times> pollfd list) \<times> 'w state) option" where
  "epoll_shim_ppoll_impl P env fds tmo sigs s =
     (case tmo of
        None \<Rightarrow> epoll_shim_ppoll_deadline P env fds None sigs s
      | Some t \<Rightarrow>
          if t = ts_zero then epoll_shim_ppoll_deadline P env fds (Some (ts_zero, ts_zero)) sigs s
          else if \<not> timespec_is_valid t then Some (Inl EINVAL, s)
          else (case sys_clock_gettime P CLOCK_MONOTONIC (snd s) of
                  (Inl ec, w1) \<Rightarrow> Some (Inl ec, fst s, w1)
                | (Inr now, w1) \<Rightarrow> do {
                    d \<leftarrow> timespecadd_safe now t;
                    (case d of
                       None \<Rightarrow> Some (Inl EINVAL, fst s, w1)
                     | Some deadline \<Rightarrow>
                         epoll_shim_ppoll_deadline P env fds (Some (deadline, t)) sigs (fst s, w1))
                  }))"

text \<open>A null pointer for the entries, which needs a count of zero, is the empty list.\<close>

definition epoll_shim_ppoll ::
  "'w platform \<Rightarrow> 'w env \<Rightarrow> pollfd list \<Rightarrow> timespec option \<Rightarrow> sigset option \<Rightarrow> 'w state \<Rightarrow>
   ((errno + int \<times> pollfd list) \<times> 'w state) option" where
  "epoll_shim_ppoll P env fds tmo sigs s =
     (if epoll_shim_ctx_global (fst s) \<noteq> Inr ()
      then (let (r, w1) = real_ppoll P fds tmo sigs (snd s) in Some (r, fst s, w1))
      else epoll_shim_ppoll_impl P env fds tmo sigs s)"

definition epoll_shim_poll ::
  "'w platform \<Rightarrow> 'w env \<Rightarrow> pollfd list \<Rightarrow> int \<Rightarrow> 'w state \<Rightarrow>
   ((errno + int \<times> pollfd list) \<times> 'w state) option" where
  "epoll_shim_poll P env fds timeout s =
     epoll_shim_ppoll P env fds
       (if timeout \<ge> 0 then Some \<lparr>tv_sec = timeout sdiv 1000, tv_nsec = timeout smod 1000 * 1000000\<rparr> else None)
       None s"

section \<open>Flags\<close>

definition fcntl_setfl ::
  "'w platform \<Rightarrow> int \<Rightarrow> 32 word \<Rightarrow> addr \<Rightarrow> 'w state \<Rightarrow> ((errno + 32 word) \<times> 'w state) option" where
  "fcntl_setfl P fd arg a s = do {
     (d, S1) \<leftarrow> lock_desc (fst s) a;
     let (r, w1) = sys_ioctl_fionbio P fd (has_bits arg O_NONBLOCK) (snd s);
     let r1 = (if r = Inl ENOTTY then Inr () else r);
     S2 \<leftarrow> unlock_desc (if r1 = Inr () then set_desc a (d\<lparr>desc_flags := arg AND O_NONBLOCK\<rparr>) S1 else S1) a;
     Some (case r1 of Inl ec \<Rightarrow> Inl ec | Inr _ \<Rightarrow> Inr 0, S2, w1)
   }"

definition fcntl_getfl ::
  "'w platform \<Rightarrow> int \<Rightarrow> addr \<Rightarrow> 'w state \<Rightarrow> ((errno + 32 word) \<times> 'w state) option" where
  "fcntl_getfl P fd a s = do {
     (d, S1) \<leftarrow> lock_desc (fst s) a;
     let (r, w1) = sys_fcntl P fd F_GETFL 0 (snd s);
     S2 \<leftarrow> unlock_desc S1 a;
     Some (case r of Inl ec \<Rightarrow> Inl ec | Inr v \<Rightarrow> Inr (v OR (desc_flags d AND O_NONBLOCK)), S2, w1)
   }"

definition epoll_shim_fcntl ::
  "'w platform \<Rightarrow> EpollShimCtx \<Rightarrow> int \<Rightarrow> int \<Rightarrow> 32 word \<Rightarrow> 'w \<Rightarrow> ((errno + 32 word) \<times> EpollShimCtx \<times> 'w) option" where
  "epoll_shim_fcntl P S fd cmd arg w =
     (let real = (\<lambda>S. let (r, w1) = sys_fcntl P fd cmd arg w in Some (r, S, w1))
      in if fd < 0 \<or> (cmd \<noteq> F_SETFL \<and> cmd \<noteq> F_GETFL) \<or> epoll_shim_ctx_global S \<noteq> Inr () then real S
         else do {
           (desc, S1) \<leftarrow> epoll_shim_ctx_find_desc S fd;
           (case desc of
              None \<Rightarrow> real S1
            | Some a \<Rightarrow> do {
                (r, S2, w2) \<leftarrow>
                  (if cmd = F_SETFL then fcntl_setfl P fd arg a (S1, w) else fcntl_getfl P fd a (S1, w));
                (_, S3, w3) \<leftarrow> file_description_unref P S2 a w2;
                Some (r, S3, w3)
              })
         })"

section \<open>Numbers in buffers\<close>

lemma load_store_bytes: "load64 (store_bytes n v) = take_bit (8 * n) v"
proof (induction n arbitrary: v)
  case (Suc n)
  show ?case
    by (rule bit_word_eqI)
      (auto simp: Suc bit_simps not_less dest: le_imp_less_Suc)
qed simp

lemma length_store_bytes [simp]: "length (store_bytes n v) = n"
  by (induction n arbitrary: v) simp_all

lemma length_store64 [simp]: "length (store64 v) = 8"
  by (simp add: store64_def)

lemma load_store64 [simp]: "load64 (store64 v) = v"
  using load_store_bytes [of 8 v] by (simp add: store64_def take_bit_word_eq_self)

lemma quiet_SSIZE_MAX [simp]: "8 \<le> SSIZE_MAX quiet_platform"
  by (simp add: SSIZE_MAX_def)

section \<open>Calls on a description\<close>

lemma dispatch_io_desc:
  assumes "shim_ready S" "epoll_shim_ctx_find_desc_impl S fd = Some a" "descs S a = Some d" "desc_vtable d = Some vt"
    and "n \<le> SSIZE_MAX P"
    and "vfun vt a (set_desc a (d\<lparr>refcount := refcount d + 1\<rparr>) S, w) =
      Some (r, set_desc a (d\<lparr>refcount := refcount d + 1, desc_ctx := c\<rparr>) S', w')"
  shows "dispatch_io P S fd n w sys vfun = Some (r, set_desc a (d\<lparr>desc_ctx := c\<rparr>) S', w')"
proof (cases rule: find_desc_cases [OF shim_readyD(2,3) [OF assms(1)], of fd])
  case 1
  then show ?thesis using assms(2) by simp
next
  case (2 b e)
  then have f: "epoll_shim_ctx_find_desc S fd = Some (Some a, set_desc a (d\<lparr>refcount := refcount d + 1\<rparr>) S)"
    and pos: "0 < refcount d" using assms(2,3) by simp_all
  have "\<not> fd < 0" using assms(2) by (auto simp: epoll_shim_ctx_find_desc_impl_def)
  moreover have "d\<lparr>refcount := refcount d, desc_ctx := c\<rparr> = d\<lparr>desc_ctx := c\<rparr>" by (cases d) simp
  ultimately show ?thesis
    using f pos assms(4-6)
    by (simp add: dispatch_io_def shim_readyD(1) [OF assms(1)] file_description_unref_def
        unref_not_last [where d = "d\<lparr>refcount := refcount d + 1, desc_ctx := c\<rparr>"])
qed

lemma fcntl_setfl_eq:
  assumes "descs S a = Some d" "\<not> desc_locked d"
    and "sys_ioctl_fionbio P fd (has_bits arg O_NONBLOCK) w = (r, w1)" "r = Inr () \<or> r = Inl ENOTTY"
  shows "fcntl_setfl P fd arg a (S, w) = Some (Inr 0, set_desc a (d\<lparr>desc_flags := arg AND O_NONBLOCK\<rparr>) S, w1)"
  using assms by (auto simp: fcntl_setfl_def lock_desc_free unlock_set_desc)

lemma fcntl_getfl_eq:
  assumes "descs S a = Some d" "\<not> desc_locked d" "sys_fcntl P fd F_GETFL 0 w = (Inr v, w1)"
  shows "fcntl_getfl P fd a (S, w) = Some (Inr (v OR (desc_flags d AND O_NONBLOCK)), S, w1)"
  using assms by (simp add: fcntl_getfl_def lock_desc_free unlock_set_desc)

lemma fcntl_desc:
  assumes "shim_ready S" "epoll_shim_ctx_find_desc_impl S fd = Some a" "descs S a = Some d"
    and "cmd = F_SETFL \<or> cmd = F_GETFL" "refcount d' = refcount d"
    and "(if cmd = F_SETFL then fcntl_setfl P fd arg a (set_desc a (d\<lparr>refcount := refcount d + 1\<rparr>) S, w)
       else fcntl_getfl P fd a (set_desc a (d\<lparr>refcount := refcount d + 1\<rparr>) S, w)) =
      Some (r, set_desc a (d'\<lparr>refcount := refcount d + 1\<rparr>) S, w')"
  shows "epoll_shim_fcntl P S fd cmd arg w = Some (r, set_desc a d' S, w')"
proof (cases rule: find_desc_cases [OF shim_readyD(2,3) [OF assms(1)], of fd])
  case 1
  then show ?thesis using assms(2) by simp
next
  case (2 b e)
  then have f: "epoll_shim_ctx_find_desc S fd = Some (Some a, set_desc a (d\<lparr>refcount := refcount d + 1\<rparr>) S)"
    and pos: "0 < refcount d" using assms(2,3) by simp_all
  have "\<not> fd < 0" using assms(2) by (auto simp: epoll_shim_ctx_find_desc_impl_def)
  then show ?thesis
    using f assms(4,6) unref_one_more [OF pos assms(5), of P a S w']
    by (auto simp: epoll_shim_fcntl_def shim_readyD(1) [OF assms(1)] split: if_splits)
qed

lemma ready_count_simps [simp]:
  "ready_count [] = 0"
  "ready_count (p # ps) = (if pfd_revents p \<noteq> 0 then 1 else 0) + ready_count ps"
  by (simp_all add: ready_count_def)

lemma collect_revents_counts:
  assumes "collect_revents P ps n s = Some (ps1, n1, s1)"
  shows "n1 - ready_count ps1 = n - ready_count ps" and "map pfd_fd ps1 = map pfd_fd ps"
    and "map pfd_events ps1 = map pfd_events ps"
  using assms
proof (induction ps arbitrary: n s ps1 n1 s1)
  case (Cons p ps)
  {
    case 1
    then show ?case
      by (auto simp: Let_def split: if_splits option.splits Option.bind_splits dest!: Cons.IH(1))
  next
    case 2
    then show ?case
      by (auto simp: Let_def split: if_splits option.splits Option.bind_splits dest!: Cons.IH(2))
  next
    case 3
    then show ?case
      by (auto simp: Let_def split: if_splits option.splits Option.bind_splits dest!: Cons.IH(3))
  }
qed simp_all

text \<open>The system's \<open>ppoll\<close> counts the entries that have events, and waits for one when it has no timeout.\<close>

definition ppoll_counts :: "'w platform \<Rightarrow> bool" where
  "ppoll_counts P \<longleftrightarrow>
     (\<forall>fds t m w n out w'. real_ppoll P fds t m w = (Inr (n, out), w') \<longrightarrow>
        n = ready_count out \<and> map pfd_fd out = map pfd_fd fds \<and> (t = None \<longrightarrow> 0 < n))"

lemma ppoll_round_counts:
  assumes "ppoll_counts P" "ppoll_round P env fds t sigs s = Some (r, s')"
  shows "case r of
      Inl (Inl ec) \<Rightarrow> True
    | Inl (Inr (n, out)) \<Rightarrow> n = ready_count out \<and> map pfd_fd out = map pfd_fd fds \<and> (t = None \<longrightarrow> n \<noteq> 0)
    | Inr (fds1, t1) \<Rightarrow> map pfd_fd fds1 = map pfd_fd fds \<and> (t1 = None \<longleftrightarrow> t = None)"
proof -
  obtain S1 s2 S3 where a: "lock_read (fst s) = Some S1" "refresh_fds P fds (S1, snd s) = Some s2" "unlock_read (fst s2) = Some S3"
    using assms(2) by (auto simp: ppoll_round_def split: Option.bind_splits)
  obtain q w4 where q: "real_ppoll P fds (map_option snd t) sigs (snd s2) = (q, w4)" by force
  show ?thesis
  proof (cases q)
    case (Inl ec)
    then show ?thesis using assms(2) a q by (auto simp: ppoll_round_def Let_def)
  next
    case (Inr p)
    obtain n out where p: "p = (n, out)" by force
    have cnt: "n = ready_count out" "map pfd_fd out = map pfd_fd fds" "t = None \<longrightarrow> 0 < n"
      using assms(1) q unfolding ppoll_counts_def Inr p by (metis, metis, metis option.map_disc_iff)
    show ?thesis
    proof (cases "n = 0")
      case True
      then show ?thesis using assms(2) a q Inr p cnt by (auto simp: ppoll_round_def Let_def)
    next
      case False
      then obtain S5 fds2 n2 s6 S7 where b: "lock_read (fst (env (S3, w4))) = Some S5"
        "collect_revents P out n (S5, snd (env (S3, w4))) = Some (fds2, n2, s6)" "unlock_read (fst s6) = Some S7"
        using assms(2) a q Inr p by (auto simp: ppoll_round_def Let_def split: Option.bind_splits)
      show ?thesis
        using assms(2) a q b False cnt collect_revents_counts [OF b(2)]
        by (auto simp: ppoll_round_def Let_def Inr p split: if_splits option.splits prod.splits sum.splits)
    qed
  qed
qed

lemma ppoll_deadline_counts:
  assumes "epoll_shim_ppoll_deadline P env fds t sigs s = Some y"
  shows "ppoll_counts P \<longrightarrow> (case fst y of Inl ec \<Rightarrow> True
    | Inr (n, out) \<Rightarrow> n = ready_count out \<and> map pfd_fd out = map pfd_fd fds \<and> (t = None \<longrightarrow> n \<noteq> 0))"
proof (induction P env fds t sigs s y rule: epoll_shim_ppoll_deadline.raw_induct)
  case (1 rec P env fds t sigs s y)
  show ?case
  proof
    assume pc: "ppoll_counts P"
    obtain r s1 where r: "ppoll_round P env fds t sigs s = Some (r, s1)"
      using 1(2) by (auto split: Option.bind_splits)
    note c = ppoll_round_counts [OF pc r]
    show "case fst y of Inl ec \<Rightarrow> True
      | Inr (n, out) \<Rightarrow> n = ready_count out \<and> map pfd_fd out = map pfd_fd fds \<and> (t = None \<longrightarrow> n \<noteq> 0)"
    proof (cases r)
      case (Inl answer)
      then have "y = (answer, s1)" using 1(2) r by simp
      then show ?thesis using c Inl by (auto split: sum.splits)
    next
      case (Inr x)
      obtain fds1 t1 where x: "x = (fds1, t1)" by force
      then have "rec P env fds1 t1 sigs s1 = Some y" using 1(2) r Inr by simp
      from 1(1) [OF this] show ?thesis using c pc Inr x by (auto split: sum.splits)
    qed
  qed
qed (rule assms(1))

end
