(* ===== verification/Shim_Calls.thy ===== *)
theory Shim_Calls
  imports Shim_Api
begin

text \<open>
  Properties of whole calls on a descriptor of the library, through the lookup in the table, the reference,
  the mutex and the virtual function: eventfd as the counter of eventfd(2), waiting readers, the flags of
  \<open>fcntl\<close>, the count of \<open>ppoll\<close>, and the errors for descriptors of another kind.
\<close>

section \<open>Eventfds\<close>

text \<open>The description behind a descriptor is an eventfd that no call is working on.\<close>

definition eventfd_at :: "EpollShimCtx \<Rightarrow> int \<Rightarrow> addr \<Rightarrow> FileDescription \<Rightarrow> EventFDCtx \<Rightarrow> bool" where
  "eventfd_at S fd a d e \<longleftrightarrow>
     shim_ready S \<and> epoll_shim_ctx_find_desc_impl S fd = Some a \<and> descs S a = Some d \<and>
     desc_vtable d = Some eventfd_vtable \<and> \<not> desc_locked d \<and> desc_ctx d = Ctx_eventfd e"

lemma eventfd_shim_write:
  assumes "eventfd_at S fd a d e" "8 \<le> SSIZE_MAX P" "eventfd_ctx_write P fd e v w = (r, e1, w1)"
  shows "epoll_shim_write P S fd (store64 v) w =
    Some (case r of Inl ec \<Rightarrow> Inl ec | Inr _ \<Rightarrow> Inr 8, set_desc a (d\<lparr>desc_ctx := Ctx_eventfd e1\<rparr>) S, w1)"
proof -
  note at = assms(1) [unfolded eventfd_at_def]
  let ?d = "d\<lparr>refcount := refcount d + 1\<rparr>"
  have "eventfd_helper_write P a fd v 8 (set_desc a ?d S, w) =
      Some (case r of Inl ec \<Rightarrow> Inl ec | Inr _ \<Rightarrow> Inr 8, set_desc a (?d\<lparr>desc_ctx := Ctx_eventfd e1\<rparr>) S, w1)"
    using eventfd_helper_write_eq [of "set_desc a ?d S" a ?d e P fd v w r e1 w1] at assms(3) by simp
  then show ?thesis
    using at assms(2) unfolding epoll_shim_write_def
    by (intro dispatch_io_desc [where vt = eventfd_vtable]) (simp_all add: write_fun_def)
qed

lemma eventfd_shim_read:
  assumes "eventfd_at S fd a d e" "8 \<le> SSIZE_MAX P"
    and "eventfd_ctx_read_or_block P env a fd (set_desc a (d\<lparr>refcount := refcount d + 1\<rparr>) S, w) =
      Some (r, set_desc a (d\<lparr>refcount := refcount d + 1, desc_ctx := c\<rparr>) S', w1)"
  shows "epoll_shim_read P env S fd 8 w =
    Some (case r of Inl ec \<Rightarrow> Inl ec | Inr v \<Rightarrow> Inr (Bytes (store64 v)), set_desc a (d\<lparr>desc_ctx := c\<rparr>) S', w1)"
  using assms(1,2) unfolding epoll_shim_read_def eventfd_at_def
  by (intro dispatch_io_desc [where vt = eventfd_vtable]) (simp_all add: read_fun_def eventfd_helper_read_def assms(3))

lemma eventfd_at_update:
  assumes "eventfd_at S fd a d e" "0 < refcount d'" "desc_vtable d' = desc_vtable d" "desc_locked d' = desc_locked d"
    and "desc_ctx d' = Ctx_eventfd e'"
  shows "eventfd_at (set_desc a d' S) fd a d' e'"
  using assms by (auto simp: eventfd_at_def shim_ready_def table_live_set_desc)

lemma eventfd_at_refcount: "eventfd_at S fd a d e \<Longrightarrow> 0 < refcount d"
  using find_desc_impl_live [of S fd a] by (auto simp: eventfd_at_def shim_ready_def)

text \<open>\<open>eventfd_write\<close> through the whole stack is a write to the abstract counter.\<close>

lemma eventfd_write_spec:
  assumes "eventfd_at S fd a d e" "flag_ok P fd" "eventfd_wf e" "8 \<le> SSIZE_MAX P"
    and "efd_spec (efd_semaphore e) (Efd_write v) (unat (efd_counter e)) = (ans, c)"
  shows "\<exists>e' w'. eventfd_write P S fd v w = Some (ans = Efd_done, set_desc a (d\<lparr>desc_ctx := Ctx_eventfd e'\<rparr>) S, w') \<and>
    unat (efd_counter e') = c \<and> efd_flags e' = efd_flags e \<and> eventfd_wf e'"
proof -
  obtain r e1 w1 where w: "eventfd_ctx_write P fd e v w = (r, e1, w1)" by (cases "eventfd_ctx_write P fd e v w") auto
  have "eventfd_do P fd (Efd_write v) e w = Some (case r of Inl ec \<Rightarrow> Efd_error ec | Inr _ \<Rightarrow> Efd_done, e1, w1)"
    using w by (simp split: sum.splits)
  note st = eventfd_do_step [OF this assms(3)]
  have "(r = Inr () \<longleftrightarrow> ans = Efd_done) \<and> unat (efd_counter e1) = c"
    using st(3) [OF assms(2)] assms(5) by (auto split: sum.splits)
  then show ?thesis
    using eventfd_shim_write [OF assms(1,4) w] st(1,2) by (auto simp: eventfd_write_def split: sum.splits)
qed

text \<open>A read that need not wait.\<close>

lemma eventfd_read_spec:
  assumes "eventfd_at S fd a d e" "flag_ok P fd" "eventfd_wf e" "8 \<le> SSIZE_MAX P"
    and "efd_counter e \<noteq> 0 \<or> has_bits (desc_flags d) O_NONBLOCK"
    and "efd_spec (efd_semaphore e) Efd_read (unat (efd_counter e)) = (ans, c)"
  shows "\<exists>v e' w'. eventfd_read P env S fd w = Some (v, set_desc a (d\<lparr>desc_ctx := Ctx_eventfd e'\<rparr>) S, w') \<and>
    ans = (case v of None \<Rightarrow> Efd_error EAGAIN | Some n \<Rightarrow> Efd_value (unat n)) \<and>
    unat (efd_counter e') = c \<and> efd_flags e' = efd_flags e \<and> eventfd_wf e'"
proof -
  obtain r e1 w1 where r: "eventfd_ctx_read P fd e w = Some (r, e1, w1)" using eventfd_read_total [OF assms(2)] by blast
  note st = eventfd_read_step [OF r]
  let ?d = "d\<lparr>refcount := refcount d + 1\<rparr>"
  have spec: "ans = (case r of Inl ec \<Rightarrow> Efd_error ec | Inr v \<Rightarrow> Efd_value (unat v))" "unat (efd_counter e1) = c"
    using st(1) assms(6) by auto
  then have again: "r = Inl ec \<Longrightarrow> ec = EAGAIN \<and> efd_counter e = 0" for ec
    using assms(6) by (auto simp: unat_eq_zero split: if_splits)
  have "eventfd_attempt P a fd (set_desc a ?d S, w) =
      Some (r, has_bits (desc_flags d) O_NONBLOCK, set_desc a (?d\<lparr>desc_ctx := Ctx_eventfd e1\<rparr>) S, w1)"
    using eventfd_attempt_eq [of "set_desc a ?d S" a ?d e P fd w r e1 w1] assms(1) r by (simp add: eventfd_at_def)
  then have "eventfd_ctx_read_or_block P env a fd (set_desc a ?d S, w) =
      Some (r, set_desc a (?d\<lparr>desc_ctx := Ctx_eventfd e1\<rparr>) S, w1)"
    by (rule efd.returns_at_once) (use assms(5) again in \<open>cases r; auto\<close>)
  from eventfd_shim_read [OF assms(1,4) this] show ?thesis
    using spec st(2) st(3) [OF assms(3)] again by (cases r) (auto simp: eventfd_read_def)
qed

text \<open>
  C32: \<open>eventfd_write\<close> and \<open>eventfd_read\<close> implement the counter of eventfd(2) through the whole stack: the
  lookup in the table, the reference, the mutex, the virtual functions and the buffer. Each call returns,
  gives the answer of the abstract counter, leaves exactly the abstract counter behind in an otherwise
  unchanged state, and the state is ready for the next call. A read is covered when it need not wait.
\<close>

theorem eventfd_calls_refine:
  assumes "eventfd_at S fd a d e" "flag_ok P fd" "eventfd_wf e" "8 \<le> SSIZE_MAX P"
  shows "(\<exists>e' w' d'. eventfd_write P S fd v w =
        Some (fst (efd_spec (efd_semaphore e) (Efd_write v) (unat (efd_counter e))) = Efd_done, set_desc a d' S, w') \<and>
      eventfd_at (set_desc a d' S) fd a d' e' \<and> eventfd_wf e' \<and> efd_flags e' = efd_flags e \<and>
      unat (efd_counter e') = snd (efd_spec (efd_semaphore e) (Efd_write v) (unat (efd_counter e)))) \<and>
    (efd_counter e \<noteq> 0 \<or> has_bits (desc_flags d) O_NONBLOCK \<longrightarrow>
     (\<exists>n e' w' d'. eventfd_read P env S fd w = Some (n, set_desc a d' S, w') \<and>
        fst (efd_spec (efd_semaphore e) Efd_read (unat (efd_counter e))) =
          (case n of None \<Rightarrow> Efd_error EAGAIN | Some k \<Rightarrow> Efd_value (unat k)) \<and>
        eventfd_at (set_desc a d' S) fd a d' e' \<and> eventfd_wf e' \<and> efd_flags e' = efd_flags e \<and>
        unat (efd_counter e') = snd (efd_spec (efd_semaphore e) Efd_read (unat (efd_counter e)))))"
proof (intro conjI impI)
  have at: "eventfd_at (set_desc a (d\<lparr>desc_ctx := Ctx_eventfd e'\<rparr>) S) fd a (d\<lparr>desc_ctx := Ctx_eventfd e'\<rparr>) e'" for e'
    using eventfd_at_update [OF assms(1)] eventfd_at_refcount [OF assms(1)] by simp
  show "\<exists>e' w' d'. eventfd_write P S fd v w =
        Some (fst (efd_spec (efd_semaphore e) (Efd_write v) (unat (efd_counter e))) = Efd_done, set_desc a d' S, w') \<and>
      eventfd_at (set_desc a d' S) fd a d' e' \<and> eventfd_wf e' \<and> efd_flags e' = efd_flags e \<and>
      unat (efd_counter e') = snd (efd_spec (efd_semaphore e) (Efd_write v) (unat (efd_counter e)))"
    using eventfd_write_spec [OF assms prod.collapse [symmetric], of v w] at by blast
  show "\<exists>n e' w' d'. eventfd_read P env S fd w = Some (n, set_desc a d' S, w') \<and>
        fst (efd_spec (efd_semaphore e) Efd_read (unat (efd_counter e))) =
          (case n of None \<Rightarrow> Efd_error EAGAIN | Some k \<Rightarrow> Efd_value (unat k)) \<and>
        eventfd_at (set_desc a d' S) fd a d' e' \<and> eventfd_wf e' \<and> efd_flags e' = efd_flags e \<and>
        unat (efd_counter e') = snd (efd_spec (efd_semaphore e) Efd_read (unat (efd_counter e)))"
    if "efd_counter e \<noteq> 0 \<or> has_bits (desc_flags d) O_NONBLOCK"
    using eventfd_read_spec [OF assms that prod.collapse [symmetric], of env w] at by blast
qed

text \<open>What a thread does that calls \<open>eventfd_write\<close> while others wait.\<close>

definition writer :: "'w platform \<Rightarrow> int \<Rightarrow> 64 word \<Rightarrow> 'w env" where
  "writer P fd v s = (case eventfd_write P (fst s) fd v (snd s) of None \<Rightarrow> s | Some (_, s1) \<Rightarrow> s1)"


lemma demo_shim_at:
  "eventfd_at (demo_shim (Ctx_eventfd e) eventfd_vtable flags) 3 64
     \<lparr>refcount = 1, desc_locked = False, desc_flags = flags, desc_ctx = Ctx_eventfd e, desc_vtable = Some eventfd_vtable\<rparr> e"
  by (simp add: eventfd_at_def shim_ready_def demo_shim_def empty_shim_def table_live_def epoll_shim_ctx_find_desc_impl_def)

theorem eventfd_calls_refine_witness:
  "\<exists>e' w' d'. eventfd_write (quiet_platform :: unit platform)
       (demo_shim (Ctx_eventfd (demo_eventfd False)) eventfd_vtable 0) 3 5 () =
     Some (True, set_desc 64 d' (demo_shim (Ctx_eventfd (demo_eventfd False)) eventfd_vtable 0), w') \<and>
     desc_ctx d' = Ctx_eventfd e' \<and> unat (efd_counter e') = 5"
proof -
  have c: "unat (efd_counter (demo_eventfd False)) = 0" by (simp add: demo_eventfd_def)
  show ?thesis
    using eventfd_calls_refine [OF demo_shim_at [where flags = 0] quiet_flag_ok demo_eventfd_wf [of False] quiet_SSIZE_MAX,
        where v = 5 and w = "()", THEN conjunct1]
    unfolding c by (auto simp: eventfd_at_def)
qed


section \<open>Flags, polling, errors\<close>

text \<open>
  C37: \<open>F_SETFL\<close> followed by \<open>F_GETFL\<close> gives the non-blocking flag back, also on systems whose kqueues refuse
  \<open>FIONBIO\<close>: the library keeps the flag in the description, changes nothing else there, and adds it to
  what the system reports.
\<close>

theorem fcntl_nonblock_roundtrip:
  assumes "shim_ready S" "epoll_shim_ctx_find_desc_impl S fd = Some a" "descs S a = Some d" "\<not> desc_locked d"
    and "sys_ioctl_fionbio P fd (has_bits arg O_NONBLOCK) w = (r, w1)" "r = Inr () \<or> r = Inl ENOTTY"
    and "sys_fcntl P fd F_GETFL 0 w2 = (Inr v, w3)"
  defines "S1 \<equiv> set_desc a (d\<lparr>desc_flags := arg AND O_NONBLOCK\<rparr>) S"
  shows "epoll_shim_fcntl P S fd F_SETFL arg w = Some (Inr 0, S1, w1) \<and>
    epoll_shim_fcntl P S1 fd F_GETFL any w2 = Some (Inr (v OR (arg AND O_NONBLOCK)), S1, w3)"
proof
  let ?d = "d\<lparr>refcount := refcount d + 1\<rparr>" and ?f = "d\<lparr>desc_flags := arg AND O_NONBLOCK\<rparr>"
  have swap: "?f\<lparr>refcount := n\<rparr> = d\<lparr>refcount := n, desc_flags := arg AND O_NONBLOCK\<rparr>" for n by (cases d) simp
  have "fcntl_setfl P fd arg a (set_desc a ?d S, w) = Some (Inr 0, set_desc a (?f\<lparr>refcount := refcount d + 1\<rparr>) S, w1)"
    using fcntl_setfl_eq [of "set_desc a ?d S" a ?d P fd arg w r w1] assms(4-6) by (simp add: swap)
  then show "epoll_shim_fcntl P S fd F_SETFL arg w = Some (Inr 0, S1, w1)"
    unfolding S1_def by (intro fcntl_desc [OF assms(1-3)]) simp_all
  have "0 < refcount d" using find_desc_impl_live [of S fd a] assms(1-3) by (auto simp: shim_ready_def)
  then have "shim_ready S1" using assms(1) by (simp add: shim_ready_def S1_def table_live_set_desc)
  moreover have "fcntl_getfl P fd a (set_desc a (?f\<lparr>refcount := refcount ?f + 1\<rparr>) S1, w2) =
      Some (Inr (v OR (arg AND O_NONBLOCK)), set_desc a (?f\<lparr>refcount := refcount ?f + 1\<rparr>) S1, w3)"
    using fcntl_getfl_eq [of "set_desc a (?f\<lparr>refcount := refcount ?f + 1\<rparr>) S1" a "?f\<lparr>refcount := refcount ?f + 1\<rparr>" P fd w2 v w3]
      assms(4,7) by (simp add: and.assoc)
  ultimately have "epoll_shim_fcntl P S1 fd F_GETFL any w2 = Some (Inr (v OR (arg AND O_NONBLOCK)), set_desc a ?f S1, w3)"
    by (intro fcntl_desc [where d = ?f and d' = ?f]) (use assms(2) in \<open>simp_all add: S1_def\<close>)
  then show "epoll_shim_fcntl P S1 fd F_GETFL any w2 = Some (Inr (v OR (arg AND O_NONBLOCK)), S1, w3)"
    by (simp add: S1_def)
qed

theorem fcntl_nonblock_roundtrip_witness:
  "\<exists>S1. epoll_shim_fcntl (quiet_platform :: unit platform)
       (demo_shim (Ctx_eventfd (demo_eventfd False)) eventfd_vtable 0) 3 F_SETFL O_NONBLOCK () = Some (Inr 0, S1, ()) \<and>
     epoll_shim_fcntl quiet_platform S1 3 F_GETFL 0 () = Some (Inr O_NONBLOCK, S1, ())"
  using fcntl_nonblock_roundtrip [of "demo_shim (Ctx_eventfd (demo_eventfd False)) eventfd_vtable 0" 3 64
      "\<lparr>refcount = 1, desc_locked = False, desc_flags = 0, desc_ctx = Ctx_eventfd (demo_eventfd False),
        desc_vtable = Some eventfd_vtable\<rparr>" "quiet_platform :: unit platform" O_NONBLOCK "()" "Inr ()" "()" "()" 0 "()" 0]
    demo_shim_at [of "demo_eventfd False" 0]
  by (auto simp: eventfd_at_def)

text \<open>
  C36: \<open>ppoll\<close> on any mixture of descriptors returns exactly the number of entries that have events. After the
  entries of timers and signals have been corrected by their own \<open>poll_fun\<close>, however many rounds the loop
  takes, the count and the entries agree; the entries are those the caller passed; and a call without a
  timeout never returns zero.
\<close>

theorem ppoll_result_counts:
  assumes "ppoll_counts P" "epoll_shim_ppoll_deadline P env fds t sigs s = Some (Inr (n, out), s')"
  shows "n = ready_count out \<and> map pfd_fd out = map pfd_fd fds \<and> (t = None \<longrightarrow> n \<noteq> 0)"
  using ppoll_deadline_counts [OF assms(2)] assms(1) by auto

text \<open>A platform whose \<open>ppoll\<close> finds every entry readable.\<close>

definition busy_platform :: "unit platform" where
  "busy_platform = quiet_platform\<lparr>sys_ppoll := \<lambda>pfds t m w.
     (if pfds = [] then Inl EINTR
      else Inr (int (length pfds), map (pfd_revents_update (\<lambda>_. POLLIN)) pfds), w)\<rparr>"

lemma busy_ppoll_counts: "ppoll_counts busy_platform"
  by (auto simp: ppoll_counts_def busy_platform_def real_ppoll_def ready_count_def comp_def)

theorem ppoll_result_counts_witness:
  "\<exists>n out s'. epoll_shim_ppoll_deadline busy_platform (\<lambda>s. s) [\<lparr>pfd_fd = 9, pfd_events = POLLIN, pfd_revents = 0\<rparr>]
       None None (empty_shim, ()) = Some (Inr (n, out), s') \<and> n = ready_count out \<and> n \<noteq> 0"
proof -
  have "epoll_shim_ppoll_deadline busy_platform (\<lambda>s. s) [\<lparr>pfd_fd = 9, pfd_events = POLLIN, pfd_revents = 0\<rparr>]
      None None (empty_shim, ()) =
    Some (Inr (1, [\<lparr>pfd_fd = 9, pfd_events = POLLIN, pfd_revents = POLLIN\<rparr>]), empty_shim, ())"
    by (subst epoll_shim_ppoll_deadline.simps)
      (simp add: ppoll_round_def lock_read_def unlock_read_def empty_shim_def epoll_shim_ctx_find_desc_impl_def
        busy_platform_def real_ppoll_def Let_def)
  then show ?thesis using ppoll_result_counts [OF busy_ppoll_counts] by blast
qed

text \<open>
  C39: calls on a descriptor that is not of the wanted kind fail without any effect on the library's
  state. \<open>epoll_ctl\<close>, \<open>epoll_pwait\<close>, \<open>timerfd_settime\<close> and \<open>timerfd_gettime\<close> answer \<open>EBADF\<close> for a descriptor that
  is not open and \<open>EINVAL\<close> for one that is open, and the reference they took is given back.
\<close>

theorem foreign_descriptor_errors:
  assumes "shim_ready S" "wrong_fd_error P fd w = (ec, w')"
  shows "(ec = EBADF \<longleftrightarrow> fd < 0 \<or> (\<exists>e. fst (sys_fstat P fd w) = Inl e)) \<and> (ec \<noteq> EBADF \<longrightarrow> ec = EINVAL) \<and>
    (\<not> has_kind S fd epollfd_vtable \<longrightarrow>
       epoll_ctl_impl P S fd op fd2 (Some ev) w = Some (Inl ec, S, w') \<and>
       (1 \<le> nev \<and> nev \<le> INT32_MAX div int (cfg_sizeof_epoll_event P) \<longrightarrow>
          epoll_pwait_impl P env S fd nev to sigs w = Some (Inl ec, S, w'))) \<and>
    (\<not> has_kind S fd timerfd_vtable \<longrightarrow>
       timerfd_gettime_impl P S fd w = Some (Inl ec, S, w') \<and>
       (subset_bits flags (TFD_TIMER_ABSTIME OR TFD_TIMER_CANCEL_ON_SET) \<longrightarrow>
          timerfd_settime_impl P S fd flags (Some new) want_old w = Some (Inl ec, S, w')))"
proof (intro conjI impI)
  show "ec = EBADF \<longleftrightarrow> fd < 0 \<or> (\<exists>e. fst (sys_fstat P fd w) = Inl e)" "ec \<noteq> EBADF \<Longrightarrow> ec = EINVAL"
    using assms(2) by (auto simp: wrong_fd_error_def split: if_splits prod.splits sum.splits)
qed (use assms in \<open>simp_all add: with_desc_wrong epoll_ctl_impl_def epoll_pwait_impl_def
      timerfd_gettime_impl_def timerfd_settime_impl_def\<close>)

theorem foreign_descriptor_errors_witness:
  "timerfd_gettime_impl (quiet_platform :: unit platform)
       (demo_shim (Ctx_eventfd (demo_eventfd False)) eventfd_vtable 0) 3 () =
     Some (Inl EINVAL, demo_shim (Ctx_eventfd (demo_eventfd False)) eventfd_vtable 0, ())"
proof -
  let ?S = "demo_shim (Ctx_eventfd (demo_eventfd False)) eventfd_vtable 0"
  have a: "shim_ready ?S" "\<not> has_kind ?S 3 timerfd_vtable"
    using demo_shim_at [of "demo_eventfd False" 0] by (simp_all add: eventfd_at_def has_kind_def)
  have b: "wrong_fd_error (quiet_platform :: unit platform) 3 () = (EINVAL, ())" by (simp add: wrong_fd_error_def)
  show ?thesis using foreign_descriptor_errors [OF a(1) b] a(2) by simp
qed

end
