(* ===== verification/Epollfd_Inv.thy ===== *)
theory Epollfd_Inv
  imports Epollfd_Ctx
begin

text \<open>
  The invariant of the epoll context of \<open>Epollfd_Ctx\<close> and its preservation by every operation that
  registers, changes or removes a descriptor. The invariant ties the tree, the node store, the list
  of poll-only descriptors and the cached sizes together and makes every node well-formed.

  Each operation is shown to return: its assertions hold, it dereferences only allocated nodes, and
  its loops end under the named hypotheses on the platform.
\<close>

section \<open>The invariant\<close>

definition node_ok :: "'w platform \<Rightarrow> addr list \<Rightarrow> addr \<Rightarrow> RegisteredFDsNode \<Rightarrow> bool" where
  "node_ok P polls a n \<longleftrightarrow>
     node_wf P n \<and> revents_ok n \<and> node_fd n \<ge> 0 \<and>
     (is_on_pollfd_list n \<longleftrightarrow> a \<in> set polls) \<and>
     (is_on_pollfd_list n \<longrightarrow> node_type n = NODE_TYPE_POLL) \<and>
     (node_type n = NODE_TYPE_POLL \<longrightarrow>
        \<not> has_evfilt_read n \<and> \<not> has_evfilt_write n \<and> \<not> has_evfilt_except n) \<and>
     (is_on_pollfd_list n \<longrightarrow> cfg_EVFILT_USER P \<or> snd (node_self_pipe n) \<ge> 0)"

definition tree_ok :: "EpollFDCtx \<Rightarrow> bool" where
  "tree_ok e \<longleftrightarrow>
     rb_ordered (registered_fds e) \<and> registered_fds_size e = length (registered_fds e) \<and>
     (\<forall>fd a. (fd, a) \<in> set (registered_fds e) \<longleftrightarrow> (\<exists>n. nodes e a = Some n \<and> node_fd n = fd))"

definition polls_ok :: "EpollFDCtx \<Rightarrow> bool" where
  "polls_ok e \<longleftrightarrow>
     distinct (poll_fds e) \<and> poll_fds_size e = length (poll_fds e) \<and> set (poll_fds e) \<subseteq> dom (nodes e)"

definition pipe_ok :: "'w platform \<Rightarrow> EpollFDCtx \<Rightarrow> bool" where
  "pipe_ok P e \<longleftrightarrow>
     (fst (epoll_self_pipe e) \<ge> 0 \<longleftrightarrow> snd (epoll_self_pipe e) \<ge> 0) \<and>
     (poll_fds e \<noteq> [] \<longrightarrow> cfg_EVFILT_USER P \<or> snd (epoll_self_pipe e) \<ge> 0)"

definition epoll_inv :: "'w platform \<Rightarrow> EpollFDCtx \<Rightarrow> bool" where
  "epoll_inv P e \<longleftrightarrow>
     tree_ok e \<and> polls_ok e \<and> pipe_ok P e \<and>
     (\<forall>a n. nodes e a = Some n \<longrightarrow> node_ok P (poll_fds e) a n)"

text \<open>Between two calls every node is registered and has nothing pending.\<close>

definition epoll_wf :: "'w platform \<Rightarrow> EpollFDCtx \<Rightarrow> bool" where
  "epoll_wf P e \<longleftrightarrow>
     epoll_inv P e \<and> (\<forall>a n. nodes e a = Some n \<longrightarrow> is_registered n \<and> revents n = 0)"

text \<open>Threads that poll leave when they are asked to: the wait for them ends.\<close>

definition pollers_leave :: "'w platform \<Rightarrow> bool" where
  "pollers_leave P \<longleftrightarrow> (\<forall>nr w. \<exists>w'. wait_polling_threads P nr w = Some w')"

lemma wait_polling_threads_total:
  assumes "\<And>k v k' v'. k \<noteq> 0 \<Longrightarrow> sys_cond_wait P k v = (k', v') \<Longrightarrow> m k' v' < (m k v :: nat)"
  shows "\<exists>w'. wait_polling_threads P nr w = Some w'"
proof (induction "m nr w" arbitrary: nr w rule: less_induct)
  case less
  show ?case
  proof (cases "nr = 0")
    case False
    obtain k v where c: "sys_cond_wait P nr w = (k, v)" by fastforce
    from less [OF assms [OF False c]] show ?thesis
      by (subst wait_polling_threads.simps) (simp add: False c)
  qed (subst wait_polling_threads.simps, simp)
qed

lemma quiet_pollers_leave [simp]: "pollers_leave quiet_platform"
  unfolding pollers_leave_def
  by (intro allI wait_polling_threads_total [where m = "\<lambda>k _. k"]) simp

text \<open>The hypotheses on the platform, as one predicate.\<close>

definition platform_ok :: "'w platform \<Rightarrow> bool" where
  "platform_ok P \<longleftrightarrow> kevent_receipts P \<and> poll_ok P \<and> pipes_drain P \<and> pollers_leave P \<and>
     (\<forall>fl w p w'. sys_pipe2 P fl w = (Inr p, w') \<longrightarrow> fst p \<ge> 0 \<and> snd p \<ge> 0) \<and>
     (\<forall>fd w st w'. sys_fstat P fd w = (Inr st, w') \<longrightarrow> fd \<ge> 0)"

lemma platform_okD:
  assumes "platform_ok P"
  shows "kevent_receipts P" "poll_ok P" "pipes_drain P" "pollers_leave P"
    "sys_pipe2 P fl w = (Inr p, w') \<Longrightarrow> fst p \<ge> 0 \<and> snd p \<ge> 0"
    "sys_fstat P fd w = (Inr st, w') \<Longrightarrow> fd \<ge> 0"
  using assms unfolding platform_ok_def by blast+

lemma quiet_platform_ok [simp]: "platform_ok quiet_platform"
  by (auto simp: platform_ok_def split: if_splits)

section \<open>Changing one node\<close>

lemma nodes_set_node [simp]: "nodes (set_node a n e) = (nodes e)(a \<mapsto> n)"
  by (simp add: set_node_def)

lemma set_node_sel [simp]:
  "poll_fds (set_node a n e) = poll_fds e" "poll_fds_size (set_node a n e) = poll_fds_size e"
  "registered_fds (set_node a n e) = registered_fds e"
  "registered_fds_size (set_node a n e) = registered_fds_size e"
  "kevs_length (set_node a n e) = kevs_length e" "pfds_length (set_node a n e) = pfds_length e"
  "nr_polling_threads (set_node a n e) = nr_polling_threads e"
  "epoll_self_pipe (set_node a n e) = epoll_self_pipe e"
  by (simp_all add: set_node_def)

text \<open>\<open>touches a e e'\<close>: only the node at \<open>a\<close> and its place on the poll list may differ.\<close>

definition touches :: "addr \<Rightarrow> EpollFDCtx \<Rightarrow> EpollFDCtx \<Rightarrow> bool" where
  "touches a e e' \<longleftrightarrow>
     registered_fds e' = registered_fds e \<and> registered_fds_size e' = registered_fds_size e \<and>
     kevs_length e' = kevs_length e \<and> pfds_length e' = pfds_length e \<and>
     (\<forall>b. b \<noteq> a \<longrightarrow> nodes e' b = nodes e b \<and> (b \<in> set (poll_fds e') \<longleftrightarrow> b \<in> set (poll_fds e)))"

lemma touches_refl [simp]: "touches a e e"
  by (simp add: touches_def)

lemma touches_trans: "touches a e f \<Longrightarrow> touches a f g \<Longrightarrow> touches a e g"
  by (simp add: touches_def)

lemma touches_set_node [simp]: "touches a e (set_node a n e)"
  by (simp add: touches_def)

lemma epoll_inv_update:
  assumes "epoll_inv P e" "touches a e e'" "nodes e a = Some n" "nodes e' a = Some n'"
    and "node_fd n' = node_fd n" "node_ok P (poll_fds e') a n'"
    and "distinct (poll_fds e')" "poll_fds_size e' = length (poll_fds e')" "pipe_ok P e'"
  shows "epoll_inv P e'"
proof -
  have other: "nodes e' b = nodes e b" "b \<in> set (poll_fds e') \<longleftrightarrow> b \<in> set (poll_fds e)" if "b \<noteq> a" for b
    using assms(2) that by (simp_all add: touches_def)
  have "node_ok P (poll_fds e') b m" if "nodes e' b = Some m" for b m
  proof (cases "b = a")
    case True
    then show ?thesis using assms(4,6) that by simp
  next
    case False
    then have "node_ok P (poll_fds e) b m" using assms(1) that other by (simp add: epoll_inv_def)
    then show ?thesis using other(2) [OF False] by (simp add: node_ok_def)
  qed
  moreover have "(\<exists>m. nodes e' b = Some m \<and> node_fd m = fd) \<longleftrightarrow> (\<exists>m. nodes e b = Some m \<and> node_fd m = fd)" for b fd
    using other(1) [of b] assms(3-5) by (cases "b = a") auto
  then have "tree_ok e'"
    using assms(1,2) by (simp add: epoll_inv_def tree_ok_def touches_def)
  moreover have "set (poll_fds e') \<subseteq> dom (nodes e')"
  proof
    fix b assume "b \<in> set (poll_fds e')"
    then show "b \<in> dom (nodes e')"
      using other [of b] assms(1,4) by (cases "b = a") (auto simp: epoll_inv_def polls_ok_def)
  qed
  ultimately show ?thesis using assms(7-9) by (simp add: epoll_inv_def polls_ok_def)
qed

lemma epoll_inv_set_node:
  assumes "epoll_inv P e" "nodes e a = Some n" "node_fd n' = node_fd n" "node_ok P (poll_fds e) a n'"
  shows "epoll_inv P (set_node a n' e)"
proof -
  have "distinct (poll_fds e)" "poll_fds_size e = length (poll_fds e)" "pipe_ok P e"
    using assms(1) by (simp_all add: epoll_inv_def polls_ok_def)
  then show ?thesis
    using epoll_inv_update [OF assms(1) touches_set_node assms(2), of n' n'] assms(3,4)
    by (simp add: pipe_ok_def)
qed

lemma epoll_inv_node: "epoll_inv P e \<Longrightarrow> nodes e a = Some n \<Longrightarrow> node_ok P (poll_fds e) a n"
  by (simp add: epoll_inv_def)

lemma node_ok_wf: "node_ok P polls a n \<Longrightarrow> node_wf P n"
  by (simp add: node_ok_def)

lemma node_wf_pipe: "node_wf P n \<Longrightarrow> fst (node_self_pipe n) \<ge> 0 \<longleftrightarrow> snd (node_self_pipe n) \<ge> 0"
  by (simp add: node_wf_def)

lemma node_wf_in_out:
  "node_wf P n \<Longrightarrow> node_type n \<noteq> NODE_TYPE_SOCKET \<Longrightarrow> subset_bits (events32 n) (EPOLLIN OR EPOLLOUT)"
  by (simp add: node_wf_def)

section \<open>Detaching a node\<close>

lemma trigger_repoll_total:
  assumes "platform_ok P" "cfg_EVFILT_USER P \<or> snd (epoll_self_pipe e) \<ge> 0 \<and> fst (epoll_self_pipe e) \<ge> 0"
  shows "\<exists>w' k. epollfd_ctx__trigger_repoll P e kq w = Some (e\<lparr>nr_polling_threads := k\<rparr>, w')"
proof (cases "nr_polling_threads e = 0")
  case True
  then show ?thesis by (intro exI [of _ w] exI [of _ 0]) (simp add: epollfd_ctx__trigger_repoll_def)
next
  case False
  obtain w1 where t: "epollfd_ctx__trigger_self P e kq w = Some w1"
    using assms(2) by (cases "cfg_EVFILT_USER P") (auto simp: epollfd_ctx__trigger_self_def)
  obtain w2 where w2: "wait_polling_threads P (nr_polling_threads e) w1 = Some w2"
    using platform_okD(4) [OF assms(1)] by (auto simp: pollers_leave_def)
  obtain w3 where "drain_pipe P (fst (epoll_self_pipe e)) w2 = Some w3"
    using platform_okD(3) [OF assms(1)] by (auto simp: pipes_drain_def)
  then have "\<exists>w4. epollfd_ctx__trigger_repoll P e kq w = Some (e\<lparr>nr_polling_threads := 0\<rparr>, w4)"
    using False t w2 by (simp add: epollfd_ctx__trigger_repoll_def)
  then show ?thesis by blast
qed

lemma epoll_inv_nr [simp]: "epoll_inv P (e\<lparr>nr_polling_threads := k\<rparr>) = epoll_inv P e"
  by (simp add: epoll_inv_def tree_ok_def polls_ok_def pipe_ok_def)

lemma remove_from_pollfd_list_step:
  assumes "platform_ok P" "epoll_inv P e" "nodes e a = Some n"
  shows "\<exists>e' w'. remove_from_pollfd_list P e kq a w = Some (e', w') \<and> epoll_inv P e' \<and>
    touches a e e' \<and> nodes e' a = Some (n\<lparr>is_on_pollfd_list := False\<rparr>) \<and> a \<notin> set (poll_fds e')"
proof (cases "is_on_pollfd_list n")
  case False
  then have "n = n\<lparr>is_on_pollfd_list := False\<rparr>" by simp
  moreover have "a \<notin> set (poll_fds e)"
    using False epoll_inv_node [OF assms(2,3)] by (simp add: node_ok_def)
  ultimately show ?thesis
    using False assms(2,3) by (simp add: remove_from_pollfd_list_def)
next
  case True
  let ?n = "n\<lparr>is_on_pollfd_list := False\<rparr>"
  let ?e = "set_node a ?n (e\<lparr>poll_fds := remove1 a (poll_fds e), poll_fds_size := poll_fds_size e - 1\<rparr>)"
  note ok = epoll_inv_node [OF assms(2,3)]
  have on: "a \<in> set (poll_fds e)" using True ok by (simp add: node_ok_def)
  have p: "distinct (poll_fds e)" "poll_fds_size e = length (poll_fds e)" "pipe_ok P e"
    using assms(2) by (simp_all add: epoll_inv_def polls_ok_def)
  have "node_ok P (poll_fds ?e) a ?n"
    using ok p(1) by (simp add: node_ok_def node_wf_def revents_ok_def)
  moreover have t: "touches a e ?e" using on by (auto simp: touches_def)
  ultimately have inv: "epoll_inv P ?e"
    using epoll_inv_update [OF assms(2) t assms(3), of ?n] p on
    by (auto simp: pipe_ok_def length_remove1)
  have "cfg_EVFILT_USER P \<or> snd (epoll_self_pipe ?e) \<ge> 0 \<and> fst (epoll_self_pipe ?e) \<ge> 0"
    using on p(3) by (auto simp: pipe_ok_def set_node_def)
  then obtain w' k where r: "epollfd_ctx__trigger_repoll P ?e kq w = Some (?e\<lparr>nr_polling_threads := k\<rparr>, w')"
    using trigger_repoll_total [OF assms(1), of ?e kq w] by blast
  have "poll_fds_size e \<noteq> 0" using on p(2) by auto
  then have "remove_from_pollfd_list P e kq a w = Some (?e\<lparr>nr_polling_threads := k\<rparr>, w')"
    using True assms(3) r by (simp add: remove_from_pollfd_list_def)
  moreover have "touches a e (?e\<lparr>nr_polling_threads := k\<rparr>)" using t by (simp add: touches_def)
  ultimately show ?thesis
    using inv p(1) by simp
qed

text \<open>The node after it has been taken out of the kqueue.\<close>

definition detached :: "RegisteredFDsNode \<Rightarrow> RegisteredFDsNode" where
  "detached n = n\<lparr>is_on_pollfd_list := False, has_evfilt_read := False, has_evfilt_write := False,
                  has_evfilt_except := False\<rparr>"

lemma detached_ok:
  assumes "node_ok P polls a n" "a \<notin> set polls'"
  shows "node_ok P polls' a (detached n)"
  using assms by (auto simp: node_ok_def detached_def node_wf_def revents_ok_def)

lemma remove_node_from_kq_step:
  assumes "platform_ok P" "epoll_inv P e" "nodes e a = Some n"
  shows "\<exists>e' w'. epollfd_ctx__remove_node_from_kq P e kq a w = Some (e', w') \<and> epoll_inv P e' \<and>
    touches a e e' \<and> nodes e' a = Some (detached n) \<and> a \<notin> set (poll_fds e')"
proof -
  obtain e1 w1 where r: "remove_from_pollfd_list P e kq a w = Some (e1, w1)" and inv: "epoll_inv P e1"
    and t: "touches a e e1" and n1: "nodes e1 a = Some (n\<lparr>is_on_pollfd_list := False\<rparr>)"
    and off: "a \<notin> set (poll_fds e1)"
    using remove_from_pollfd_list_step [OF assms] by blast
  note ok = epoll_inv_node [OF assms(2,3)]
  have "\<exists>w2. drain_pipe P fd v = Some w2" for fd v
    using platform_okD(3) [OF assms(1)] by (auto simp: pipes_drain_def)
  then obtain w2 where w2: "(if fst (node_self_pipe n) \<ge> 0
             then drain_pipe P (fst (node_self_pipe n))
                    (snd (sys_kevent P kq [EV_SET (fst (node_self_pipe n)) EVFILT_READ EV_DELETE 0 0 None] 0 w1))
             else Some w1) = Some w2"
    by (cases "fst (node_self_pipe n) \<ge> 0") auto
  have d: "node_ok P (poll_fds e1) a (detached n)" using detached_ok [OF ok off] .
  have inv2: "epoll_inv P (set_node a (detached n) e1)"
    using epoll_inv_set_node [OF inv n1 _ d] by (simp add: detached_def)
  have t2: "touches a e (set_node a (detached n) e1)"
    using t touches_set_node touches_trans by blast
  show ?thesis
  proof (cases "node_type n = NODE_TYPE_POLL")
    case True
    then have "nodes e1 a = Some (detached n)" using n1 ok by (simp add: detached_def node_ok_def)
    moreover have "\<exists>w'. epollfd_ctx__remove_node_from_kq P e kq a w = Some (e1, w')"
      using r n1 w2 True by (simp add: epollfd_ctx__remove_node_from_kq_def split: if_splits)
    ultimately show ?thesis using inv t off by blast
  next
    case False
    have "n\<lparr>is_on_pollfd_list := False, has_evfilt_read := False, has_evfilt_write := False,
        has_evfilt_except := False\<rparr> = detached n"
      by (simp add: detached_def)
    then have "\<exists>w'. epollfd_ctx__remove_node_from_kq P e kq a w = Some (set_node a (detached n) e1, w')"
      using r n1 w2 False by (simp add: epollfd_ctx__remove_node_from_kq_def split: if_splits)
    moreover have "nodes (set_node a (detached n) e1) a = Some (detached n)"
      "a \<notin> set (poll_fds (set_node a (detached n) e1))" using off by simp_all
    ultimately show ?thesis using inv2 t2 by blast
  qed
qed

section \<open>Registering a node\<close>

text \<open>
  What registering never changes: the identity of the node and what the caller asked for. Only a node of
  an unknown kind can change its type, when it turns out to support nothing but poll.
\<close>

definition kept :: "RegisteredFDsNode \<Rightarrow> RegisteredFDsNode \<Rightarrow> bool" where
  "kept n n' \<longleftrightarrow>
     node_fd n' = node_fd n \<and> node_data n' = node_data n \<and> events n' = events n \<and>
     needs_rdhup_translation n' = needs_rdhup_translation n \<and>
     is_edge_triggered n' = is_edge_triggered n \<and> is_oneshot n' = is_oneshot n \<and>
     is_registered n' = is_registered n \<and> revents n' = revents n \<and>
     fifo_readable n' = fifo_readable n \<and> fifo_writable n' = fifo_writable n \<and>
     pollable_desc n' = pollable_desc n \<and>
     (node_type n' = node_type n \<or> node_type n = NODE_TYPE_OTHER \<and> node_type n' = NODE_TYPE_POLL)"

lemma kept_refl [simp]: "kept n n"
  by (simp add: kept_def)

lemma kept_trans: "kept a b \<Longrightarrow> kept b c \<Longrightarrow> kept a c"
  by (auto simp: kept_def)

lemma kept_detached [simp]: "kept n (detached n)"
  by (simp add: kept_def detached_def)

lemma node_add_self_trigger_step:
  assumes "platform_ok P" "fst (node_self_pipe n) \<ge> 0 \<longleftrightarrow> snd (node_self_pipe n) \<ge> 0"
  obtains r p w' where
    "registered_fds_node_add_self_trigger P a n kq w = Some (r, n\<lparr>node_self_pipe := p\<rparr>, w')"
    "fst p \<ge> 0 \<longleftrightarrow> snd p \<ge> 0"
    "r = Inr () \<or> snd (node_self_pipe n) \<ge> 0 \<longrightarrow> cfg_EVFILT_USER P \<or> snd p \<ge> 0"
proof -
  have same: "n\<lparr>node_self_pipe := node_self_pipe n\<rparr> = n" by simp
  consider "cfg_EVFILT_USER P" | "\<not> cfg_EVFILT_USER P" "snd (node_self_pipe n) \<ge> 0"
    | "\<not> cfg_EVFILT_USER P" "snd (node_self_pipe n) < 0" by linarith
  then show thesis
  proof cases
    case 3
    obtain r w1 where pr: "sys_pipe2 P (O_NONBLOCK OR O_CLOEXEC) w = (r, w1)" by fastforce
    show ?thesis
    proof (cases r)
      case (Inl ec)
      then show ?thesis
        using 3 pr assms(2) by (intro that [of "Inl ec" "(-1, -1)" w1]) (simp_all add: registered_fds_node_add_self_trigger_def)
    next
      case (Inr q)
      obtain r1 w2 where sub: "submit_kev P kq (EV_SET (fst q) EVFILT_READ (EV_ADD OR EV_CLEAR) 0 0 (Some a)) w1 = (r1, w2)"
        by fastforce
      have "fst q \<ge> 0 \<and> snd q \<ge> 0" using platform_okD(5) [OF assms(1) pr [unfolded Inr]] .
      then show ?thesis
        using 3 pr Inr sub assms(2) by (intro that [of r1 q w2]) (simp_all add: registered_fds_node_add_self_trigger_def)
    qed
  next
    case 1
    obtain r w1 where
      "submit_kev P kq (EV_SET (int a) EVFILT_USER (EV_ADD OR EV_CLEAR) 0 0 (Some a)) w = (r, w1)"
      by fastforce
    then show ?thesis
      using 1 assms(2) same
      by (intro that [of r "node_self_pipe n" w1]) (simp_all add: registered_fds_node_add_self_trigger_def)
  next
    case 2
    obtain r w1 where "submit_kev P kq
        (EV_SET (fst (node_self_pipe n)) EVFILT_READ (EV_ADD OR EV_CLEAR) 0 0 (Some a)) w = (r, w1)"
      by fastforce
    then show ?thesis
      using 2 assms(2) same
      by (intro that [of r "node_self_pipe n" w1]) (simp_all add: registered_fds_node_add_self_trigger_def)
  qed
qed

lemma epoll_add_self_trigger_step:
  assumes "platform_ok P" "pipe_ok P e"
  obtains r p w' where
    "epollfd_ctx__add_self_trigger P e kq w = Some (r, e\<lparr>epoll_self_pipe := p\<rparr>, w')"
    "pipe_ok P (e\<lparr>epoll_self_pipe := p\<rparr>)" "r = Inr () \<longrightarrow> cfg_EVFILT_USER P \<or> snd p \<ge> 0"
proof -
  have same: "e\<lparr>epoll_self_pipe := epoll_self_pipe e\<rparr> = e" by simp
  have iff: "fst (epoll_self_pipe e) \<ge> 0 \<longleftrightarrow> snd (epoll_self_pipe e) \<ge> 0"
    using assms(2) by (simp add: pipe_ok_def)
  consider "cfg_EVFILT_USER P" | "\<not> cfg_EVFILT_USER P" "snd (epoll_self_pipe e) \<ge> 0"
    | "\<not> cfg_EVFILT_USER P" "snd (epoll_self_pipe e) < 0" by linarith
  then show thesis
  proof cases
    case 3
    obtain r w1 where pr: "sys_pipe2 P (O_NONBLOCK OR O_CLOEXEC) w = (r, w1)" by fastforce
    show ?thesis
    proof (cases r)
      case (Inl ec)
      then show ?thesis
        using 3 pr iff assms(2) by (intro that [of "Inl ec" "(-1, -1)" w1]) (simp_all add: epollfd_ctx__add_self_trigger_def pipe_ok_def)
    next
      case (Inr q)
      obtain r1 w2 where sub: "submit_kev P kq (EV_SET (fst q) EVFILT_READ (EV_ADD OR EV_CLEAR) 0 0 None) w1 = (r1, w2)"
        by fastforce
      have "fst q \<ge> 0 \<and> snd q \<ge> 0" using platform_okD(5) [OF assms(1) pr [unfolded Inr]] .
      then show ?thesis
        using 3 pr Inr sub iff assms(2) by (intro that [of r1 q w2]) (simp_all add: epollfd_ctx__add_self_trigger_def pipe_ok_def)
    qed
  next
    case 1
    obtain r w1 where "submit_kev P kq (EV_SET 0 EVFILT_USER (EV_ADD OR EV_CLEAR) 0 0 None) w = (r, w1)"
      by fastforce
    then show ?thesis
      using 1 assms(2) same
      by (intro that [of r "epoll_self_pipe e" w1]) (simp_all add: epollfd_ctx__add_self_trigger_def)
  next
    case 2
    obtain r w1 where "submit_kev P kq
        (EV_SET (fst (epoll_self_pipe e)) EVFILT_READ (EV_ADD OR EV_CLEAR) 0 0 None) w = (r, w1)"
      by fastforce
    then show ?thesis
      using 2 assms(2) same iff
      by (intro that [of r "epoll_self_pipe e" w1]) (simp_all add: epollfd_ctx__add_self_trigger_def)
  qed
qed

lemma poll_only_ok:
  assumes "node_ok P polls a n" "node_type n = NODE_TYPE_OTHER \<or> node_type n = NODE_TYPE_POLL"
    and "fst p \<ge> 0 \<longleftrightarrow> snd p \<ge> 0" "is_on_pollfd_list n \<longrightarrow> cfg_EVFILT_USER P \<or> snd p \<ge> 0"
  shows "node_ok P polls a ((poll_only n)\<lparr>node_self_pipe := p\<rparr>)"
  using assms(2,1,3,4) by (elim disjE) (simp_all add: node_ok_def node_wf_def revents_ok_def poll_only_def)

lemma node_ok_on_list:
  assumes "node_ok P polls a n" "node_type n = NODE_TYPE_POLL" "a \<in> set polls'"
    and "cfg_EVFILT_USER P \<or> snd (node_self_pipe n) \<ge> 0"
  shows "node_ok P polls' a (n\<lparr>is_on_pollfd_list := True\<rparr>)"
  using assms by (simp add: node_ok_def node_wf_def revents_ok_def)

lemma repoll_step:
  assumes "platform_ok P" "epoll_inv P e" "poll_fds e \<noteq> []"
  obtains e' w' where "epollfd_ctx__trigger_repoll P e kq w = Some (e', w')" "epoll_inv P e'"
    "touches a e e'" "nodes e' = nodes e" "poll_fds e' = poll_fds e"
proof -
  have "cfg_EVFILT_USER P \<or> snd (epoll_self_pipe e) \<ge> 0 \<and> fst (epoll_self_pipe e) \<ge> 0"
    using assms(2,3) by (auto simp: epoll_inv_def pipe_ok_def)
  then obtain w' k where "epollfd_ctx__trigger_repoll P e kq w = Some (e\<lparr>nr_polling_threads := k\<rparr>, w')"
    using trigger_repoll_total [OF assms(1), of e kq w] by blast
  then show thesis
    using assms(2)
    by (intro that [of "e\<lparr>nr_polling_threads := k\<rparr>" w']) (simp_all add: touches_def)
qed

lemma enlist_poll_node_step:
  assumes "platform_ok P" "epoll_inv P e" "nodes e a = Some n" "node_type n = NODE_TYPE_POLL"
    and "cfg_EVFILT_USER P \<or> snd (node_self_pipe n) \<ge> 0"
  obtains r e' w' n' where "enlist_poll_node P e kq a n w = Some (r, e', w')" "epoll_inv P e'"
    "touches a e e'" "nodes e' a = Some n'" "kept n n'" "r = Inr () \<longrightarrow> poll_fds e' \<noteq> []"
proof (cases "is_on_pollfd_list n")
  case True
  then have "a \<in> set (poll_fds e)" using epoll_inv_node [OF assms(2,3)] by (simp add: node_ok_def)
  then show thesis using True assms(2,3) by (intro that [of "Inr ()" e w n]) (auto simp: enlist_poll_node_def)
next
  case False
  note ok = epoll_inv_node [OF assms(2,3)]
  have off: "a \<notin> set (poll_fds e)" using False ok by (simp add: node_ok_def)
  have p: "distinct (poll_fds e)" "poll_fds_size e = length (poll_fds e)" "pipe_ok P e"
    using assms(2) by (simp_all add: epoll_inv_def polls_ok_def)
  obtain r q w1 where t: "epollfd_ctx__add_self_trigger P e kq w = Some (r, e\<lparr>epoll_self_pipe := q\<rparr>, w1)"
    and q: "pipe_ok P (e\<lparr>epoll_self_pipe := q\<rparr>)" "r = Inr () \<longrightarrow> cfg_EVFILT_USER P \<or> snd q \<ge> 0"
    by (rule epoll_add_self_trigger_step [OF assms(1) p(3)])
  let ?e = "e\<lparr>epoll_self_pipe := q\<rparr>"
  let ?n = "n\<lparr>is_on_pollfd_list := True\<rparr>"
  let ?f = "set_node a ?n (?e\<lparr>poll_fds := poll_fds e @ [a], poll_fds_size := Suc (poll_fds_size e)\<rparr>)"
  show thesis
  proof (cases r)
    case (Inl ec)
    have "epoll_inv P ?e" using assms(2) q by (simp add: epoll_inv_def tree_ok_def polls_ok_def)
    then show thesis
      using t False Inl assms(3)
      by (intro that [of "Inl ec" ?e w1 n]) (simp_all add: enlist_poll_node_def touches_def)
  next
    case (Inr u)
    have tf: "touches a e ?f" by (simp add: touches_def)
    have "node_ok P (poll_fds ?f) a ?n" using node_ok_on_list [OF ok assms(4) _ assms(5)] by simp
    then have "epoll_inv P ?f"
      using epoll_inv_update [OF assms(2) tf assms(3), of ?n] p off q Inr by (simp add: pipe_ok_def)
    then show thesis
      using t False Inr tf
      by (intro that [of "Inr ()" ?f w1 ?n]) (simp_all add: enlist_poll_node_def kept_def)
  qed
qed

lemma register_poll_only_step:
  assumes "platform_ok P" "epoll_inv P e" "nodes e a = Some n"
    and "node_type n = NODE_TYPE_OTHER \<or> node_type n = NODE_TYPE_POLL \<and> is_registered n"
  obtains r e' w' n' where "register_poll_only P e kq a w = Some (r, e', w')" "epoll_inv P e'"
    "touches a e e'" "nodes e' a = Some n'" "kept n n'"
proof -
  note ok = epoll_inv_node [OF assms(2,3)]
  have wf: "fst (node_self_pipe n) \<ge> 0 \<longleftrightarrow> snd (node_self_pipe n) \<ge> 0"
    "subset_bits (events32 n) (EPOLLIN OR EPOLLOUT)"
    using node_wf_pipe [OF node_ok_wf [OF ok]] node_wf_in_out [OF node_ok_wf [OF ok]] assms(4) by auto
  obtain r q w1 where
    t: "registered_fds_node_add_self_trigger P a (poll_only n) kq w = Some (r, (poll_only n)\<lparr>node_self_pipe := q\<rparr>, w1)"
    and q: "fst q \<ge> 0 \<longleftrightarrow> snd q \<ge> 0" "r = Inr () \<or> snd (node_self_pipe n) \<ge> 0 \<longrightarrow> cfg_EVFILT_USER P \<or> snd q \<ge> 0"
    by (rule node_add_self_trigger_step [OF assms(1), of "poll_only n" a kq w])
      (use wf(1) in \<open>simp_all add: poll_only_def\<close>)
  let ?n = "(poll_only n)\<lparr>node_self_pipe := q\<rparr>"
  let ?e = "set_node a ?n e"
  have k: "kept n ?n" using assms(4) by (auto simp: kept_def poll_only_def)
  have "node_ok P (poll_fds e) a ?n"
    by (rule poll_only_ok [OF ok]) (use assms(4) q ok in \<open>auto simp: node_ok_def\<close>)
  then have inv: "epoll_inv P ?e"
    by (rule epoll_inv_set_node [OF assms(2,3), rotated]) (simp add: poll_only_def)
  have asserts: "is_registered n \<or> node_type n = NODE_TYPE_OTHER" using assms(4) by blast
  show thesis
  proof (cases r)
    case (Inl ec)
    then show thesis
      using t k inv wf asserts assms(3)
      by (intro that [of "Inl ec" ?e w1 ?n]) (simp_all add: register_poll_only_def)
  next
    case (Inr u)
    have "cfg_EVFILT_USER P \<or> snd (node_self_pipe ?n) \<ge> 0" using q(2) Inr by simp
    then obtain r1 e1 w2 n1 where l: "enlist_poll_node P ?e kq a ?n w1 = Some (r1, e1, w2)"
      and e1: "epoll_inv P e1" "touches a ?e e1" "nodes e1 a = Some n1" "kept ?n n1" "r1 = Inr () \<longrightarrow> poll_fds e1 \<noteq> []"
      by (rule enlist_poll_node_step [OF assms(1) inv, of a ?n kq w1, rotated 2]) (simp_all add: poll_only_def)
    have t1: "touches a e e1" using e1(2) touches_set_node touches_trans by blast
    have k1: "kept n n1" using k e1(4) kept_trans by blast
    show thesis
    proof (cases r1)
      case (Inl ec)
      then show thesis
        using t l Inr wf asserts assms(3) e1 t1 k1
        by (intro that [of "Inl ec" e1 w2 n1]) (simp_all add: register_poll_only_def)
    next
      case r1: (Inr v)
      obtain e2 w3 where rp: "epollfd_ctx__trigger_repoll P e1 kq w2 = Some (e2, w3)"
        and e2: "epoll_inv P e2" "touches a e1 e2" "nodes e2 = nodes e1"
        by (rule repoll_step [OF assms(1) e1(1), of kq w2 a]) (use e1(5) r1 in auto)
      have "touches a e e2" using t1 e2(2) touches_trans by blast
      then show thesis
        using t l rp Inr r1 wf asserts assms(3) e1 e2 k1
        by (intro that [of "Inr ()" e2 w3 n1]) (simp_all add: register_poll_only_def)
    qed
  qed
qed

lemma get_needed_filters_total: "node_wf P n \<Longrightarrow> \<exists>f. get_needed_filters P n = Some f"
  using get_needed_filters_cover by blast

lemma get_needed_filters_except:
  assumes "get_needed_filters P n = Some f" "evfilt_except f \<noteq> 0"
  shows "cfg_EVFILT_EXCEPT P"
proof -
  obtain f0 where f0: "needed_by_type P n = Some f0" "evfilt_except f0 \<noteq> 0"
    using assms get_needed_filters_base [OF assms(1)] edge_filters_zero(3) by (metis (full_types))
  then show ?thesis
    by (cases "node_type n")
      (auto simp: needed_by_type_def needed_defs Let_def bind_c_assert_eq_Some split: if_splits)
qed

lemma get_needed_filters_fifo:
  assumes "get_needed_filters P n = Some f" "node_type n = NODE_TYPE_FIFO"
  shows "evfilt_read f \<noteq> 0 \<longrightarrow> fifo_readable n" and "evfilt_write f \<noteq> 0 \<longrightarrow> fifo_writable n"
proof -
  obtain f0 where f0: "needed_by_type P n = Some f0" and f: "f = (if is_edge_triggered n then edge_filters f0 else f0)"
    by (rule get_needed_filters_base [OF assms(1)])
  have z: "evfilt_read f = 0 \<longleftrightarrow> evfilt_read f0 = 0" "evfilt_write f = 0 \<longleftrightarrow> evfilt_write f0 = 0"
    by (simp_all add: f edge_filters_zero)
  show "evfilt_read f \<noteq> 0 \<longrightarrow> fifo_readable n" "evfilt_write f \<noteq> 0 \<longrightarrow> fifo_writable n"
    using f0 assms(2) unfolding z by (auto simp: needed_by_type_def needed_fifo_def Let_def split: if_splits)
qed

lemma register_kevs_receipt: "k \<in> set (register_kevs P a fd f) \<Longrightarrow> has_bits (kev_flags k) EV_RECEIPT"
  by (auto simp: register_kevs_def has_bits_or split: if_splits) (simp_all add: has_bits_def)

lemma with_filters_ok:
  assumes "node_ok P polls a n" "get_needed_filters P n = Some f" "node_type n \<noteq> NODE_TYPE_POLL"
  shows "node_ok P polls a (with_filters f n)"
proof -
  have "\<not> is_on_pollfd_list n" "a \<notin> set polls" using assms(1,3) by (auto simp: node_ok_def)
  then show ?thesis
    using assms(1,3) get_needed_filters_fifo [OF assms(2)] get_needed_filters_except [OF assms(2)]
    by (simp add: node_ok_def node_wf_def revents_ok_def with_filters_def)
qed

lemma kept_with_filters [simp]: "kept n (with_filters f n)"
  by (simp add: kept_def with_filters_def)

text \<open>A node that is not in the kqueue, or is taken out of it first, can be registered.\<close>

lemma register_filters_detach:
  assumes "platform_ok P" "epoll_inv P e" "nodes e a = Some n" "node_type n \<noteq> NODE_TYPE_POLL"
    and "is_registered n \<or> \<not> has_evfilt_read n \<and> \<not> has_evfilt_write n \<and> \<not> has_evfilt_except n"
  obtains e1 w1 where
    "(if is_registered n then epollfd_ctx__remove_node_from_kq P e kq a w else Some (e, w)) = Some (e1, w1)"
    "epoll_inv P e1" "touches a e e1" "nodes e1 a = Some (detached n)"
proof (cases "is_registered n")
  case True
  then show thesis using remove_node_from_kq_step [OF assms(1-3), of kq w] that by auto
next
  case False
  have "\<not> is_on_pollfd_list n" using epoll_inv_node [OF assms(2,3)] assms(4) by (auto simp: node_ok_def)
  then have "detached n = n" using False assms(5) by (simp add: detached_def)
  then show thesis using that [of e w] False assms(2,3) by simp
qed

lemma register_filters_step:
  assumes "platform_ok P" "epoll_inv P e" "nodes e a = Some n" "node_type n \<noteq> NODE_TYPE_POLL"
    and "is_registered n \<or> \<not> has_evfilt_read n \<and> \<not> has_evfilt_write n \<and> \<not> has_evfilt_except n"
  obtains r e' w' n' where "register_filters P e kq a w = Some (r, e', w')" "epoll_inv P e'"
    "touches a e e'" "nodes e' a = Some n'" "kept n n'" "node_type n' = node_type n"
proof -
  obtain e1 w1 where
    d: "(if is_registered n then epollfd_ctx__remove_node_from_kq P e kq a w else Some (e, w)) = Some (e1, w1)"
    and e1: "epoll_inv P e1" "touches a e e1" "nodes e1 a = Some (detached n)"
    by (rule register_filters_detach [OF assms])
  note ok = epoll_inv_node [OF e1(1,3)]
  obtain f where f: "get_needed_filters P (detached n) = Some f"
    using get_needed_filters_total [OF node_ok_wf [OF ok]] by blast
  let ?n = "with_filters f (detached n)"
  let ?e = "set_node a ?n e1"
  let ?kev = "register_kevs P a (node_fd (detached n)) f"
  have "node_ok P (poll_fds e1) a ?n"
    using with_filters_ok [OF ok f] assms(4) by (simp add: detached_def)
  then have inv: "epoll_inv P ?e"
    by (rule epoll_inv_set_node [OF e1(1,3), rotated]) (simp add: with_filters_def)
  have t: "touches a e ?e" using e1(2) touches_set_node touches_trans by blast
  have k: "kept n ?n" using kept_detached kept_with_filters kept_trans by blast
  obtain r w2 where c: "sys_kevent P kq ?kev (length ?kev) w1 = (r, w2)" by fastforce
  have rec: "length out = length ?kev" "\<forall>k \<in> set out. has_bits (kev_flags k) EV_ERROR" if "r = Inr out" for out
  proof -
    note rr = kevent_receiptsD [OF platform_okD(1) [OF assms(1)] c [unfolded that] register_kevs_receipt]
    show "length out = length ?kev" by (rule rr(1))
    then show "\<forall>k \<in> set out. has_bits (kev_flags k) EV_ERROR" using rr(2) by (auto simp: in_set_conv_nth)
  qed
  have h: "\<not> has_evfilt_read (detached n)" "\<not> has_evfilt_write (detached n)" "\<not> has_evfilt_except (detached n)"
    by (simp_all add: detached_def)
  have ne: "evfilt_read f \<noteq> 0 \<or> evfilt_write f \<noteq> 0" using get_needed_filters_base [OF f] by blast
  have eq: "register_filters P e kq a w = (case (r, w2) of
        (Inl ec, w2) \<Rightarrow> Some (Inl ec, ?e, w2)
      | (Inr out, w2) \<Rightarrow> do {
          c_assert (length out = length ?kev);
          c_assert (\<forall>k \<in> set out. has_bits (kev_flags k) EV_ERROR);
          Some (Inr (map kev_data out @ replicate (4 - length out) 0, f), ?e, w2)
        })"
    unfolding register_filters_def assms(3)
    using d e1(3) f h ne get_needed_filters_except [OF f] c
    by (simp add: Let_def)
  have ty: "node_type ?n = node_type n" by (simp add: with_filters_def detached_def)
  show thesis
  proof (cases r)
    case (Inl ec)
    then show thesis using that [of "Inl ec" ?e w2 ?n] eq inv t k ty by simp
  next
    case (Inr out)
    then show thesis
      using that [of "Inr (map kev_data out @ replicate (4 - length out) 0, f)" ?e w2 ?n] eq inv t k ty rec [OF Inr]
      by simp
  qed
qed

lemma write_eof_node_ok:
  assumes "node_ok P polls a n" "node_type n = NODE_TYPE_FIFO" "fst p \<ge> 0 \<longleftrightarrow> snd p \<ge> 0"
  shows "node_ok P polls a (n\<lparr>eof_state := EOF_STATE_BOTH, has_evfilt_write := False, node_self_pipe := p\<rparr>)"
proof -
  have "\<not> is_on_pollfd_list n" "a \<notin> set polls" using assms(1,2) by (auto simp: node_ok_def)
  then show ?thesis
    using assms by (simp add: node_ok_def node_wf_def revents_ok_def)
qed

lemma register_receipts_step:
  assumes "platform_ok P" "node_ok P polls a n" "node_type n \<noteq> NODE_TYPE_POLL"
  shows "\<exists>r n' w'. register_receipts P kq a f i ds n w = Some (r, n', w') \<and> node_ok P polls a n' \<and> kept n n'"
  using assms(2,3)
proof (induction ds arbitrary: i n w)
  case (Cons d ds)
  let ?n = "n\<lparr>eof_state := EOF_STATE_BOTH, has_evfilt_write := False\<rparr>"
  have pipe: "fst (node_self_pipe n) \<ge> 0 \<longleftrightarrow> snd (node_self_pipe n) \<ge> 0"
    using node_wf_pipe [OF node_ok_wf [OF Cons.prems(1)]] .
  consider "d = 0" | "d \<noteq> 0" "\<not> write_eof_receipt P f i d n"
    | "d \<noteq> 0" "write_eof_receipt P f i d n" "evfilt_read f \<noteq> 0"
    | "d \<noteq> 0" "write_eof_receipt P f i d n" "evfilt_read f = 0" by blast
  then show ?case
  proof cases
    case 1
    then show ?thesis using Cons.IH [OF Cons.prems] by simp
  next
    case 2
    then show ?thesis using Cons.prems by simp
  next
    case 3
    then have ty: "node_type n = NODE_TYPE_FIFO" by (simp add: write_eof_receipt_def)
    have "node_ok P polls a ?n" using write_eof_node_ok [OF Cons.prems(1) ty pipe] by simp
    from Cons.IH [OF this] show ?thesis using 3 ty by (simp add: kept_def)
  next
    case 4
    then have ty: "node_type n = NODE_TYPE_FIFO" by (simp add: write_eof_receipt_def)
    obtain r q w1 where
      t: "registered_fds_node_add_self_trigger P a ?n kq w = Some (r, ?n\<lparr>node_self_pipe := q\<rparr>, w1)"
      and q: "fst q \<ge> 0 \<longleftrightarrow> snd q \<ge> 0" "r = Inr () \<or> snd (node_self_pipe ?n) \<ge> 0 \<longrightarrow> cfg_EVFILT_USER P \<or> snd q \<ge> 0"
      by (rule node_add_self_trigger_step [OF assms(1), of ?n a kq w]) (use pipe in simp_all)
    have ok: "node_ok P polls a (?n\<lparr>node_self_pipe := q\<rparr>)" using write_eof_node_ok [OF Cons.prems(1) ty q(1)] by simp
    show ?thesis
    proof (cases r)
      case (Inl ec)
      then show ?thesis using 4 t ok by (simp add: kept_def)
    next
      case (Inr u)
      then have "cfg_EVFILT_USER P \<or> snd (node_self_pipe (?n\<lparr>node_self_pipe := q\<rparr>)) \<ge> 0" using q(2) by simp
      then obtain w2 where w2: "registered_fds_node_trigger_self P a (?n\<lparr>node_self_pipe := q\<rparr>) kq w1 = Some w2"
        using trigger_self_total [of P "?n\<lparr>node_self_pipe := q\<rparr>" a kq w1] by auto
      from Cons.IH [OF ok] show ?thesis using 4 t w2 Inr ty by (simp add: kept_def)
    qed
  qed
qed simp

text \<open>The events of a node that is about to be registered, restricted to what its kind supports.\<close>

lemma register_events_step:
  assumes "platform_ok P" "epoll_inv P (set_node a (restrict_events P n) e)" "nodes e a = Some n"
    and "is_registered n \<or>
         \<not> has_evfilt_read n \<and> \<not> has_evfilt_write n \<and> \<not> has_evfilt_except n \<and> node_type n \<noteq> NODE_TYPE_POLL"
  obtains r e' w' n' where "epollfd_ctx__register_events P e kq a w = Some (r, e', w')" "epoll_inv P e'"
    "touches a e e'" "nodes e' a = Some n'" "kept (restrict_events P n) n'"
proof -
  let ?n = "restrict_events P n"
  let ?e = "set_node a ?n e"
  have r: "node_type ?n = node_type n" "is_registered ?n = is_registered n" "node_fd ?n = node_fd n"
    "has_evfilt_read ?n = has_evfilt_read n" "has_evfilt_write ?n = has_evfilt_write n"
    "has_evfilt_except ?n = has_evfilt_except n"
    by (simp_all add: restrict_events_def)
  have n0: "nodes ?e a = Some ?n" by simp
  have fd: "node_fd n \<ge> 0" using epoll_inv_node [OF assms(2) n0] r by (simp add: node_ok_def)
  have t0: "touches a e e'" if "touches a ?e e'" for e' using that touches_set_node touches_trans by blast
  show thesis
  proof (cases "node_type n = NODE_TYPE_POLL")
    case True
    have "node_type ?n = NODE_TYPE_OTHER \<or> node_type ?n = NODE_TYPE_POLL \<and> is_registered ?n"
      using True assms(4) r by simp
    then obtain q e1 w1 n1 where "register_poll_only P ?e kq a w = Some (q, e1, w1)"
      and "epoll_inv P e1" "touches a ?e e1" "nodes e1 a = Some n1" "kept ?n n1"
      by (rule register_poll_only_step [OF assms(1,2) n0])
    then show thesis
      using True fd assms(3) t0 by (intro that [of q e1 w1 n1]) (simp_all add: epollfd_ctx__register_events_def)
  next
    case False
    have p: "node_type ?n \<noteq> NODE_TYPE_POLL"
      "is_registered ?n \<or> \<not> has_evfilt_read ?n \<and> \<not> has_evfilt_write ?n \<and> \<not> has_evfilt_except ?n"
      using False assms(4) r by auto
    obtain q e1 w1 n1 where f: "register_filters P ?e kq a w = Some (q, e1, w1)"
      and e1: "epoll_inv P e1" "touches a ?e e1" "nodes e1 a = Some n1" "kept ?n n1" "node_type n1 = node_type ?n"
      by (rule register_filters_step [OF assms(1,2) n0 p])
    show thesis
    proof (cases q)
      case (Inl ec)
      then show thesis
        using f e1 False fd assms(3) t0
        by (intro that [of "Inl ec" e1 w1 n1]) (simp_all add: epollfd_ctx__register_events_def)
    next
      case (Inr v)
      obtain ds fl where v: "v = (ds, fl)" by (cases v)
      show thesis
      proof (cases "node_type n1 = NODE_TYPE_OTHER \<and> hd ds = ENODEV")
        case True
        then have "node_type n1 = NODE_TYPE_OTHER \<or> node_type n1 = NODE_TYPE_POLL \<and> is_registered n1" by blast
        then obtain q2 e2 w2 n2 where "register_poll_only P e1 kq a w1 = Some (q2, e2, w2)"
          and "epoll_inv P e2" "touches a e1 e2" "nodes e2 a = Some n2" "kept n1 n2"
          by (rule register_poll_only_step [OF assms(1) e1(1,3)])
        then show thesis
          using f e1 False fd assms(3) t0 [OF touches_trans] True Inr v kept_trans
          by (intro that [of q2 e2 w2 n2]) (auto simp: epollfd_ctx__register_events_def)
      next
        case other: False
        have ty: "node_type n1 \<noteq> NODE_TYPE_POLL" using e1(5) r False by simp
        obtain q2 n2 w2 where g: "register_receipts P kq a fl 0 ds n1 w1 = Some (q2, n2, w2)"
          and n2: "node_ok P (poll_fds e1) a n2" "kept n1 n2"
          using register_receipts_step [OF assms(1) epoll_inv_node [OF e1(1,3)] ty] by blast
        have "epoll_inv P (set_node a n2 e1)"
          by (rule epoll_inv_set_node [OF e1(1,3) _ n2(1)]) (use n2(2) in \<open>simp add: kept_def\<close>)
        moreover have "touches a e (set_node a n2 e1)" using t0 e1(2) touches_set_node touches_trans by blast
        ultimately show thesis
          using f e1 False fd assms(3) other Inr v g n2 kept_trans
          by (intro that [of q2 "set_node a n2 e1" w2 n2]) (auto simp: epollfd_ctx__register_events_def)
      qed
    qed
  qed
qed

end
