(* ===== verification/Epollfd_Ctl.thy ===== *)
theory Epollfd_Ctl
  imports Epollfd_Inv
begin

text \<open>
  \<open>epollfd_ctx_ctl\<close> and the operations it is made of, against the abstract interest list of epoll(7):
  a finite map from descriptors to what the caller asked for. The theory shows that every call
  returns and keeps the invariant, what each outcome does to the interest list, and that a call
  about one descriptor leaves the nodes of all others as they are.
\<close>

section \<open>Removing a node\<close>

lemma tree_okD:
  assumes "tree_ok e"
  shows "rb_ordered (registered_fds e)" "registered_fds_size e = length (registered_fds e)"
    "rb_find fd (registered_fds e) = Some a \<longleftrightarrow> (\<exists>n. nodes e a = Some n \<and> node_fd n = fd)"
  using assms rb_find_mem [of "registered_fds e" fd a] by (simp_all add: tree_ok_def)

lemma tree_okI:
  assumes "rb_ordered (registered_fds e)" "registered_fds_size e = length (registered_fds e)"
    and "\<And>fd a. rb_find fd (registered_fds e) = Some a \<longleftrightarrow> (\<exists>n. nodes e a = Some n \<and> node_fd n = fd)"
  shows "tree_ok e"
  using assms rb_find_mem [OF assms(1)] by (simp add: tree_ok_def)

lemma epoll_inv_tree: "epoll_inv P e \<Longrightarrow> tree_ok e"
  by (simp add: epoll_inv_def)

text \<open>Two nodes of the store have different descriptors.\<close>

lemma node_fd_unique:
  assumes "tree_ok e" "nodes e a = Some n" "nodes e b = Some m" "node_fd n = node_fd m"
  shows "a = b"
  using tree_okD(3) [OF assms(1)] assms(2-4) by (metis option.inject)

lemma remove_node_step:
  assumes "platform_ok P" "epoll_inv P e" "nodes e a = Some n"
  obtains e' w' where "epollfd_ctx_remove_node P e kq a w = Some (e', w')" "epoll_inv P e'"
    "nodes e' = (nodes e)(a := None)" "registered_fds e' = rb_remove (node_fd n) (registered_fds e)"
proof -
  obtain e1 w1 where r: "epollfd_ctx__remove_node_from_kq P e kq a w = Some (e1, w1)" and inv: "epoll_inv P e1"
    and t: "touches a e e1" and n1: "nodes e1 a = Some (detached n)" and off: "a \<notin> set (poll_fds e1)"
    using remove_node_from_kq_step [OF assms] by blast
  note tr = tree_okD [OF epoll_inv_tree [OF inv]]
  have fd: "node_fd (detached n) = node_fd n" by (simp add: detached_def)
  have found: "rb_find (node_fd n) (registered_fds e1) = Some a" using tr(3) n1 fd by blast
  then have pos: "registered_fds_size e1 > 0" using tr(2) rb.card_rem [OF tr(1) found] by simp
  let ?e = "e1\<lparr>registered_fds := rb_remove (node_fd n) (registered_fds e1),
       registered_fds_size := registered_fds_size e1 - 1, nodes := (nodes e1)(a := None)\<rparr>"
  have "tree_ok ?e"
  proof (rule tree_okI)
    show "rb_ordered (registered_fds ?e)" using rb.rem_inv [OF tr(1)] by simp
    show "registered_fds_size ?e = length (registered_fds ?e)"
      using tr(2) rb.card_rem [OF tr(1) found] by simp
    fix g b
    have "rb_find g (registered_fds e1) = Some b \<Longrightarrow> g \<noteq> node_fd n \<longleftrightarrow> b \<noteq> a"
      using tr(3) [of g b] n1 fd found by fastforce
    then show "rb_find g (registered_fds ?e) = Some b \<longleftrightarrow> (\<exists>m. nodes ?e b = Some m \<and> node_fd m = g)"
      using rb.find_rem [OF tr(1), of g "node_fd n"] tr(3) [of g b] n1 fd by auto
  qed
  moreover have "polls_ok ?e" "pipe_ok P ?e" "\<forall>b m. nodes ?e b = Some m \<longrightarrow> node_ok P (poll_fds ?e) b m"
    using inv off by (auto simp: epoll_inv_def polls_ok_def pipe_ok_def)
  ultimately have "epoll_inv P ?e" by (simp add: epoll_inv_def)
  moreover have "nodes ?e = (nodes e)(a := None)" using t by (auto simp: touches_def fun_eq_iff)
  moreover have "registered_fds ?e = rb_remove (node_fd n) (registered_fds e)" using t by (simp add: touches_def)
  moreover have "\<exists>w'. epollfd_ctx_remove_node P e kq a w = Some (?e, w')"
    using r n1 pos fd by (simp add: epollfd_ctx_remove_node_def)
  ultimately show thesis using that by blast
qed

section \<open>Flags and classification\<close>

lemma subset_bits_narrow: "subset_bits (ucast (ucast (x :: 32 word) :: 16 word) :: 32 word) x"
  by (simp add: subset_bits_iff bit_unsigned_iff)

lemma restrict_bits:
  assumes "subset_bits (ucast (es :: 16 word) :: 32 word) (i OR p OR r OR q)"
  shows "subset_bits (ucast (es AND NOT (ucast r) AND NOT (ucast p)) :: 32 word) (i OR q)"
  using assms
  by (auto simp: subset_bits_iff bit_unsigned_iff bit_and_iff bit_or_iff bit_not_iff dest: bit_imp_le_length)

lemma node_wf_request:
  assumes "node_wf P (n\<lparr>events := 0, is_oneshot := False\<rparr>)"
    and "subset_bits (ucast es) (EPOLL_REQUESTS P)" "os \<longrightarrow> et"
  shows "node_wf P (restrict_events P (n\<lparr>events := es, needs_rdhup_translation := tr, node_data := d,
      is_edge_triggered := et, is_oneshot := os\<rparr>))"
proof (cases "node_type n = NODE_TYPE_SOCKET")
  case True
  then show ?thesis using assms by (simp add: node_wf_def restrict_events_def)
next
  case False
  note r = restrict_bits [OF assms(2)]
  then have "subset_bits (ucast (es AND NOT (ucast (EPOLLRDHUP P)) AND NOT (ucast EPOLLPRI)) :: 32 word)
      (EPOLL_REQUESTS P)"
    using subset_bits_trans [OF r] by (meson subset_bits_or_left subset_bits_orI subset_bits_refl)
  then show ?thesis using r False assms(1,3) by (simp add: node_wf_def restrict_events_def)
qed

lemma update_flags_step:
  assumes "node_wf P (n\<lparr>events := 0, is_oneshot := False\<rparr>)" "ctl_events_valid P (ev_events ev)"
  obtains n1 where "registered_fds_node_update_flags_from_epoll_event P n ev = Some n1"
    "node_wf P (restrict_events P n1)"
    "\<exists>es tr et os. n1 = n\<lparr>events := es, needs_rdhup_translation := tr, node_data := ev_data ev,
        is_edge_triggered := et, is_oneshot := os\<rparr>"
proof -
  let ?tr = "EPOLLRDHUP P \<noteq> 0x2000 \<and> has_bits (ev_events ev) 0x2000"
  let ?e0 = "ucast (ev_events ev AND EPOLL_REQUESTS P) :: 16 word"
  let ?es = "if ?tr then ?e0 OR ucast (EPOLLRDHUP P) else ?e0"
  let ?os = "has_bits (ev_events ev) EPOLLONESHOT"
  let ?n = "n\<lparr>events := ?es, needs_rdhup_translation := ?tr, node_data := ev_data ev,
      is_edge_triggered := has_bits (ev_events ev) EPOLLET \<or> ?os, is_oneshot := ?os\<rparr>"
  have u: "registered_fds_node_update_flags_from_epoll_event P n ev = Some ?n"
    using assms(2) by (auto simp: registered_fds_node_update_flags_from_epoll_event_def ctl_events_valid_def Let_def)
  have e0: "subset_bits (ucast ?e0) (EPOLL_REQUESTS P)"
    using subset_bits_trans [OF subset_bits_narrow subset_bits_and] .
  moreover have "subset_bits (ucast (ucast (EPOLLRDHUP P) :: 16 word)) (EPOLL_REQUESTS P)"
    using subset_bits_trans [OF subset_bits_narrow] by (meson subset_bits_orI subset_bits_refl)
  ultimately have req: "subset_bits (ucast ?es) (EPOLL_REQUESTS P)"
    by (auto simp: unsigned_or_eq)
  have "node_wf P (restrict_events P ?n)" by (rule node_wf_request [OF assms(1) req]) simp
  then show thesis using u that by blast
qed

text \<open>A freshly classified node.\<close>

definition classified :: "int \<Rightarrow> RegisteredFDsNode \<Rightarrow> bool" where
  "classified fd n \<longleftrightarrow>
     node_fd n = fd \<and> \<not> is_registered n \<and> revents n = 0 \<and> \<not> has_evfilt_read n \<and>
     \<not> has_evfilt_write n \<and> \<not> has_evfilt_except n \<and> \<not> is_on_pollfd_list n \<and> eof_state n = 0 \<and>
     node_self_pipe n = (-1, -1) \<and>
     node_type n \<noteq> NODE_TYPE_POLL \<and>
     (node_type n = NODE_TYPE_FIFO \<longrightarrow> fifo_readable n \<or> fifo_writable n)"

lemma classify_fifo_step:
  obtains c n1 w' where "classify_fifo P fd (fresh_node fd) w = Some (c, n1, w')"
    "\<And>n. c = Inr n \<Longrightarrow> classified fd n1"
proof -
  obtain g w1 where g: "sys_fcntl_getfl P fd w = (g, w1)" by fastforce
  have c: "\<exists>c n1 w'. classify_fifo P fd (fresh_node fd) w = Some (c, n1, w') \<and> (\<forall>n. c = Inr n \<longrightarrow> classified fd n1)"
  proof (cases g)
    case (Inl ec)
    then show ?thesis using g by (simp add: classify_fifo_def)
  next
    case (Inr fl)
    then show ?thesis
      using g
      by (auto simp: classify_fifo_def modify_fifo_rights_from_capabilities_def classified_def Let_def
          fresh_node_def split: prod.splits option.splits)
  qed
  then show thesis using that by blast
qed

lemma classify_node_step:
  obtains c n1 w' where "classify_node P fd desc st (fresh_node fd) w = Some (c, n1, w')"
    "\<And>n. c = Inr n \<Longrightarrow> classified fd n1"
proof -
  have k: "classified fd (fst (classify_kqueue P fd desc (fresh_node fd) v))" for v
    by (auto simp: classify_kqueue_def classified_def fresh_node_def split: prod.splits)
  have f: "\<exists>c n1 w'. classify_fifo P fd (fresh_node fd) v = Some (c, n1, w') \<and> (\<forall>n. c = Inr n \<longrightarrow> classified fd n1)" for v
    by (rule classify_fifo_step [of P fd v]) blast
  have "\<exists>c n1 w'. classify_node P fd desc st (fresh_node fd) w = Some (c, n1, w') \<and> (\<forall>n. c = Inr n \<longrightarrow> classified fd n1)"
  proof (cases st)
    case S_IFIFO
    obtain i v where i: "sys_ioctl_fionread P fd w = (i, v)" by fastforce
    have fd: "node_fd (fresh_node fd) = fd" by (simp add: fresh_node_def)
    obtain n1 w2 where q: "classify_kqueue P fd desc (fresh_node fd) v = (n1, w2)" by fastforce
    show ?thesis
    proof (cases i)
      case (Inl ec)
      then show ?thesis
        using S_IFIFO i fd q k [of v] f [of v] by (cases "ec = ENOTTY") (simp_all add: classify_node_def)
    next
      case (Inr u)
      then show ?thesis using S_IFIFO i fd f [of v] by (simp add: classify_node_def)
    qed
  qed (simp_all add: classify_node_def classified_def fresh_node_def Let_def)
  then show thesis using that by blast
qed

text \<open>Linking a new node into the tree and the store.\<close>

lemma epoll_inv_insert:
  assumes "epoll_inv P e" "nodes e a = None" "rb_find fd (registered_fds e) = None"
    and "node_fd n = fd" "node_ok P (poll_fds e) a n"
  shows "epoll_inv P (set_node a n (e\<lparr>registered_fds := snd (rb_insert fd a (registered_fds e)),
      registered_fds_size := Suc (registered_fds_size e)\<rparr>))" (is "epoll_inv P ?e")
proof -
  note tr = tree_okD [OF epoll_inv_tree [OF assms(1)]]
  have "tree_ok ?e"
  proof (rule tree_okI)
    show "rb_ordered (registered_fds ?e)" using rb.ins_inv [OF tr(1)] by simp
    show "registered_fds_size ?e = length (registered_fds ?e)"
      using tr(2) rb.card_ins [OF tr(1) assms(3)] by simp
    fix g b
    have "rb_find g (registered_fds e) = Some b \<Longrightarrow> g \<noteq> fd \<and> b \<noteq> a"
      using tr(3) [of g b] assms(2,3) by auto
    then show "rb_find g (registered_fds ?e) = Some b \<longleftrightarrow> (\<exists>m. nodes ?e b = Some m \<and> node_fd m = g)"
      using rb.find_ins [OF tr(1) assms(3), of g a] tr(3) [of g b] assms(2-4) by auto
  qed
  moreover have "polls_ok ?e" "pipe_ok P ?e" "\<forall>b m. nodes ?e b = Some m \<longrightarrow> node_ok P (poll_fds ?e) b m"
    using assms(1,5) by (auto simp: epoll_inv_def polls_ok_def pipe_ok_def)
  ultimately show ?thesis by (simp add: epoll_inv_def)
qed

lemma set_node_twice [simp]: "set_node a n (set_node a m e) = set_node a n e"
  by (simp add: set_node_def)

section \<open>The interest list\<close>

record interest =
  int_data :: "64 word"
  int_in :: bool
  int_out :: bool
  int_edge :: bool
  int_oneshot :: bool

definition interest_of_node :: "RegisteredFDsNode \<Rightarrow> interest" where
  "interest_of_node n =
     \<lparr>int_data = node_data n, int_in = has_bits (events32 n) EPOLLIN, int_out = has_bits (events32 n) EPOLLOUT,
      int_edge = is_edge_triggered n, int_oneshot = is_oneshot n\<rparr>"

definition interest_of_event :: "epoll_event \<Rightarrow> interest" where
  "interest_of_event ev =
     \<lparr>int_data = ev_data ev, int_in = has_bits (ev_events ev) EPOLLIN, int_out = has_bits (ev_events ev) EPOLLOUT,
      int_edge = has_bits (ev_events ev) EPOLLET \<or> has_bits (ev_events ev) EPOLLONESHOT,
      int_oneshot = has_bits (ev_events ev) EPOLLONESHOT\<rparr>"

text \<open>The node of a descriptor, and the abstract interest list of an epoll context.\<close>

definition lookup_node :: "EpollFDCtx \<Rightarrow> int \<Rightarrow> RegisteredFDsNode option" where
  "lookup_node e fd = do { a \<leftarrow> rb_find fd (registered_fds e); nodes e a }"

definition interest_list :: "EpollFDCtx \<Rightarrow> int \<Rightarrow> interest option" where
  "interest_list e fd = map_option interest_of_node (lookup_node e fd)"

lemma lookup_node_iff:
  assumes "tree_ok e"
  shows "lookup_node e fd = Some n \<longleftrightarrow> (\<exists>a. nodes e a = Some n \<and> node_fd n = fd)"
  using tree_okD(3) [OF assms] by (fastforce simp: lookup_node_def split: Option.bind_splits)

lemma has_bits_exp: "has_bits x (2 ^ k) \<longleftrightarrow> bit x k"
  by (auto simp: has_bits_iff bit_exp_iff possible_bit_word dest: bit_imp_le_length)

lemma has_bits_in_out:
  "has_bits x EPOLLIN \<longleftrightarrow> bit x 0" "has_bits x EPOLLOUT \<longleftrightarrow> bit x 2"
  using has_bits_exp [of x 0] has_bits_exp [of x 2] by simp_all

text \<open>Requested reads and writes survive the narrowing to 16 bits and the restriction by kind.\<close>

lemma request_bits:
  assumes "\<not> bit r k" "bit (i OR p OR r OR q) k" "\<not> bit p k" "k < 16"
  shows "bit (ucast (ucast (x AND (i OR p OR r OR q)) :: 16 word) :: 32 word) k \<longleftrightarrow> bit (x :: 32 word) k"
    and "bit (ucast ((ucast (x AND (i OR p OR r OR q)) :: 16 word) OR ucast r) :: 32 word) k \<longleftrightarrow> bit x k"
    and "bit (ucast ((es :: 16 word) AND NOT (ucast r) AND NOT (ucast p)) :: 32 word) k \<longleftrightarrow> bit (ucast es :: 32 word) k"
  using assms by (auto simp: bit_unsigned_iff bit_and_iff bit_or_iff bit_not_iff)

lemma interest_update:
  assumes "registered_fds_node_update_flags_from_epoll_event P n ev = Some n1" "rdhup_ok P"
  shows "interest_of_node (restrict_events P n1) = interest_of_event ev"
proof -
  let ?tr = "EPOLLRDHUP P \<noteq> 0x2000 \<and> has_bits (ev_events ev) 0x2000"
  let ?e0 = "ucast (ev_events ev AND EPOLL_REQUESTS P) :: 16 word"
  let ?es = "if ?tr then ?e0 OR ucast (EPOLLRDHUP P) else ?e0"
  let ?os = "has_bits (ev_events ev) EPOLLONESHOT"
  have n1: "n1 = n\<lparr>events := ?es, needs_rdhup_translation := ?tr, node_data := ev_data ev,
      is_edge_triggered := has_bits (ev_events ev) EPOLLET \<or> ?os, is_oneshot := ?os\<rparr>"
    using assms(1)
    unfolding registered_fds_node_update_flags_from_epoll_event_def Let_def bind_c_assert_eq_Some by simp
  have r: "\<not> bit (EPOLLRDHUP P) 0" "\<not> bit (EPOLLRDHUP P) 2"
    using assms(2) by (simp_all add: rdhup_ok_def has_bits_in_out)
  have k: "bit (ucast ?es :: 32 word) j \<longleftrightarrow> bit (ev_events ev) j"
    "bit (ucast ((es :: 16 word) AND NOT (ucast (EPOLLRDHUP P)) AND NOT (ucast EPOLLPRI)) :: 32 word) j
       \<longleftrightarrow> bit (ucast es :: 32 word) j" if "j = 0 \<or> j = 2" for j es
  proof -
    have j: "\<not> bit (EPOLLRDHUP P) j" "bit (EPOLL_REQUESTS P) j" "\<not> bit EPOLLPRI j" "j < 16"
      using that r by (auto simp: bit_or_iff)
    show "bit (ucast ?es :: 32 word) j \<longleftrightarrow> bit (ev_events ev) j"
      using request_bits(1,2) [OF j, of "ev_events ev"] by (cases ?tr) simp_all
    show "bit (ucast ((es :: 16 word) AND NOT (ucast (EPOLLRDHUP P)) AND NOT (ucast EPOLLPRI)) :: 32 word) j
       \<longleftrightarrow> bit (ucast es :: 32 word) j"
      using request_bits(3) [OF j, of es] .
  qed
  have "bit (events32 (restrict_events P n1)) j \<longleftrightarrow> bit (ev_events ev) j" if "j = 0 \<or> j = 2" for j
    using k(1) [OF that] k(2) [OF that, of ?es] unfolding n1 restrict_events_def by simp
  then show ?thesis
    by (simp add: interest_of_node_def interest_of_event_def has_bits_in_out) (simp add: n1 restrict_events_def)
qed

lemma kept_interest: "kept n n' \<Longrightarrow> interest_of_node n' = interest_of_node n"
  by (simp add: kept_def interest_of_node_def)

lemma lookup_node_ext:
  assumes "tree_ok e" "\<And>n. f = Some n \<longleftrightarrow> (\<exists>a. nodes e a = Some n \<and> node_fd n = fd)"
  shows "lookup_node e fd = f"
  using lookup_node_iff [OF assms(1), of fd] assms(2) by (metis option.exhaust)

lemma lookup_node_update:
  assumes "tree_ok e" "tree_ok e'" "nodes e' = (nodes e)(a \<mapsto> n')"
    and "\<forall>n. nodes e a = Some n \<longrightarrow> node_fd n = node_fd n'"
    and "\<forall>b n. nodes e b = Some n \<and> node_fd n = node_fd n' \<longrightarrow> b = a"
  shows "lookup_node e' = (lookup_node e)(node_fd n' \<mapsto> n')"
proof
  fix g
  show "lookup_node e' g = ((lookup_node e)(node_fd n' \<mapsto> n')) g"
  proof (rule lookup_node_ext [OF assms(2)])
    fix m
    show "((lookup_node e)(node_fd n' \<mapsto> n')) g = Some m \<longleftrightarrow> (\<exists>b. nodes e' b = Some m \<and> node_fd m = g)"
    proof (cases "g = node_fd n'")
      case True
      then show ?thesis using assms(5) by (auto simp: assms(3) split: if_splits intro: exI [of _ a])
    next
      case False
      then have "nodes e' b = Some m \<and> node_fd m = g \<longleftrightarrow> nodes e b = Some m \<and> node_fd m = g" for b
        using assms(4) by (auto simp: assms(3))
      then show ?thesis using False lookup_node_iff [OF assms(1), of g m] by simp
    qed
  qed
qed

lemma lookup_node_remove:
  assumes "tree_ok e" "tree_ok e'" "nodes e' = (nodes e)(a := None)" "nodes e a = Some n"
  shows "lookup_node e' = (lookup_node e)(node_fd n := None)"
proof
  fix g
  show "lookup_node e' g = ((lookup_node e)(node_fd n := None)) g"
  proof (rule lookup_node_ext [OF assms(2)])
    fix m
    have "nodes e' b = Some m \<and> node_fd m = g \<longleftrightarrow> nodes e b = Some m \<and> node_fd m = g \<and> g \<noteq> node_fd n" for b
      using node_fd_unique [OF assms(1) _ assms(4), of b m] assms(4) by (auto simp: assms(3))
    then show "((lookup_node e)(node_fd n := None)) g = Some m \<longleftrightarrow> (\<exists>b. nodes e' b = Some m \<and> node_fd m = g)"
      using lookup_node_iff [OF assms(1), of g m] by simp
  qed
qed

lemma lookup_node_same:
  assumes "tree_ok e" "tree_ok e'" "nodes e' = nodes e"
  shows "lookup_node e' = lookup_node e"
  using lookup_node_iff [OF assms(1)] by (intro ext lookup_node_ext [OF assms(2)]) (simp add: assms(3))

lemma touches_nodes: "touches a e e' \<Longrightarrow> nodes e' a = Some n \<Longrightarrow> nodes e' = (nodes e)(a \<mapsto> n)"
  by (auto simp: touches_def fun_eq_iff)

lemma epoll_wf_remove:
  assumes "epoll_inv P e'" "nodes e' = (nodes e)(a := None)"
    and "\<forall>b n. b \<noteq> a \<longrightarrow> nodes e b = Some n \<longrightarrow> is_registered n \<and> revents n = 0"
  shows "epoll_wf P e'"
  using assms by (auto simp: epoll_wf_def)

section \<open>Adding and changing nodes\<close>

text \<open>malloc(3) returns memory that is not in use.\<close>

definition malloc_fresh :: "'w platform \<Rightarrow> EpollFDCtx \<Rightarrow> bool" where
  "malloc_fresh P e \<longleftrightarrow> (\<forall>w a w'. sys_malloc P w = (Inr a, w') \<longrightarrow> nodes e a = None)"

text \<open>What a call about \<open>fd\<close> does to the interest list, by its result.\<close>

definition ctl_effect :: "EpollFDCtx \<Rightarrow> int \<Rightarrow> (errno + unit) \<Rightarrow> interest \<Rightarrow> EpollFDCtx \<Rightarrow> bool" where
  "ctl_effect e fd r i e' \<longleftrightarrow>
     (case r of
        Inr _ \<Rightarrow> \<exists>n. interest_of_node n = i \<and> lookup_node e' = (lookup_node e)(fd \<mapsto> n)
      | Inl _ \<Rightarrow> lookup_node e' = lookup_node e \<or> lookup_node e' = (lookup_node e)(fd := None))"

lemma classified_ok:
  assumes "classified fd n" "fd \<ge> 0" "a \<notin> set polls"
    and "registered_fds_node_update_flags_from_epoll_event P n ev = Some n1" "ctl_events_valid P (ev_events ev)"
  shows "node_ok P polls a (restrict_events P n1)" "node_fd n1 = fd" "\<not> is_registered n1" "revents n1 = 0"
    "\<not> has_evfilt_read n1 \<and> \<not> has_evfilt_write n1 \<and> \<not> has_evfilt_except n1 \<and> node_type n1 \<noteq> NODE_TYPE_POLL"
proof -
  have c: "node_fd n = fd" "\<not> is_registered n" "revents n = 0" "\<not> has_evfilt_read n" "\<not> has_evfilt_write n"
    "\<not> has_evfilt_except n" "\<not> is_on_pollfd_list n" "eof_state n = 0" "node_self_pipe n = (-1, -1)"
    "node_type n \<noteq> NODE_TYPE_POLL" "node_type n = NODE_TYPE_FIFO \<longrightarrow> fifo_readable n \<or> fifo_writable n"
    using assms(1) by (simp_all add: classified_def)
  have "node_wf P (n\<lparr>events := 0, is_oneshot := False\<rparr>)" using c by (simp add: node_wf_def)
  then obtain m where m: "registered_fds_node_update_flags_from_epoll_event P n ev = Some m"
    and wf: "node_wf P (restrict_events P m)"
    and ex: "\<exists>es tr et os. m = n\<lparr>events := es, needs_rdhup_translation := tr, node_data := ev_data ev,
        is_edge_triggered := et, is_oneshot := os\<rparr>"
    using update_flags_step [OF _ assms(5)] by metis
  have n1: "n1 = m" using m assms(4) by simp
  show "node_fd n1 = fd" "\<not> is_registered n1" "revents n1 = 0"
    "\<not> has_evfilt_read n1 \<and> \<not> has_evfilt_write n1 \<and> \<not> has_evfilt_except n1 \<and> node_type n1 \<noteq> NODE_TYPE_POLL"
    using ex c unfolding n1 by auto
  then show "node_ok P polls a (restrict_events P n1)"
    using wf ex c assms(2,3) unfolding n1 by (auto simp: node_ok_def revents_ok_def restrict_events_def)
qed

text \<open>Linking and registering a classified node: the second half of \<open>epollfd_ctx_add_node\<close>.\<close>

lemma add_node_register:
  assumes pl: "platform_ok P" and rd: "rdhup_ok P" and wf: "epoll_wf P e"
    and none: "rb_find fd (registered_fds e) = None" and fresh: "nodes e a = None"
    and n1: "node_ok P (poll_fds e) a (restrict_events P n1)" "node_fd n1 = fd" "\<not> is_registered n1" "revents n1 = 0"
      "\<not> has_evfilt_read n1 \<and> \<not> has_evfilt_write n1 \<and> \<not> has_evfilt_except n1 \<and> node_type n1 \<noteq> NODE_TYPE_POLL"
    and i: "interest_of_node (restrict_events P n1) = i"
    and e1: "e1 = set_node a n1 (e\<lparr>registered_fds := snd (rb_insert fd a (registered_fds e)),
      registered_fds_size := Suc (registered_fds_size e)\<rparr>)"
  obtains ec e2 w2 e3 w3 where "epollfd_ctx__register_events P e1 kq a w = Some (Inl ec, e2, w2)"
      "epollfd_ctx_remove_node P e2 kq a w2 = Some (e3, w3)" "epoll_wf P e3" "ctl_effect e fd (Inl ec) i e3"
  | e2 w2 n2 where "epollfd_ctx__register_events P e1 kq a w = Some (Inr (), e2, w2)" "nodes e2 a = Some n2"
      "epoll_wf P (set_node a (n2\<lparr>is_registered := True\<rparr>) e2)"
      "ctl_effect e fd (Inr ()) i (set_node a (n2\<lparr>is_registered := True\<rparr>) e2)"
proof -
  have inv: "epoll_inv P e" using wf by (simp add: epoll_wf_def)
  have reg: "\<forall>b n. nodes e b = Some n \<longrightarrow> is_registered n \<and> revents n = 0" using wf by (simp add: epoll_wf_def)
  let ?n = "restrict_events P n1"
  have rn: "node_fd ?n = fd" "revents ?n = 0" using n1 by (simp_all add: restrict_events_def)
  have "epoll_inv P (set_node a ?n e1)"
    using epoll_inv_insert [OF inv fresh none rn(1) n1(1)] by (simp add: e1)
  moreover have "nodes e1 a = Some n1" by (simp add: e1)
  ultimately obtain r e2 w2 n2 where r: "epollfd_ctx__register_events P e1 kq a w = Some (r, e2, w2)"
    and e2: "epoll_inv P e2" "touches a e1 e2" "nodes e2 a = Some n2" "kept ?n n2"
    by (rule register_events_step [OF pl, of a n1 e1 kq w]) (use n1(5) in auto)
  have nodes2: "nodes e2 = (nodes e)(a \<mapsto> n2)" using touches_nodes [OF e2(2,3)] by (simp add: e1)
  have n2: "node_fd n2 = fd" "revents n2 = 0" "interest_of_node n2 = i"
    using e2(4) rn i kept_interest [OF e2(4)] by (simp_all add: kept_def)
  have none': "\<forall>b n. nodes e b = Some n \<and> node_fd n = fd \<longrightarrow> b = a"
    using tree_okD(3) [OF epoll_inv_tree [OF inv], of fd] none by (metis option.distinct(1))
  show thesis
  proof (cases r)
    case (Inl ec)
    obtain e3 w3 where e3: "epollfd_ctx_remove_node P e2 kq a w2 = Some (e3, w3)" "epoll_inv P e3"
      "nodes e3 = (nodes e2)(a := None)"
      by (rule remove_node_step [OF pl e2(1,3), of kq w2])
    have "nodes e3 = nodes e" using e3(3) nodes2 fresh by auto
    then have "lookup_node e3 = lookup_node e"
      using lookup_node_same [OF epoll_inv_tree [OF inv] epoll_inv_tree [OF e3(2)]] by blast
    moreover have "epoll_wf P e3" using e3(2) reg \<open>nodes e3 = nodes e\<close> by (simp add: epoll_wf_def)
    ultimately show thesis using that(1) r e3(1) Inl by (simp add: ctl_effect_def)
  next
    case (Inr u)
    let ?m = "n2\<lparr>is_registered := True\<rparr>"
    have "node_ok P (poll_fds e2) a ?m"
      using epoll_inv_node [OF e2(1,3)] by (simp add: node_ok_def node_wf_def revents_ok_def)
    then have i3: "epoll_inv P (set_node a ?m e2)" by (rule epoll_inv_set_node [OF e2(1,3), rotated]) simp
    have nd: "nodes (set_node a ?m e2) = (nodes e)(a \<mapsto> ?m)" using nodes2 by simp
    have "epoll_wf P (set_node a ?m e2)" using i3 nd reg n2 by (auto simp: epoll_wf_def)
    moreover have "lookup_node (set_node a ?m e2) = (lookup_node e)(fd \<mapsto> ?m)"
      using lookup_node_update [OF epoll_inv_tree [OF inv] epoll_inv_tree [OF i3] nd] fresh none' n2(1) by simp
    moreover have "interest_of_node ?m = i" using n2(3) by (simp add: interest_of_node_def)
    ultimately show thesis using that(2) r e2(3) Inr by (auto simp: ctl_effect_def)
  qed
qed

lemma add_node_step:
  assumes "platform_ok P" "rdhup_ok P" "epoll_wf P e" "rb_find fd (registered_fds e) = None"
    and "fd \<ge> 0" "ctl_events_valid P (ev_events ev)" "malloc_fresh P e"
  obtains r e' w' where "epollfd_ctx_add_node P e kq fd desc ev st w = Some (r, e', w')" "epoll_wf P e'"
    "ctl_effect e fd r (interest_of_event ev) e'"
proof (cases "registered_fds_node_create P fd w")
  case (Pair m w1)
  show thesis
  proof (cases m)
    case None
    then show thesis
      using Pair assms(3) by (intro that [of "Inl ENOMEM" e w1]) (simp_all add: epollfd_ctx_add_node_def ctl_effect_def)
  next
    case (Some am)
    then obtain a where am: "am = (a, fresh_node fd)" and fresh: "nodes e a = None"
      using Pair assms(7)
      by (auto simp: registered_fds_node_create_def malloc_fresh_def split: prod.splits sum.splits)
    obtain c n1 w2 where c: "classify_node P fd desc st (fresh_node fd) w1 = Some (c, n1, w2)"
      and cl: "\<And>n. c = Inr n \<Longrightarrow> classified fd n1"
      by (rule classify_node_step [of P fd desc st w1]) blast
    show thesis
    proof (cases c)
      case (Inl ec)
      then show thesis
        using Pair Some am c assms(3)
        by (intro that [of "Inl ec" e "registered_fds_node_destroy P a n1 w2"])
          (simp_all add: epollfd_ctx_add_node_def ctl_effect_def)
    next
      case (Inr n)
      have off: "a \<notin> set (poll_fds e)"
        using assms(3) fresh by (auto simp: epoll_wf_def epoll_inv_def polls_ok_def)
      have cn: "classified fd n1" using cl [OF Inr] .
      have "node_wf P (n1\<lparr>events := 0, is_oneshot := False\<rparr>)" using cn by (simp add: classified_def node_wf_def)
      then obtain n2 where u: "registered_fds_node_update_flags_from_epoll_event P n1 ev = Some n2"
        using update_flags_step [OF _ assms(6)] by metis
      note ok = classified_ok [OF cn assms(5) off u assms(6)]
      have tr: "rb_ordered (registered_fds e)"
        using assms(3) by (simp add: epoll_wf_def epoll_inv_def tree_ok_def)
      obtain t where ins: "rb_insert fd a (registered_fds e) = (None, t)"
        using rb.ins_result [OF tr assms(4), of a] by (metis prod.collapse)
      let ?e = "set_node a n2 (e\<lparr>registered_fds := t, registered_fds_size := Suc (registered_fds_size e)\<rparr>)"
      have e: "?e = set_node a n2 (e\<lparr>registered_fds := snd (rb_insert fd a (registered_fds e)),
          registered_fds_size := Suc (registered_fds_size e)\<rparr>)" by (simp add: ins)
      show thesis
      proof (rule add_node_register [OF assms(1-4) fresh ok interest_update [OF u assms(2)] e, of kq w2])
        fix ec e2 v e3 v3
        assume "epollfd_ctx__register_events P ?e kq a w2 = Some (Inl ec, e2, v)"
          "epollfd_ctx_remove_node P e2 kq a v = Some (e3, v3)" "epoll_wf P e3"
          "ctl_effect e fd (Inl ec) (interest_of_event ev) e3"
        then show thesis
          using Pair Some am c u Inr ins
          by (intro that [of "Inl ec" e3 v3]) (simp_all add: epollfd_ctx_add_node_def)
      next
        fix e2 v n3
        assume "epollfd_ctx__register_events P ?e kq a w2 = Some (Inr (), e2, v)" "nodes e2 a = Some n3"
          "epoll_wf P (set_node a (n3\<lparr>is_registered := True\<rparr>) e2)"
          "ctl_effect e fd (Inr ()) (interest_of_event ev) (set_node a (n3\<lparr>is_registered := True\<rparr>) e2)"
        then show thesis
          using Pair Some am c u Inr ins
          by (intro that [of "Inr ()" "set_node a (n3\<lparr>is_registered := True\<rparr>) e2" v])
            (simp_all add: epollfd_ctx_add_node_def)
      qed
    qed
  qed
qed


lemma modify_node_step:
  assumes "platform_ok P" "rdhup_ok P" "epoll_wf P e" "nodes e a = Some n" "ctl_events_valid P (ev_events ev)"
  obtains r e' w' where "epollfd_ctx_modify_node P e kq a ev w = Some (r, e', w')" "epoll_wf P e'"
    "ctl_effect e (node_fd n) r (interest_of_event ev) e'"
proof -
  have inv: "epoll_inv P e" and reg: "\<forall>b m. nodes e b = Some m \<longrightarrow> is_registered m \<and> revents m = 0"
    using assms(3) by (simp_all add: epoll_wf_def)
  note ok = epoll_inv_node [OF inv assms(4)]
  have uniq: "\<forall>b m. nodes e b = Some m \<and> node_fd m = node_fd n \<longrightarrow> b = a"
    using node_fd_unique [OF epoll_inv_tree [OF inv] _ assms(4)] by blast
  have "node_wf P (n\<lparr>events := 0, is_oneshot := False\<rparr>)" using node_ok_wf [OF ok] by (simp add: node_wf_def)
  then obtain n1 where u: "registered_fds_node_update_flags_from_epoll_event P n ev = Some n1"
    and wf: "node_wf P (restrict_events P n1)"
    and ex: "\<exists>es tr et os. n1 = n\<lparr>events := es, needs_rdhup_translation := tr, node_data := ev_data ev,
        is_edge_triggered := et, is_oneshot := os\<rparr>"
    by (rule update_flags_step [OF _ assms(5)])
  let ?n = "restrict_events P n1"
  have n1: "node_fd ?n = node_fd n" "is_registered n1" "revents ?n = 0" "is_registered ?n"
    using ex reg assms(4) by (auto simp: restrict_events_def)
  have "node_ok P (poll_fds e) a ?n"
    using ok wf ex n1(3) by (auto simp: node_ok_def revents_ok_def restrict_events_def)
  then have "epoll_inv P (set_node a ?n (set_node a n1 e))"
    using epoll_inv_set_node [OF inv assms(4) n1(1)] by simp
  then obtain r e2 w2 n2 where r: "epollfd_ctx__register_events P (set_node a n1 e) kq a w = Some (r, e2, w2)"
    and e2: "epoll_inv P e2" "touches a (set_node a n1 e) e2" "nodes e2 a = Some n2" "kept ?n n2"
    by (rule register_events_step [OF assms(1), of a n1 "set_node a n1 e" kq w]) (use n1 in auto)
  have nodes2: "nodes e2 = (nodes e)(a \<mapsto> n2)" using touches_nodes [OF e2(2,3)] by simp
  have n2: "node_fd n2 = node_fd n" "revents n2 = 0" "is_registered n2" "interest_of_node n2 = interest_of_event ev"
    using e2(4) n1 kept_interest [OF e2(4)] interest_update [OF u assms(2)] by (simp_all add: kept_def)
  have m: "epollfd_ctx_modify_node P e kq a ev w =
      (case r of Inl ec \<Rightarrow> epollfd_ctx_remove_node P e2 kq a w2 \<bind> (\<lambda>(e3, w3). Some (Inl ec, e3, w3))
       | Inr _ \<Rightarrow> Some (Inr (), e2, w2))"
    using assms(4) u n1(2) r by (simp add: epollfd_ctx_modify_node_def)
  show thesis
  proof (cases r)
    case (Inl ec)
    obtain e3 w3 where e3: "epollfd_ctx_remove_node P e2 kq a w2 = Some (e3, w3)" "epoll_inv P e3"
      "nodes e3 = (nodes e2)(a := None)"
      by (rule remove_node_step [OF assms(1) e2(1,3), of kq w2])
    have nd: "nodes e3 = (nodes e)(a := None)" using e3(3) nodes2 by simp
    have "lookup_node e3 = (lookup_node e)(node_fd n := None)"
      using lookup_node_remove [OF epoll_inv_tree [OF inv] epoll_inv_tree [OF e3(2)] nd assms(4)] .
    moreover have "epoll_wf P e3" using epoll_wf_remove [OF e3(2) nd] reg by blast
    ultimately show thesis using that m e3(1) Inl by (simp add: ctl_effect_def)
  next
    case (Inr v)
    have "epoll_wf P e2" using e2(1) nodes2 reg n2 by (auto simp: epoll_wf_def)
    moreover have "lookup_node e2 = (lookup_node e)(node_fd n2 \<mapsto> n2)"
      by (rule lookup_node_update [OF epoll_inv_tree [OF inv] epoll_inv_tree [OF e2(1)] nodes2])
        (use uniq n2(1) assms(4) in fastforce)+
    ultimately show thesis using that m Inr n2(1,4) by (auto simp: ctl_effect_def)
  qed
qed

section \<open>The abstract interest list\<close>

text \<open>
  The contract of \<open>epoll_ctl\<close>, on interest lists: a successful call adds, changes or removes exactly
  the entry of its descriptor; a failed one changes nothing, or drops the entry of its descriptor.
\<close>

definition ctl_spec ::
  "int \<Rightarrow> int \<Rightarrow> epoll_event option \<Rightarrow> (int \<rightharpoonup> interest) \<Rightarrow> (errno + unit) \<Rightarrow> (int \<rightharpoonup> interest) \<Rightarrow> bool" where
  "ctl_spec op fd ev L r L' \<longleftrightarrow>
     (case r of
        Inr _ \<Rightarrow>
          op = EPOLL_CTL_ADD \<and> L fd = None \<and> L' = L(fd \<mapsto> interest_of_event (the ev)) \<or>
          op = EPOLL_CTL_MOD \<and> L fd \<noteq> None \<and> L' = L(fd \<mapsto> interest_of_event (the ev)) \<or>
          op = EPOLL_CTL_DEL \<and> L fd \<noteq> None \<and> L' = L(fd := None)
      | Inl _ \<Rightarrow> L' = L \<or> L' = L(fd := None))"

lemma interest_list_upd:
  "lookup_node e' = (lookup_node e)(fd \<mapsto> n) \<Longrightarrow> interest_list e' = (interest_list e)(fd \<mapsto> interest_of_node n)"
  "lookup_node e' = (lookup_node e)(fd := None) \<Longrightarrow> interest_list e' = (interest_list e)(fd := None)"
  by (auto simp: interest_list_def fun_eq_iff)

lemma interest_list_None: "tree_ok e \<Longrightarrow> interest_list e fd = None \<longleftrightarrow> rb_find fd (registered_fds e) = None"
  by (cases "rb_find fd (registered_fds e)")
    (auto simp: interest_list_def lookup_node_def dest: tree_okD(3) [THEN iffD1])

text \<open>What one call leaves behind: the invariant, the other nodes, and the abstract effect.\<close>

definition ctl_done ::
  "'w platform \<Rightarrow> EpollFDCtx \<Rightarrow> int \<Rightarrow> int \<Rightarrow> epoll_event option \<Rightarrow> (errno + unit) \<Rightarrow> EpollFDCtx \<Rightarrow> bool" where
  "ctl_done P e op fd ev r e' \<longleftrightarrow>
     epoll_wf P e' \<and> (\<forall>g. g \<noteq> fd \<longrightarrow> lookup_node e' g = lookup_node e g) \<and>
     ctl_spec op fd ev (interest_list e) r (interest_list e')"

lemma ctl_done_effect:
  assumes "epoll_wf P e'" "ctl_effect e fd r (interest_of_event (the ev)) e'"
    and "op = EPOLL_CTL_ADD \<and> interest_list e fd = None \<or> op = EPOLL_CTL_MOD \<and> interest_list e fd \<noteq> None"
  shows "ctl_done P e op fd ev r e'"
proof (cases r)
  case (Inl ec)
  then have "lookup_node e' = lookup_node e \<or> lookup_node e' = (lookup_node e)(fd := None)"
    using assms(2) by (simp add: ctl_effect_def)
  then show ?thesis
    using Inl assms(1) interest_list_upd(2) [of e' e fd]
    by (auto simp: ctl_done_def ctl_spec_def interest_list_def fun_eq_iff)
next
  case (Inr u)
  then obtain n where n: "interest_of_node n = interest_of_event (the ev)" "lookup_node e' = (lookup_node e)(fd \<mapsto> n)"
    using assms(2) by (auto simp: ctl_effect_def)
  then show ?thesis
    using Inr assms(1,3) interest_list_upd(1) [OF n(2)] by (auto simp: ctl_done_def ctl_spec_def)
qed

lemma ctl_done_same: "epoll_wf P e \<Longrightarrow> ctl_done P e op fd ev (Inl ec) e"
  by (simp add: ctl_done_def ctl_spec_def)

lemma remove_fd_step:
  assumes "platform_ok P" "epoll_wf P e" "nodes e a = Some n"
  obtains e' w' where "epollfd_ctx_remove_node P e kq a w = Some (e', w')" "epoll_wf P e'"
    "lookup_node e' = (lookup_node e)(node_fd n := None)"
proof -
  have inv: "epoll_inv P e" and reg: "\<forall>b m. nodes e b = Some m \<longrightarrow> is_registered m \<and> revents m = 0"
    using assms(2) by (simp_all add: epoll_wf_def)
  obtain e' w' where e': "epollfd_ctx_remove_node P e kq a w = Some (e', w')" "epoll_inv P e'"
    "nodes e' = (nodes e)(a := None)"
    by (rule remove_node_step [OF assms(1) inv assms(3), of kq w])
  show thesis
    using that [OF e'(1)] epoll_wf_remove [OF e'(2,3)] reg
      lookup_node_remove [OF epoll_inv_tree [OF inv] epoll_inv_tree [OF e'(2)] e'(3) assms(3)] by blast
qed

lemma ctl_done_remove:
  assumes "epoll_wf P e'" "lookup_node e' = (lookup_node e)(fd := None)"
  shows "ctl_done P e op fd ev (Inl ec) e'"
    and "op = EPOLL_CTL_DEL \<Longrightarrow> interest_list e fd \<noteq> None \<Longrightarrow> ctl_done P e op fd ev (Inr ()) e'"
  using assms interest_list_upd(2) [OF assms(2)] by (auto simp: ctl_done_def ctl_spec_def)

lemma ctl_step:
  assumes pl: "platform_ok P" "rdhup_ok P" and wf: "epoll_wf P e" and fresh: "malloc_fresh P e"
    and ev: "op = EPOLL_CTL_DEL \<or> ev \<noteq> None"
  obtains r e' w' where "epollfd_ctx_ctl P e kq op fd desc ev w = Some (r, e', w')" "ctl_done P e op fd ev r e'"
proof -
  have tr: "tree_ok e" using wf by (simp add: epoll_wf_def epoll_inv_def)
  note same = ctl_done_same [OF wf]
  obtain st w1 where st: "sys_fstat P fd w = (st, w1)" by fastforce
  let ?bad = "kq = fd \<or> op \<noteq> EPOLL_CTL_DEL \<and> \<not> ctl_events_valid P (ev_events (the ev))"
  have ctl: "epollfd_ctx_ctl P e kq op fd desc ev w =
      (if ?bad then Some (Inl EINVAL, e, w)
       else case st of
          Inl ec \<Rightarrow> (case rb_find fd (registered_fds e) of None \<Rightarrow> Some (Inl ec, e, w1)
             | Some a \<Rightarrow> epollfd_ctx_remove_node P e kq a w1 \<bind> (\<lambda>(e1, w2). Some (Inl ec, e1, w2)))
        | Inr m \<Rightarrow>
            if op = EPOLL_CTL_ADD then
              (if rb_find fd (registered_fds e) \<noteq> None then Some (Inl EEXIST, e, w1)
               else epollfd_ctx_add_node P e kq fd desc (the ev) m w1)
            else (case rb_find fd (registered_fds e) of
                None \<Rightarrow> Some (Inl (if op = EPOLL_CTL_DEL \<or> op = EPOLL_CTL_MOD then ENOENT else EINVAL), e, w1)
              | Some a \<Rightarrow>
                  if op = EPOLL_CTL_DEL
                  then epollfd_ctx_remove_node P e kq a w1 \<bind> (\<lambda>(e1, w2). Some (Inr (), e1, w2))
                  else if op = EPOLL_CTL_MOD then epollfd_ctx_modify_node P e kq a (the ev) w1
                  else Some (Inl EINVAL, e, w1)))"
    using ev st
    by (cases st; cases "rb_find fd (registered_fds e)") (simp_all add: epollfd_ctx_ctl_def Let_def)
  show thesis
  proof (cases "rb_find fd (registered_fds e)")
    case None
    then have L: "interest_list e fd = None" using interest_list_None [OF tr] by blast
    show thesis
    proof (cases "\<not> ?bad \<and> op = EPOLL_CTL_ADD \<and> \<not> isl st")
      case True
      then obtain m where m: "st = Inr m" by (cases st) auto
      then have "fd \<ge> 0" using platform_okD(6) [OF pl(1)] st by blast
      then obtain r e' w' where a: "epollfd_ctx_add_node P e kq fd desc (the ev) m w1 = Some (r, e', w')"
        and d: "epoll_wf P e'" "ctl_effect e fd r (interest_of_event (the ev)) e'"
        using True by (auto elim: add_node_step [OF pl wf None _ _ fresh, of "the ev" kq desc m w1])
      have "epollfd_ctx_ctl P e kq op fd desc ev w = Some (r, e', w')" unfolding ctl using True m None a by auto
      then show thesis using that ctl_done_effect [OF d] True L by blast
    next
      case False
      then have "\<exists>ec v. epollfd_ctx_ctl P e kq op fd desc ev w = Some (Inl ec, e, v)"
        using ctl None by (cases st) auto
      then show thesis using same that by blast
    qed
  next
    case (Some a)
    then obtain n where n: "nodes e a = Some n" "node_fd n = fd" using tree_okD(3) [OF tr] by blast
    have L: "interest_list e fd \<noteq> None" using interest_list_None [OF tr] Some by simp
    obtain e1 w2 where rm: "epollfd_ctx_remove_node P e kq a w1 = Some (e1, w2)" "epoll_wf P e1"
      "lookup_node e1 = (lookup_node e)(fd := None)"
      using remove_fd_step [OF pl(1) wf n(1), of kq w1] n(2) by metis
    show thesis
    proof (cases "\<not> ?bad \<and> op = EPOLL_CTL_MOD \<and> \<not> isl st")
      case True
      then obtain r e' w' where a: "epollfd_ctx_modify_node P e kq a (the ev) w1 = Some (r, e', w')"
        and d: "epoll_wf P e'" "ctl_effect e fd r (interest_of_event (the ev)) e'"
        using modify_node_step [OF pl wf n(1), of "the ev" kq w1] n(2) by auto
      have "epollfd_ctx_ctl P e kq op fd desc ev w = Some (r, e', w')"
        unfolding ctl using True Some a by (cases st) auto
      then show thesis using that ctl_done_effect [OF d] True L by blast
    next
      case False
      then have "(\<exists>ec v. epollfd_ctx_ctl P e kq op fd desc ev w = Some (Inl ec, e, v)) \<or>
          (\<exists>ec. epollfd_ctx_ctl P e kq op fd desc ev w = Some (Inl ec, e1, w2)) \<or>
          op = EPOLL_CTL_DEL \<and> epollfd_ctx_ctl P e kq op fd desc ev w = Some (Inr (), e1, w2)"
        using ctl Some rm(1) by (cases st) auto
      then show thesis using same that ctl_done_remove [OF rm(2,3)] L by blast
    qed
  qed
qed


section \<open>Removal and termination\<close>

lemma remove_fd_done:
  assumes "platform_ok P" "epoll_wf P e"
  obtains e' w' where "epollfd_ctx_remove_fd P e kq fd w = Some (e', w')" "epoll_wf P e'"
    "lookup_node e' = (lookup_node e)(fd := None)"
proof -
  have tr: "tree_ok e" using assms(2) by (simp add: epoll_wf_def epoll_inv_def)
  show thesis
  proof (cases "rb_find fd (registered_fds e)")
    case None
    then have "lookup_node e fd = None" by (simp add: lookup_node_def)
    then have "lookup_node e = (lookup_node e)(fd := None)" by (simp add: fun_eq_iff)
    then show thesis using that [of e w] None assms(2) by (simp add: epollfd_ctx_remove_fd_def)
  next
    case (Some a)
    then obtain n where n: "nodes e a = Some n" "node_fd n = fd" using tree_okD(3) [OF tr] by blast
    show thesis
      by (rule remove_fd_step [OF assms n(1), of kq w]) (use that Some n(2) in \<open>simp add: epollfd_ctx_remove_fd_def\<close>)
  qed
qed

lemma destroy_nodes_all:
  assumes "rb_ordered (registered_fds e)"
    and "\<forall>a n. nodes e a = Some n \<longrightarrow> (node_fd n, a) \<in> set (registered_fds e)"
    and "\<forall>(fd, a) \<in> set (registered_fds e). \<exists>n. nodes e a = Some n \<and> node_fd n = fd"
  shows "\<exists>e' w'. destroy_nodes P (registered_fds e) e w = Some (e', w') \<and> registered_fds e' = [] \<and>
    nodes e' = Map.empty \<and> epoll_self_pipe e' = epoll_self_pipe e"
  using assms
proof (induction "registered_fds e" arbitrary: e w)
  case Nil
  then have "nodes e a = None" for a by (cases "nodes e a") (auto simp flip: Nil.hyps)
  then show ?case using Nil.hyps by (auto simp: fun_eq_iff)
next
  case (Cons x t)
  obtain fd a where x: "x = (fd, a)" by fastforce
  have r: "registered_fds e = (fd, a) # t" using Cons.hyps(2) x by simp
  obtain n where n: "nodes e a = Some n" "node_fd n = fd" using Cons.prems(3) r by auto
  have ord: "rb_ordered t" "fd \<notin> fst ` set t" using Cons.prems(1) r by (auto simp: rb_ordered_def)
  let ?e = "e\<lparr>registered_fds := t, nodes := (nodes e)(a := None)\<rparr>"
  have other: "b \<noteq> a" if "(g, b) \<in> set t" for g b
  proof
    assume "b = a"
    then have "g = fd" using Cons.prems(3) r that n by auto
    then show False using ord(2) that by force
  qed
  have "\<exists>e' w'. destroy_nodes P (registered_fds ?e) ?e (registered_fds_node_destroy P a n w) = Some (e', w') \<and>
      registered_fds e' = [] \<and> nodes e' = Map.empty \<and> epoll_self_pipe e' = epoll_self_pipe ?e"
  proof (rule Cons.hyps(1))
    show "t = registered_fds ?e" "rb_ordered (registered_fds ?e)" using ord by simp_all
    have "(node_fd m, b) \<in> set t" if "nodes e b = Some m" "b \<noteq> a" for b m
      using Cons.prems(2) [rule_format, OF that(1)] that(2) r by simp
    then show "\<forall>b m. nodes ?e b = Some m \<longrightarrow> (node_fd m, b) \<in> set (registered_fds ?e)"
      by (auto split: if_splits)
    show "\<forall>(g, b) \<in> set (registered_fds ?e). \<exists>m. nodes ?e b = Some m \<and> node_fd m = g"
      using Cons.prems(3) r other by fastforce
  qed
  moreover have "rb_remove fd (registered_fds e) = t" using r by (simp add: fd_cmp_def)
  ultimately show ?case using r n by simp
qed

lemma epoll_wf_empty [simp]: "epoll_wf P empty_epollfd"
  by (simp add: epoll_wf_def epoll_inv_def empty_epollfd_def tree_ok_def polls_ok_def pipe_ok_def rb_ordered_def)

lemma quiet_rdhup_ok [simp]: "rdhup_ok quiet_platform"
  by (simp add: rdhup_ok_def EPOLLRDHUP_def has_bits_def)

text \<open>A context with one socket, for the concrete instances below.\<close>

definition demo_epollfd :: EpollFDCtx where
  "demo_epollfd = empty_epollfd\<lparr>registered_fds := [(7, 16)], registered_fds_size := 1,
     nodes := [16 \<mapsto> (demo_node NODE_TYPE_SOCKET 1)\<lparr>is_registered := True, has_evfilt_read := True\<rparr>]\<rparr>"

lemma epoll_wf_demo [simp]: "epoll_wf quiet_platform demo_epollfd"
  by (simp add: epoll_wf_def epoll_inv_def demo_epollfd_def empty_epollfd_def tree_ok_def polls_ok_def pipe_ok_def
      rb_ordered_def node_ok_def node_wf_def revents_ok_def demo_node_def fresh_node_def subset_bits_def
      EPOLLRDHUP_def)

lemma malloc_fresh_demo [simp]: "malloc_fresh quiet_platform demo_epollfd"
  by (simp add: malloc_fresh_def demo_epollfd_def empty_epollfd_def)

lemma malloc_fresh_empty [simp]: "malloc_fresh P empty_epollfd"
  by (simp add: malloc_fresh_def empty_epollfd_def)



text \<open>C22: the errors of \<open>epoll_ctl\<close>. Watching the epoll descriptor itself and a mask with an unknown
  bit are refused with \<open>EINVAL\<close> before anything happens; a second \<open>EPOLL_CTL_ADD\<close> gives \<open>EEXIST\<close>;
  \<open>EPOLL_CTL_MOD\<close> and \<open>EPOLL_CTL_DEL\<close> of an unknown descriptor give \<open>ENOENT\<close>; in all these cases the
  context is untouched. When \<open>fstat\<close> fails, its error is returned and the stale entry is dropped.\<close>

theorem ctl_errors:
  assumes "platform_ok P" "epoll_wf P e" "op = EPOLL_CTL_DEL \<or> ev \<noteq> None"
  shows "(kq = fd \<or> op \<noteq> EPOLL_CTL_DEL \<and> \<not> ctl_events_valid P (ev_events (the ev)) \<longrightarrow>
        epollfd_ctx_ctl P e kq op fd desc ev w = Some (Inl EINVAL, e, w)) \<and>
    (kq \<noteq> fd \<longrightarrow> (op \<noteq> EPOLL_CTL_DEL \<longrightarrow> ctl_events_valid P (ev_events (the ev))) \<longrightarrow>
       (\<forall>m w1. sys_fstat P fd w = (Inr m, w1) \<longrightarrow>
          (op = EPOLL_CTL_ADD \<and> interest_list e fd \<noteq> None \<longrightarrow>
             epollfd_ctx_ctl P e kq op fd desc ev w = Some (Inl EEXIST, e, w1)) \<and>
          ((op = EPOLL_CTL_MOD \<or> op = EPOLL_CTL_DEL) \<and> interest_list e fd = None \<longrightarrow>
             epollfd_ctx_ctl P e kq op fd desc ev w = Some (Inl ENOENT, e, w1))) \<and>
       (\<forall>ec w1. sys_fstat P fd w = (Inl ec, w1) \<longrightarrow>
          (\<exists>e' w'. epollfd_ctx_ctl P e kq op fd desc ev w = Some (Inl ec, e', w') \<and> epoll_wf P e' \<and>
             interest_list e' = (interest_list e)(fd := None))))"
proof -
  have tr: "tree_ok e" using assms(2) by (simp add: epoll_wf_def epoll_inv_def)
  note L = interest_list_None [OF tr, of fd]
  have stale: "\<exists>e' w'. epollfd_ctx_ctl P e kq op fd desc ev w = Some (Inl ec, e', w') \<and> epoll_wf P e' \<and>
      interest_list e' = (interest_list e)(fd := None)"
    if "kq \<noteq> fd" "op \<noteq> EPOLL_CTL_DEL \<longrightarrow> ctl_events_valid P (ev_events (the ev))" "sys_fstat P fd w = (Inl ec, w1)"
    for ec w1
  proof -
    obtain e' w' where e': "epollfd_ctx_remove_fd P e kq fd w1 = Some (e', w')" "epoll_wf P e'"
      "lookup_node e' = (lookup_node e)(fd := None)"
      by (rule remove_fd_done [OF assms(1,2), of kq fd w1])
    have "epollfd_ctx_ctl P e kq op fd desc ev w = Some (Inl ec, e', w')"
      using that assms(3) e'(1)
      by (cases "rb_find fd (registered_fds e)") (auto simp: epollfd_ctx_ctl_def epollfd_ctx_remove_fd_def Let_def)
    then show ?thesis using e'(2) interest_list_upd(2) [OF e'(3)] by blast
  qed
  show ?thesis
    using assms(3) L stale by (auto simp: epollfd_ctx_ctl_def Let_def)
qed

theorem ctl_errors_witness:
  "epollfd_ctx_ctl quiet_platform demo_epollfd 3 EPOLL_CTL_ADD 7 None (Some \<lparr>ev_events = 1, ev_data = 0\<rparr>) () =
     Some (Inl EEXIST, demo_epollfd, ())"
proof -
  have "ctl_events_valid (quiet_platform :: unit platform) 1" "interest_list demo_epollfd 7 \<noteq> None"
    by (simp_all add: ctl_events_valid_def subset_bits_def EPOLLRDHUP_def has_bits_def interest_list_def
        lookup_node_def demo_epollfd_def fd_cmp_def)
  then show ?thesis
    using ctl_errors [of "quiet_platform :: unit platform" demo_epollfd EPOLL_CTL_ADD
        "Some \<lparr>ev_events = 1, ev_data = 0\<rparr>" 3 7 None "()"] by simp
qed



end
