(* ===== verification/Epoll_Lift.thy ===== *)
theory Epoll_Lift
  imports File_Desc Epollfd_Ctl
begin

text \<open>
  The operations of an epoll context inside the library. They run on the world \<open>(S, w)\<close> of
  \<open>shim_platform\<close>; as long as no description is called back they leave the shared state \<open>S\<close> alone and do
  to \<open>w\<close> what they do on the bare platform. This carries the theorems on \<open>epoll_ctl\<close> and on removal over to
  the calls of the library.
\<close>

section \<open>System calls\<close>

lemma on_world_simps [simp]:
  "on_world f (S, w) = (case f w of (r, w1) \<Rightarrow> (r, S, w1))"
  "on_world_unit g (S, w) = (S, g w)"
  by (simp_all add: on_world_def on_world_unit_def)

lemma shim_platform_cfg [simp]:
  "cfg_EVFILT_USER (shim_platform P) = cfg_EVFILT_USER P"
  "cfg_EVFILT_EXCEPT (shim_platform P) = cfg_EVFILT_EXCEPT P"
  "cfg_APPLE (shim_platform P) = cfg_APPLE P" "cfg_FreeBSD (shim_platform P) = cfg_FreeBSD P"
  "cfg_NetBSD (shim_platform P) = cfg_NetBSD P" "cfg_POLLRDHUP (shim_platform P) = cfg_POLLRDHUP P"
  "cfg_stack_kevent (shim_platform P) = cfg_stack_kevent P"
  "EPOLLRDHUP (shim_platform P) = EPOLLRDHUP P"
  by (simp_all add: shim_platform_def EPOLLRDHUP_def)

lemma shim_platform_sys [simp]:
  "sys_kevent (shim_platform P) kq ch n = on_world (sys_kevent P kq ch n)"
  "sys_read (shim_platform P) fd n = on_world (sys_read P fd n)"
  "sys_write (shim_platform P) fd bs = on_world (sys_write P fd bs)"
  "sys_close (shim_platform P) fd = on_world (sys_close P fd)"
  "sys_pipe2 (shim_platform P) fl = on_world (sys_pipe2 P fl)"
  "sys_fcntl_getfl (shim_platform P) fd = on_world (sys_fcntl_getfl P fd)"
  "sys_ioctl_fionread (shim_platform P) fd = on_world (sys_ioctl_fionread P fd)"
  "sys_cap_rights (shim_platform P) fd = on_world (sys_cap_rights P fd)"
  "sys_fstat (shim_platform P) fd = on_world (sys_fstat P fd)"
  "sys_malloc (shim_platform P) = on_world (sys_malloc P)"
  "sys_free (shim_platform P) a = on_world_unit (sys_free P a)"
  "sys_cond_wait (shim_platform P) k = on_world (sys_cond_wait P k)"
  by (simp_all add: shim_platform_def)

section \<open>Loops\<close>

lemma drain_pipe_shim_Some:
  assumes "drain_pipe P fd w = Some w'"
  shows "drain_pipe (shim_platform P) fd (S, w) = Some (S, w')"
proof (induction rule: drain_pipe.raw_induct [of "\<lambda>plat fd w w'. drain_pipe (shim_platform plat) fd (S, w) = Some (S, w')"])
  case (1 f plat fd w w')
  then show ?case
    by (subst drain_pipe.simps) (auto split: prod.splits sum.splits)
qed (rule assms)

lemma wait_polling_threads_shim_Some:
  assumes "wait_polling_threads P nr w = Some w'"
  shows "wait_polling_threads (shim_platform P) nr (S, w) = Some (S, w')"
proof (induction rule: wait_polling_threads.raw_induct
    [of "\<lambda>plat nr w w'. wait_polling_threads (shim_platform plat) nr (S, w) = Some (S, w')"])
  case (1 f plat nr w w')
  then show ?case
    by (subst wait_polling_threads.simps) (auto split: prod.splits if_splits)
qed (rule assms)

lemma loops_shim:
  assumes "platform_ok P"
  shows "drain_pipe (shim_platform P) fd (S, w) = map_option (Pair S) (drain_pipe P fd w)"
    "wait_polling_threads (shim_platform P) nr (S, w) = map_option (Pair S) (wait_polling_threads P nr w)"
proof -
  obtain w1 w2 where "drain_pipe P fd w = Some w1" "wait_polling_threads P nr w = Some w2"
    using platform_okD(3,4) [OF assms] unfolding pipes_drain_def pollers_leave_def by metis
  then show "drain_pipe (shim_platform P) fd (S, w) = map_option (Pair S) (drain_pipe P fd w)"
    "wait_polling_threads (shim_platform P) nr (S, w) = map_option (Pair S) (wait_polling_threads P nr w)"
    using drain_pipe_shim_Some wait_polling_threads_shim_Some by force+
qed

section \<open>Triggers\<close>

abbreviation with_shim2 :: "EpollShimCtx \<Rightarrow> 'a \<times> 'w \<Rightarrow> 'a \<times> EpollShimCtx \<times> 'w" where
  "with_shim2 S \<equiv> \<lambda>(x, w). (x, S, w)"

abbreviation with_shim3 :: "EpollShimCtx \<Rightarrow> 'a \<times> 'b \<times> 'w \<Rightarrow> 'a \<times> 'b \<times> EpollShimCtx \<times> 'w" where
  "with_shim3 S \<equiv> \<lambda>(x, y, w). (x, y, S, w)"

lemma submit_kev_shim: "submit_kev (shim_platform P) kq k (S, w) = with_shim2 S (submit_kev P kq k w)"
  by (simp add: submit_kev_def split: prod.splits sum.splits)

lemma node_trigger_self_shim:
  "registered_fds_node_trigger_self (shim_platform P) a n kq (S, w) =
     map_option (Pair S) (registered_fds_node_trigger_self P a n kq w)"
  by (simp add: registered_fds_node_trigger_self_def c_assert_def split: prod.splits)

lemma epoll_trigger_self_shim:
  "epollfd_ctx__trigger_self (shim_platform P) e kq (S, w) = map_option (Pair S) (epollfd_ctx__trigger_self P e kq w)"
  by (simp add: epollfd_ctx__trigger_self_def c_assert_def split: prod.splits)

lemma node_add_self_trigger_shim:
  "registered_fds_node_add_self_trigger (shim_platform P) a n kq (S, w) =
     map_option (with_shim3 S) (registered_fds_node_add_self_trigger P a n kq w)"
  by (simp add: registered_fds_node_add_self_trigger_def submit_kev_shim Let_def c_assert_def split: prod.splits sum.splits)

lemma epoll_add_self_trigger_shim:
  "epollfd_ctx__add_self_trigger (shim_platform P) e kq (S, w) =
     map_option (with_shim3 S) (epollfd_ctx__add_self_trigger P e kq w)"
  by (simp add: epollfd_ctx__add_self_trigger_def submit_kev_shim Let_def c_assert_def split: prod.splits sum.splits)

lemma trigger_repoll_shim:
  assumes "platform_ok P"
  shows "epollfd_ctx__trigger_repoll (shim_platform P) e kq (S, w) =
     map_option (with_shim2 S) (epollfd_ctx__trigger_repoll P e kq w)"
  by (cases "epollfd_ctx__trigger_self P e kq w")
    (auto simp: epollfd_ctx__trigger_repoll_def epoll_trigger_self_shim loops_shim [OF assms] split: option.splits Option.bind_splits)

section \<open>Removal\<close>

lemma remove_from_pollfd_list_shim:
  assumes "platform_ok P"
  shows "remove_from_pollfd_list (shim_platform P) e kq a (S, w) =
     map_option (with_shim2 S) (remove_from_pollfd_list P e kq a w)"
  by (cases "nodes e a")
    (simp_all add: remove_from_pollfd_list_def trigger_repoll_shim [OF assms] c_assert_def)

lemma remove_kevs_shim: "remove_kevs (shim_platform P) a fd = remove_kevs P a fd"
  by (simp add: remove_kevs_def)

lemma snd_on_world: "snd (case x of (r, w1) \<Rightarrow> (r, S, w1)) = (S, snd x)"
  by (simp add: case_prod_beta)

lemma remove_node_from_kq_shim:
  assumes "platform_ok P"
  shows "epollfd_ctx__remove_node_from_kq (shim_platform P) e kq a (S, w) =
     map_option (with_shim2 S) (epollfd_ctx__remove_node_from_kq P e kq a w)"
proof (cases "remove_from_pollfd_list P e kq a w")
  case (Some ew)
  then obtain e1 w1 where ew: "remove_from_pollfd_list P e kq a w = Some (e1, w1)" by (cases ew) auto
  show ?thesis
  proof (cases "nodes e1 a")
    case (Some n)
    have d: "\<exists>w2. drain_pipe P fd v = Some w2" for fd v
      using platform_okD(3) [OF assms] by (auto simp: pipes_drain_def)
    show ?thesis
      using d [of "fst (node_self_pipe n)"
          "snd (sys_kevent P kq [EV_SET (fst (node_self_pipe n)) EVFILT_READ EV_DELETE 0 0 None] 0 w1)"]
      by (auto simp: epollfd_ctx__remove_node_from_kq_def remove_from_pollfd_list_shim [OF assms] ew Some
          loops_shim [OF assms] remove_kevs_shim snd_on_world)
  qed (simp add: epollfd_ctx__remove_node_from_kq_def remove_from_pollfd_list_shim [OF assms] ew)
qed (simp add: epollfd_ctx__remove_node_from_kq_def remove_from_pollfd_list_shim [OF assms])

lemma node_destroy_shim:
  assumes "pollable_desc n = None"
  shows "registered_fds_node_destroy (shim_platform P) a n (S, w) = (S, registered_fds_node_destroy P a n w)"
  using assms by (simp add: registered_fds_node_destroy_def pollable_desc_unref_def Let_def snd_on_world)

lemma remove_node_shim:
  assumes "platform_ok P" "epoll_inv P e" "nodes e a = Some n" "pollable_desc n = None"
  shows "epollfd_ctx_remove_node (shim_platform P) e kq a (S, w) =
     map_option (with_shim2 S) (epollfd_ctx_remove_node P e kq a w)"
proof -
  obtain e1 w1 where r: "epollfd_ctx__remove_node_from_kq P e kq a w = Some (e1, w1)" "nodes e1 a = Some (detached n)"
    using remove_node_from_kq_step [OF assms(1-3)] by blast
  have "pollable_desc (detached n) = None" using assms(4) by (simp add: detached_def)
  then show ?thesis
    using r by (simp add: epollfd_ctx_remove_node_def remove_node_from_kq_shim [OF assms(1)] node_destroy_shim c_assert_def)
qed

lemma remove_fd_shim:
  assumes "platform_ok P" "epoll_inv P e" "\<forall>n. lookup_node e fd = Some n \<longrightarrow> pollable_desc n = None"
  shows "epollfd_ctx_remove_fd (shim_platform P) e kq fd (S, w) =
     map_option (with_shim2 S) (epollfd_ctx_remove_fd P e kq fd w)"
proof (cases "rb_find fd (registered_fds e)")
  case (Some a)
  then obtain n where n: "nodes e a = Some n" using tree_okD(3) [OF epoll_inv_tree [OF assms(2)]] by blast
  then have "pollable_desc n = None" using assms(3) Some by (simp add: lookup_node_def)
  then show ?thesis using Some remove_node_shim [OF assms(1,2) n] by (simp add: epollfd_ctx_remove_fd_def)
qed (simp add: epollfd_ctx_remove_fd_def)

section \<open>Registration\<close>

lemma filters_shim:
  "get_needed_filters (shim_platform P) n = get_needed_filters P n"
  "restrict_events (shim_platform P) n = restrict_events P n"
  "register_kevs (shim_platform P) a fd f = register_kevs P a fd f"
  "write_eof_receipt (shim_platform P) f i d n = write_eof_receipt P f i d n"
  "registered_fds_node_update_flags_from_epoll_event (shim_platform P) n ev =
     registered_fds_node_update_flags_from_epoll_event P n ev"
  "ctl_events_valid (shim_platform P) evs = ctl_events_valid P evs"
  unfolding get_needed_filters_def needed_by_type_def needed_socket_def restrict_events_def register_kevs_def
    write_eof_receipt_def registered_fds_node_update_flags_from_epoll_event_def ctl_events_valid_def shim_platform_cfg
  by (rule refl)+

text \<open>The second half of \<open>register_filters\<close>.\<close>

definition submit_filters ::
  "'w platform \<Rightarrow> EpollFDCtx \<Rightarrow> int \<Rightarrow> addr \<Rightarrow> 'w \<Rightarrow>
   ((errno + int list \<times> NeededFilters) \<times> EpollFDCtx \<times> 'w) option" where
  "submit_filters P e1 kq a w1 = do {
     n \<leftarrow> nodes e1 a;
     c_assert (\<not> has_evfilt_read n);
     c_assert (\<not> has_evfilt_write n);
     c_assert (\<not> has_evfilt_except n);
     f \<leftarrow> get_needed_filters P n;
     c_assert (evfilt_read f \<noteq> 0 \<or> evfilt_write f \<noteq> 0);
     c_assert (evfilt_except f \<noteq> 0 \<longrightarrow> cfg_EVFILT_EXCEPT P);
     let e2 = set_node a (with_filters f n) e1;
     let kev = register_kevs P a (node_fd n) f;
     (case sys_kevent P kq kev (length kev) w1 of
        (Inl ec, w2) \<Rightarrow> Some (Inl ec, e2, w2)
      | (Inr out, w2) \<Rightarrow> do {
          c_assert (length out = length kev);
          c_assert (\<forall>k \<in> set out. has_bits (kev_flags k) EV_ERROR);
          Some (Inr (map kev_data out @ replicate (4 - length out) 0, f), e2, w2)
        })
   }"

lemma register_filters_alt:
  "register_filters P e kq a w = do {
     n0 \<leftarrow> nodes e a;
     (e1, w1) \<leftarrow> (if is_registered n0 then epollfd_ctx__remove_node_from_kq P e kq a w else Some (e, w));
     submit_filters P e1 kq a w1
   }"
  unfolding register_filters_def submit_filters_def ..

lemma submit_filters_shim:
  "submit_filters (shim_platform P) e kq a (S, w) = map_option (with_shim3 S) (submit_filters P e kq a w)"
proof (cases "nodes e a")
  case (Some n)
  show ?thesis
  proof (cases "get_needed_filters P n")
    case f: (Some f)
    let ?k = "register_kevs P a (node_fd n) f"
    obtain r w1 where "sys_kevent P kq ?k (length ?k) w = (r, w1)" by fastforce
    then show ?thesis
      using Some f by (cases r) (simp_all add: submit_filters_def filters_shim c_assert_def)
  qed (use Some in \<open>simp add: submit_filters_def filters_shim c_assert_def\<close>)
qed (simp add: submit_filters_def)

lemma register_filters_shim:
  assumes "platform_ok P"
  shows "register_filters (shim_platform P) e kq a (S, w) = map_option (with_shim3 S) (register_filters P e kq a w)"
proof (cases "nodes e a")
  case (Some n)
  then show ?thesis
    by (cases "epollfd_ctx__remove_node_from_kq P e kq a w")
      (auto simp: register_filters_alt remove_node_from_kq_shim [OF assms] submit_filters_shim)
qed (simp add: register_filters_alt)

lemma enlist_poll_node_shim:
  "enlist_poll_node (shim_platform P) e kq a n (S, w) = map_option (with_shim3 S) (enlist_poll_node P e kq a n w)"
  by (cases "epollfd_ctx__add_self_trigger P e kq w")
    (auto simp: enlist_poll_node_def epoll_add_self_trigger_shim split: sum.splits)

lemma register_poll_only_shim:
  assumes "platform_ok P"
  shows "register_poll_only (shim_platform P) e kq a (S, w) = map_option (with_shim3 S) (register_poll_only P e kq a w)"
proof (cases "nodes e a")
  case (Some n)
  show ?thesis
  proof (cases "registered_fds_node_add_self_trigger P a (poll_only n) kq w")
    case None
    then show ?thesis using Some by (simp add: register_poll_only_def node_add_self_trigger_shim c_assert_def)
  next
    case t: (Some x)
    obtain r n2 w1 where x: "x = (r, n2, w1)" by (cases x) auto
    show ?thesis
      using Some t x
      by (cases r; cases "enlist_poll_node P (set_node a n2 e) kq a n2 w1")
        (auto simp: register_poll_only_def node_add_self_trigger_shim enlist_poll_node_shim trigger_repoll_shim [OF assms]
          c_assert_def option.map_comp comp_def case_prod_beta split: sum.splits Option.bind_splits)
  qed
qed (simp add: register_poll_only_def)

lemma register_receipts_shim:
  "register_receipts (shim_platform P) kq a f i ds n (S, w) = map_option (with_shim3 S) (register_receipts P kq a f i ds n w)"
proof (induction ds arbitrary: i n w)
  case (Cons d ds)
  let ?n = "n\<lparr>eof_state := EOF_STATE_BOTH, has_evfilt_write := False\<rparr>"
  show ?case
  proof (cases "registered_fds_node_add_self_trigger P a ?n kq w")
    case None
    then show ?thesis using Cons.IH by (simp add: filters_shim node_add_self_trigger_shim Let_def)
  next
    case (Some x)
    obtain r n2 w1 where x: "x = (r, n2, w1)" by (cases x) auto
    show ?thesis
      using Cons.IH Some x
      by (cases r; cases "registered_fds_node_trigger_self P a n2 kq w1")
        (simp_all add: filters_shim node_add_self_trigger_shim node_trigger_self_shim Let_def)
  qed
qed simp

lemma register_events_shim:
  assumes "platform_ok P"
  shows "epollfd_ctx__register_events (shim_platform P) e kq a (S, w) =
    map_option (with_shim3 S) (epollfd_ctx__register_events P e kq a w)"
proof (cases "nodes e a")
  case (Some n)
  let ?e = "set_node a (restrict_events P n) e"
  show ?thesis
  proof (cases "register_filters P ?e kq a w")
    case None
    then show ?thesis
      using Some by (simp add: epollfd_ctx__register_events_def filters_shim register_filters_shim [OF assms]
          register_poll_only_shim [OF assms] c_assert_def Let_def)
  next
    case f: (Some x)
    obtain r e1 w1 where x: "x = (r, e1, w1)" by (cases x) auto
    note shims = filters_shim register_filters_shim [OF assms] register_poll_only_shim [OF assms] register_receipts_shim
    show ?thesis
    proof (cases r)
      case (Inl ec)
      then show ?thesis
        using Some f x by (simp add: epollfd_ctx__register_events_def shims c_assert_def Let_def)
    next
      case (Inr v)
      obtain ds fl where v: "v = (ds, fl)" by fastforce
      show ?thesis
      proof (cases "nodes e1 a")
        case None
        then show ?thesis
          using Some f x Inr v by (simp add: epollfd_ctx__register_events_def shims c_assert_def Let_def)
      next
        case m: (Some m)
        then show ?thesis
          using Some f x Inr v
          by (cases "register_receipts P kq a fl 0 ds m w1")
            (auto simp: epollfd_ctx__register_events_def shims c_assert_def Let_def)
      qed
    qed
  qed
qed (simp add: epollfd_ctx__register_events_def)

section \<open>Adding, changing and removing\<close>

lemma create_shim:
  "registered_fds_node_create (shim_platform P) fd (S, w) = with_shim2 S (registered_fds_node_create P fd w)"
  by (simp add: registered_fds_node_create_def split: prod.splits sum.splits)

lemma classify_kqueue_shim:
  "classify_kqueue (shim_platform P) fd None n (S, w) = with_shim2 S (classify_kqueue P fd None n w)"
  by (simp add: classify_kqueue_def pollable_desc_ref_def pollable_desc_poll_def split: prod.splits sum.splits)

lemma classify_fifo_shim:
  "classify_fifo (shim_platform P) fd n (S, w) = map_option (with_shim3 S) (classify_fifo P fd n w)"
  by (simp add: classify_fifo_def modify_fifo_rights_from_capabilities_def Let_def c_assert_def
      split: prod.splits sum.splits option.splits)

lemma classify_node_shim:
  "classify_node (shim_platform P) fd None st n (S, w) = map_option (with_shim3 S) (classify_node P fd None st n w)"
  by (simp add: classify_node_def classify_kqueue_shim classify_fifo_shim Let_def
      split: prod.splits sum.splits file_type.splits)

text \<open>A node that is classified without a description has none.\<close>

lemma classify_node_desc:
  assumes "classify_node P fd None st (fresh_node fd) w = Some (c, n, w')"
  shows "pollable_desc n = None"
  using assms
  by (auto simp: classify_node_def classify_kqueue_def classify_fifo_def modify_fifo_rights_from_capabilities_def
      fresh_node_def Let_def c_assert_def split: prod.splits sum.splits file_type.splits option.splits if_splits)

lemma update_flags_desc:
  "registered_fds_node_update_flags_from_epoll_event P n ev = Some n' \<Longrightarrow> pollable_desc n' = pollable_desc n"
  by (auto simp: registered_fds_node_update_flags_from_epoll_event_def Let_def c_assert_def split: if_splits)

lemma kept_desc: "kept (restrict_events P n) n' \<Longrightarrow> pollable_desc n' = pollable_desc n"
  by (simp add: kept_def restrict_events_def split: if_splits)

lemma add_register_events:
  assumes pl: "platform_ok P" and wf: "epoll_wf P e" and none: "rb_find fd (registered_fds e) = None"
    and fresh: "nodes e a = None" and c: "classified fd n" "fd \<ge> 0" "ctl_events_valid P (ev_events ev)"
    and u: "registered_fds_node_update_flags_from_epoll_event P n ev = Some n1"
    and ins: "rb_insert fd a (registered_fds e) = (x, t)"
  obtains r e2 w2 n2 where
    "epollfd_ctx__register_events P
       (set_node a n1 (e\<lparr>registered_fds := t, registered_fds_size := Suc (registered_fds_size e)\<rparr>)) kq a w = Some (r, e2, w2)"
    "epoll_inv P e2" "nodes e2 a = Some n2" "pollable_desc n2 = pollable_desc n"
proof -
  let ?e = "set_node a n1 (e\<lparr>registered_fds := t, registered_fds_size := Suc (registered_fds_size e)\<rparr>)"
  let ?n = "restrict_events P n1"
  have inv: "epoll_inv P e" using wf by (simp add: epoll_wf_def)
  have "a \<notin> set (poll_fds e)" using inv fresh by (auto simp: epoll_inv_def polls_ok_def)
  note ok = classified_ok [OF c(1,2) this u c(3)]
  have "node_fd ?n = fd" using ok(2) by (simp add: restrict_events_def)
  then have "epoll_inv P (set_node a ?n ?e)"
    using epoll_inv_insert [OF inv fresh none _ ok(1)] ins by simp
  moreover have "nodes ?e a = Some n1" by simp
  ultimately obtain r e2 w2 n2 where "epollfd_ctx__register_events P ?e kq a w = Some (r, e2, w2)"
    "epoll_inv P e2" "nodes e2 a = Some n2" "kept ?n n2"
    by (rule register_events_step [OF pl, of a n1 ?e kq w]) (use ok(5) in auto)
  then show thesis using that kept_desc update_flags_desc [OF u] by metis
qed

lemma add_node_shim:
  assumes "platform_ok P" "epoll_wf P e" "rb_find fd (registered_fds e) = None"
    and "fd \<ge> 0" "ctl_events_valid P (ev_events ev)" "malloc_fresh P e"
  shows "epollfd_ctx_add_node (shim_platform P) e kq fd None ev st (S, w) =
    map_option (with_shim3 S) (epollfd_ctx_add_node P e kq fd None ev st w)"
proof (cases "registered_fds_node_create P fd w")
  case (Pair m w1)
  show ?thesis
  proof (cases m)
    case None
    then show ?thesis using Pair by (simp add: epollfd_ctx_add_node_def create_shim)
  next
    case (Some am)
    then obtain a where am: "am = (a, fresh_node fd)" and fresh: "nodes e a = None"
      using Pair assms(6)
      by (auto simp: registered_fds_node_create_def malloc_fresh_def split: prod.splits sum.splits)
    obtain c n1 w2 where c: "classify_node P fd None st (fresh_node fd) w1 = Some (c, n1, w2)"
      and cl: "\<And>n. c = Inr n \<Longrightarrow> classified fd n1"
      by (rule classify_node_step [of P fd None st w1]) blast
    have d: "pollable_desc n1 = None" using classify_node_desc [OF c] .
    show ?thesis
    proof (cases c)
      case (Inl ec)
      then show ?thesis
        using Pair Some am c d
        by (simp add: epollfd_ctx_add_node_def create_shim classify_node_shim node_destroy_shim)
    next
      case (Inr n)
      have "node_wf P (n1\<lparr>events := 0, is_oneshot := False\<rparr>)"
        using cl [OF Inr] by (simp add: classified_def node_wf_def)
      then obtain n2 where u: "registered_fds_node_update_flags_from_epoll_event P n1 ev = Some n2"
        using update_flags_step [OF _ assms(5)] by metis
      obtain x t where ins: "rb_insert fd a (registered_fds e) = (x, t)" by fastforce
      obtain r e2 w3 n3 where r: "epollfd_ctx__register_events P
          (set_node a n2 (e\<lparr>registered_fds := t, registered_fds_size := Suc (registered_fds_size e)\<rparr>)) kq a w2 = Some (r, e2, w3)"
        "epoll_inv P e2" "nodes e2 a = Some n3" "pollable_desc n3 = pollable_desc n1"
        by (rule add_register_events [OF assms(1-3) fresh cl [OF Inr] assms(4,5) u ins])
      have rm: "epollfd_ctx_remove_node (shim_platform P) e2 kq a (S, w3) =
          map_option (with_shim2 S) (epollfd_ctx_remove_node P e2 kq a w3)"
        using remove_node_shim [OF assms(1) r(2,3)] r(4) d by simp
      show ?thesis
        using Pair Some am c u Inr ins r(1,3) rm
        by (cases r; cases "epollfd_ctx_remove_node P e2 kq a w3")
          (auto simp: epollfd_ctx_add_node_def create_shim classify_node_shim filters_shim
            register_events_shim [OF assms(1)] c_assert_def)
    qed
  qed
qed

lemma modify_node_shim:
  assumes "platform_ok P" "epoll_wf P e" "nodes e a = Some n" "ctl_events_valid P (ev_events ev)" "pollable_desc n = None"
  shows "epollfd_ctx_modify_node (shim_platform P) e kq a ev (S, w) =
    map_option (with_shim3 S) (epollfd_ctx_modify_node P e kq a ev w)"
proof -
  have inv: "epoll_inv P e" and reg: "is_registered n" "revents n = 0"
    using assms(2,3) by (auto simp: epoll_wf_def)
  note ok = epoll_inv_node [OF inv assms(3)]
  have "node_wf P (n\<lparr>events := 0, is_oneshot := False\<rparr>)" using node_ok_wf [OF ok] by (simp add: node_wf_def)
  then obtain n1 where u: "registered_fds_node_update_flags_from_epoll_event P n ev = Some n1"
    and wf: "node_wf P (restrict_events P n1)"
    and ex: "\<exists>es tr et os. n1 = n\<lparr>events := es, needs_rdhup_translation := tr, node_data := ev_data ev,
        is_edge_triggered := et, is_oneshot := os\<rparr>"
    by (rule update_flags_step [OF _ assms(4)])
  let ?n = "restrict_events P n1"
  have n1: "node_fd ?n = node_fd n" "is_registered n1" "revents ?n = 0"
    using ex reg by (auto simp: restrict_events_def)
  have "node_ok P (poll_fds e) a ?n"
    using ok wf ex n1(3) by (auto simp: node_ok_def revents_ok_def restrict_events_def)
  then have "epoll_inv P (set_node a ?n (set_node a n1 e))"
    using epoll_inv_set_node [OF inv assms(3) n1(1)] by simp
  then obtain r e2 w2 n2 where r: "epollfd_ctx__register_events P (set_node a n1 e) kq a w = Some (r, e2, w2)"
    "epoll_inv P e2" "nodes e2 a = Some n2" "kept ?n n2"
    by (rule register_events_step [OF assms(1), of a n1 "set_node a n1 e" kq w]) (use n1 in auto)
  have "pollable_desc n2 = None" using kept_desc [OF r(4)] update_flags_desc [OF u] assms(5) by simp
  then have rm: "epollfd_ctx_remove_node (shim_platform P) e2 kq a (S, w2) =
      map_option (with_shim2 S) (epollfd_ctx_remove_node P e2 kq a w2)"
    using remove_node_shim [OF assms(1) r(2,3)] by simp
  show ?thesis
    using assms(3) u n1(2) r(1) rm
    by (cases r; cases "epollfd_ctx_remove_node P e2 kq a w2")
      (auto simp: epollfd_ctx_modify_node_def filters_shim register_events_shim [OF assms(1)])
qed

lemma ctl_shim:
  assumes "platform_ok P" "epoll_wf P e" "malloc_fresh P e" "op = EPOLL_CTL_DEL \<or> ev \<noteq> None"
    and "\<forall>n. lookup_node e fd = Some n \<longrightarrow> pollable_desc n = None"
  shows "epollfd_ctx_ctl (shim_platform P) e kq op fd None ev (S, w) =
    map_option (with_shim3 S) (epollfd_ctx_ctl P e kq op fd None ev w)"
proof -
  have inv: "epoll_inv P e" using assms(2) by (simp add: epoll_wf_def)
  obtain st w1 where st: "sys_fstat P fd w = (st, w1)" by fastforce
  have fd: "fd \<ge> 0" if "st = Inr m" for m using platform_okD(6) [OF assms(1) st [unfolded that]] .
  consider "kq = fd \<or> op \<noteq> EPOLL_CTL_DEL \<and> \<not> ctl_events_valid P (ev_events (the ev))"
    | "kq \<noteq> fd" "op \<noteq> EPOLL_CTL_DEL \<longrightarrow> ctl_events_valid P (ev_events (the ev))" by blast
  then show ?thesis
  proof cases
    case 1
    then show ?thesis using assms(4) by (auto simp: epollfd_ctx_ctl_def filters_shim)
  next
    case 2
    show ?thesis
    proof (cases "rb_find fd (registered_fds e)")
      case None
      then show ?thesis
        using 2 assms(4) st fd add_node_shim [OF assms(1,2) None _ _ assms(3)]
        by (cases st) (auto simp: epollfd_ctx_ctl_def filters_shim Let_def)
    next
      case (Some a)
      then obtain n where n: "nodes e a = Some n" using tree_okD(3) [OF epoll_inv_tree [OF inv]] by blast
      have d: "pollable_desc n = None" using assms(5) Some n by (simp add: lookup_node_def)
      show ?thesis
        using 2 assms(4) st Some remove_node_shim [OF assms(1) inv n d, of kq S w1]
          modify_node_shim [OF assms(1,2) n _ d, of "the ev" kq S w1]
        by (cases st; cases "epollfd_ctx_remove_node P e kq a w1") (auto simp: epollfd_ctx_ctl_def filters_shim Let_def)
    qed
  qed
qed

end
