(* ===== verification/Shim_Close.thy ===== *)
theory Shim_Close
  imports Shim_Api Epoll_Lift
begin

text \<open>
  Closing a descriptor: \<open>epoll_shim_close\<close> locks every epoll instance of the table, removes the descriptor
  from each, gives up the description if the library has one, and unlocks them again.
\<close>

section \<open>The loop over the table\<close>

definition table_distinct :: "EpollShimCtx \<Rightarrow> bool" where
  "table_distinct S \<longleftrightarrow> distinct (filter (\<lambda>x. x \<noteq> None) (open_files S)) \<and> length (open_files S) \<le> nat INT32_MAX + 1"

text \<open>Only descriptions of the table change, each as \<open>R\<close> says.\<close>

definition table_step ::
  "addr option list \<Rightarrow> (FileDescription \<Rightarrow> FileDescription \<Rightarrow> bool) \<Rightarrow> EpollShimCtx \<Rightarrow> EpollShimCtx \<Rightarrow> bool" where
  "table_step ds R S S' \<longleftrightarrow>
     S' = S\<lparr>descs := descs S'\<rparr> \<and>
     (\<forall>a. if Some a \<in> set ds then \<exists>d d'. descs S a = Some d \<and> descs S' a = Some d' \<and> R d d'
          else descs S' a = descs S a)"

lemma table_step_first:
  assumes "descs S a = Some d" "R d d'" "table_step ds R (set_desc a d' S) S'" "Some a \<notin> set ds"
  shows "table_step (Some a # ds) R S S'"
  unfolding table_step_def
proof (intro conjI allI)
  have "S' = (set_desc a d' S)\<lparr>descs := descs S'\<rparr>" using assms(3) unfolding table_step_def by blast
  then show "S' = S\<lparr>descs := descs S'\<rparr>" by (simp add: set_desc_def)
  fix b
  have b: "if Some b \<in> set ds then \<exists>x x'. descs (set_desc a d' S) b = Some x \<and> descs S' b = Some x' \<and> R x x'
      else descs S' b = descs (set_desc a d' S) b"
    using assms(3) unfolding table_step_def by blast
  show "if Some b \<in> set (Some a # ds) then \<exists>d d'. descs S b = Some d \<and> descs S' b = Some d' \<and> R d d'
      else descs S' b = descs S b"
    using b assms(1,2,4) by (cases "b = a") auto
qed

lemma for_each_from_step:
  assumes "\<And>a i S w d. descs S a = Some d \<Longrightarrow> Q d \<Longrightarrow> \<not> crashed S \<Longrightarrow>
      \<exists>d' w'. f a i (S, w) = Some (set_desc a d' S, w') \<and> R d d'"
    and "distinct (filter (\<lambda>x. x \<noteq> None) ds)" "\<not> crashed S"
    and "\<forall>a. Some a \<in> set ds \<longrightarrow> (\<exists>d. descs S a = Some d \<and> Q d)"
  shows "\<exists>S' w'. for_each_from f i ds (S, w) = Some (S', w') \<and> table_step ds R S S'"
  using assms(2-4)
proof (induction ds arbitrary: i S w)
  case Nil
  then show ?case by (simp add: table_step_def)
next
  case (Cons x ds)
  show ?case
  proof (cases x)
    case None
    then show ?thesis using Cons by (simp add: table_step_def)
  next
    case (Some a)
    obtain d where d: "descs S a = Some d" "Q d" using Cons.prems(3) Some by auto
    obtain d' w1 where f: "f a i (S, w) = Some (set_desc a d' S, w1)" "R d d'"
      using assms(1) [OF d Cons.prems(2)] by blast
    have a: "Some a \<notin> set ds" using Cons.prems(1) Some by auto
    have "\<forall>b. Some b \<in> set ds \<longrightarrow> (\<exists>d. descs (set_desc a d' S) b = Some d \<and> Q d)"
      using Cons.prems(3) a by auto
    then obtain S' w' where "for_each_from f (i + 1) ds (set_desc a d' S, w1) = Some (S', w')"
      "table_step ds R (set_desc a d' S) S'"
      using Cons.IH [of "set_desc a d' S" "i + 1" w1] Cons.prems(1,2) Some by auto
    then show ?thesis using f Some table_step_first [of S a d R d' ds S'] d(1) a by auto
  qed
qed

lemma for_each_step:
  assumes "\<And>a i S w d. descs S a = Some d \<Longrightarrow> Q d \<Longrightarrow> \<not> crashed S \<Longrightarrow>
      \<exists>d' w'. f a i (S, w) = Some (set_desc a d' S, w') \<and> R d d'"
    and "table_distinct S" "\<not> crashed S"
    and "\<forall>a. Some a \<in> set (open_files S) \<longrightarrow> (\<exists>d. descs S a = Some d \<and> Q d)"
  shows "\<exists>S' w'. epoll_shim_ctx_for_each_unlocked f (S, w) = Some (S', w') \<and> table_step (open_files S) R S S'"
  using for_each_from_step [of Q f R, OF assms(1), of "open_files S" S 0 w] assms(2-4)
  by (auto simp: table_distinct_def epoll_shim_ctx_for_each_unlocked_def)

section \<open>The three passes\<close>

definition lock_pass :: "bool \<Rightarrow> FileDescription \<Rightarrow> FileDescription \<Rightarrow> bool" where
  "lock_pass b d d' \<longleftrightarrow> d' = (if is_epollfd d then d\<lparr>desc_locked := b\<rparr> else d)"

lemma epollfd_lock_step:
  assumes "descs S a = Some d" "is_epollfd d \<longrightarrow> \<not> desc_locked d"
  shows "\<exists>d' w'. epollfd_lock a i (S, w) = Some (set_desc a d' S, w') \<and> lock_pass True d d'"
  using assms by (auto simp: epollfd_lock_def lock_pass_def lock_desc_free)

lemma epollfd_unlock_step:
  assumes "descs S a = Some d" "is_epollfd d \<longrightarrow> desc_locked d"
  shows "\<exists>d' w'. epollfd_unlock a i (S, w) = Some (set_desc a d' S, w') \<and> lock_pass False d d'"
  using assms by (auto simp: epollfd_unlock_def lock_pass_def unlock_desc_def)

definition epoll_desc_ok :: "'w platform \<Rightarrow> int \<Rightarrow> FileDescription \<Rightarrow> bool" where
  "epoll_desc_ok P fd d \<longleftrightarrow>
     (is_epollfd d \<longrightarrow>
        (\<exists>e. desc_ctx d = Ctx_epollfd e \<and> epoll_wf P e \<and> (\<forall>n. lookup_node e fd = Some n \<longrightarrow> pollable_desc n = None)))"

definition forget_pass :: "'w platform \<Rightarrow> int \<Rightarrow> FileDescription \<Rightarrow> FileDescription \<Rightarrow> bool" where
  "forget_pass P fd d d' \<longleftrightarrow>
     (if is_epollfd d
      then \<exists>e e'. desc_ctx d = Ctx_epollfd e \<and> d' = d\<lparr>desc_ctx := Ctx_epollfd e'\<rparr> \<and> epoll_wf P e' \<and>
             lookup_node e' = (lookup_node e)(fd := None)
      else d' = d)"

lemma epollfd_remove_fd_step:
  assumes "platform_ok P" "descs S a = Some d" "epoll_desc_ok P fd d" "\<not> crashed S"
  shows "\<exists>d' w'. epollfd_remove_fd P fd a i (S, w) = Some (set_desc a d' S, w') \<and> forget_pass P fd d d'"
proof (cases "is_epollfd d")
  case True
  then obtain e where e: "desc_ctx d = Ctx_epollfd e" "epoll_wf P e" "\<forall>n. lookup_node e fd = Some n \<longrightarrow> pollable_desc n = None"
    using assms(3) by (auto simp: epoll_desc_ok_def)
  obtain e' w' where r: "epollfd_ctx_remove_fd P e i fd w = Some (e', w')" "epoll_wf P e'"
    "lookup_node e' = (lookup_node e)(fd := None)"
    by (rule remove_fd_done [OF assms(1) e(2)])
  have "epoll_inv P e" using e(2) by (simp add: epoll_wf_def)
  then have "epollfd_remove_fd P fd a i (S, w) = Some (set_desc a (d\<lparr>desc_ctx := Ctx_epollfd e'\<rparr>) S, w')"
    using True e(1,3) r(1) assms(2,4) remove_fd_shim [OF assms(1), of e fd i S w]
    by (simp add: epollfd_remove_fd_def is_epollfd_def not_crashed_def)
  then show ?thesis using True e(1) r(2,3) by (auto simp: forget_pass_def)
next
  case False
  then have "epollfd_remove_fd P fd a i (S, w) = Some (S, w)"
    using assms(2) by (auto simp: epollfd_remove_fd_def is_epollfd_def split: option.splits vtable.splits)
  then show ?thesis using False assms(2) by (auto simp: forget_pass_def intro!: exI [of _ d])
qed

text \<open>The descriptions of the table, through all three passes.\<close>

lemma table_step_node:
  "table_step ds R S S' \<Longrightarrow> Some a \<in> set ds \<Longrightarrow> \<exists>d d'. descs S a = Some d \<and> descs S' a = Some d' \<and> R d d'"
  "table_step ds R S S' \<Longrightarrow> Some a \<notin> set ds \<Longrightarrow> descs S' a = descs S a"
  unfolding table_step_def by (metis (full_types))+

lemma table_step_frame:
  assumes "table_step ds R S S'"
  shows "open_files S' = open_files S" "shim_lock S' = shim_lock S" "crashed S' = crashed S" "init_error S' = init_error S"
    "nr_fds_for_realtime_step_detector S' = nr_fds_for_realtime_step_detector S"
    "realtime_step_detector_generation S' = realtime_step_detector_generation S"
proof -
  obtain x where "S' = S\<lparr>descs := x\<rparr>" using assms unfolding table_step_def by blast
  then show "open_files S' = open_files S" "shim_lock S' = shim_lock S" "crashed S' = crashed S" "init_error S' = init_error S"
    "nr_fds_for_realtime_step_detector S' = nr_fds_for_realtime_step_detector S"
    "realtime_step_detector_generation S' = realtime_step_detector_generation S"
    by simp_all
qed

lemma lock_forget_passes:
  assumes "platform_ok P" "table_distinct S" "\<not> crashed S"
    and "\<forall>a. Some a \<in> set (open_files S) \<longrightarrow>
           (\<exists>d. descs S a = Some d \<and> epoll_desc_ok P fd d \<and> (is_epollfd d \<longrightarrow> \<not> desc_locked d))"
  obtains S1 w1 S2 w2 where "epoll_shim_ctx_for_each_unlocked epollfd_lock (S, w) = Some (S1, w1)"
    "epoll_shim_ctx_for_each_unlocked (epollfd_remove_fd P fd) (S1, w1) = Some (S2, w2)"
    "table_step (open_files S) (\<lambda>d d'. \<exists>m. lock_pass True d m \<and> forget_pass P fd m d') S S2"
proof -
  have "\<forall>a. Some a \<in> set (open_files S) \<longrightarrow> (\<exists>d. descs S a = Some d \<and> (is_epollfd d \<longrightarrow> \<not> desc_locked d))"
    using assms(4) by blast
  then have "\<exists>S1 w1. epoll_shim_ctx_for_each_unlocked epollfd_lock (S, w) = Some (S1, w1) \<and>
      table_step (open_files S) (lock_pass True) S S1"
    by (intro for_each_step [where Q = "\<lambda>d. is_epollfd d \<longrightarrow> \<not> desc_locked d"] epollfd_lock_step assms(2,3))
  then obtain S1 w1 where l: "epoll_shim_ctx_for_each_unlocked epollfd_lock (S, w) = Some (S1, w1)"
    and t1: "table_step (open_files S) (lock_pass True) S S1" by blast
  note f1 = table_step_frame [OF t1]
  have d1: "\<exists>d. descs S1 a = Some d \<and> epoll_desc_ok P fd d" if "Some a \<in> set (open_files S1)" for a
    using table_step_node(1) [OF t1, of a] assms(4) that f1(1)
    by (auto simp: lock_pass_def epoll_desc_ok_def is_epollfd_def)
  have s1: "table_distinct S1" "\<not> crashed S1" using assms(2,3) f1 by (simp_all add: table_distinct_def)
  have "\<exists>S2 w2. epoll_shim_ctx_for_each_unlocked (epollfd_remove_fd P fd) (S1, w1) = Some (S2, w2) \<and>
      table_step (open_files S1) (forget_pass P fd) S1 S2"
    using d1 by (intro for_each_step [where Q = "epoll_desc_ok P fd"] epollfd_remove_fd_step assms(1) s1) auto
  then obtain S2 w2 where r: "epoll_shim_ctx_for_each_unlocked (epollfd_remove_fd P fd) (S1, w1) = Some (S2, w2)"
    and t2: "table_step (open_files S1) (forget_pass P fd) S1 S2" by blast
  obtain x y where "S1 = S\<lparr>descs := x\<rparr>" "S2 = S1\<lparr>descs := y\<rparr>" using t1 t2 unfolding table_step_def by blast
  then have "S2 = S\<lparr>descs := descs S2\<rparr>" by simp
  moreover have "\<exists>d d'. descs S a = Some d \<and> descs S2 a = Some d' \<and> (\<exists>m. lock_pass True d m \<and> forget_pass P fd m d')"
    if "Some a \<in> set (open_files S)" for a
    using table_step_node(1) [OF t1 that] table_step_node(1) [OF t2, of a] that f1(1) by fastforce
  moreover have "descs S2 a = descs S a" if "Some a \<notin> set (open_files S)" for a
    using table_step_node(2) [OF t1 that] table_step_node(2) [OF t2, of a] that f1(1) by simp
  ultimately show thesis using that l r unfolding table_step_def by (metis (no_types, lifting))
qed

section \<open>Giving up the description\<close>

definition closed_desc :: "FileDescription \<Rightarrow> FileDescription option" where
  "closed_desc d = (if refcount d = 1 then None else Some (d\<lparr>refcount := refcount d - 1\<rparr>))"

lemma eventfd_unref:
  assumes "descs S b = Some d" "desc_vtable d = Some eventfd_vtable" "desc_ctx d = Ctx_eventfd c" "0 < refcount d"
  obtains r w' where "file_description_unref P S b w = Some (r, S\<lparr>descs := (descs S)(b := closed_desc d)\<rparr>, w')"
proof (cases "refcount d = 1")
  case True
  then have "\<exists>r w'. file_description_unref P S b w = Some (r, S\<lparr>descs := (descs S)(b := None)\<rparr>, w')"
    using assms
    by (auto simp: file_description_unref_def file_description_unref_with_def file_description_destroy_def
        file_description_terminate_def desc_close_def leaf_close_def Let_def set_desc_def split: prod.splits)
  then show thesis using that True by (auto simp: closed_desc_def)
next
  case False
  then show thesis
    using that [of "Inr ()" w] unref_not_last [OF assms(1), of "desc_close P" P w] assms(4)
    by (simp add: file_description_unref_def closed_desc_def set_desc_def)
qed

text \<open>The state of the library in which a descriptor other than a timer, a signal or an epoll instance is closed.\<close>

definition closable :: "'w platform \<Rightarrow> EpollShimCtx \<Rightarrow> int \<Rightarrow> bool" where
  "closable P S fd \<longleftrightarrow>
     shim_ready S \<and> \<not> crashed S \<and> table_distinct S \<and> fd \<ge> 0 \<and>
     (\<forall>a. Some a \<in> set (open_files S) \<longrightarrow>
        (\<exists>d. descs S a = Some d \<and> epoll_desc_ok P fd d \<and> (is_epollfd d \<longrightarrow> \<not> desc_locked d))) \<and>
     (\<forall>b. epoll_shim_ctx_find_desc_impl S fd = Some b \<longrightarrow>
        (\<exists>d c. descs S b = Some d \<and> desc_vtable d = Some eventfd_vtable \<and> desc_ctx d = Ctx_eventfd c))"

lemma set_update_None: "Some a \<in> set (xs[i := None]) \<Longrightarrow> Some a \<in> set xs"
  using set_update_subset_insert [of xs i None] by blast

lemma distinct_update_None:
  assumes "distinct (filter (\<lambda>x. x \<noteq> None) xs)"
  shows "distinct (filter (\<lambda>x. x \<noteq> None) (xs[i := None]))"
    and "i < length xs \<Longrightarrow> xs ! i = Some b \<Longrightarrow> Some b \<notin> set (xs[i := None])"
proof -
  have "distinct (filter (\<lambda>x. x \<noteq> None) (xs[i := None])) \<and>
      (i < length xs \<and> xs ! i = Some b \<longrightarrow> Some b \<notin> set (xs[i := None]))"
    using assms
  proof (induction xs arbitrary: i)
    case (Cons x xs)
    then show ?case
      by (cases i) (auto dest: set_update_None split: if_splits, metis nth_mem)
  qed simp
  then show "distinct (filter (\<lambda>x. x \<noteq> None) (xs[i := None]))"
    "i < length xs \<Longrightarrow> xs ! i = Some b \<Longrightarrow> Some b \<notin> set (xs[i := None])" by blast+
qed

lemma remove_desc_eq:
  assumes "closable P S fd" and T: "T = S\<lparr>open_files := (open_files S)[nat fd := None], shim_lock := ReadLocked\<rparr>"
  shows "epoll_shim_close P S fd w = do {
     s3 \<leftarrow> epoll_shim_ctx_for_each_unlocked epollfd_lock (T, w);
     s4 \<leftarrow> epoll_shim_ctx_for_each_unlocked (epollfd_remove_fd P fd) s3;
     (r, S5, w5) \<leftarrow> (case epoll_shim_ctx_find_desc_impl S fd of
        None \<Rightarrow> Some (Inr (), s4) | Some a \<Rightarrow> file_description_unref P (fst s4) a (snd s4));
     let (r2, w6) = sys_close P fd w5;
     (S7, w7) \<leftarrow> epoll_shim_ctx_for_each_unlocked epollfd_unlock (S5, w6);
     S8 \<leftarrow> unlock_read S7;
     Some (first_error r r2, S8, w7)
   }"
proof -
  have c: "shim_ready S" "fd \<ge> 0" using assms(1) by (simp_all add: closable_def)
  have same: "(open_files S)[nat fd := None] = open_files S" if "epoll_shim_ctx_find_desc_impl S fd = None"
    using that c(2)
    by (auto simp: epoll_shim_ctx_find_desc_impl_def list_update_same_conv not_le list_update_beyond split: if_splits)
  have id: "S\<lparr>open_files := open_files S, shim_lock := m\<rparr> = S\<lparr>shim_lock := m\<rparr>" for m by simp
  show ?thesis
    using c shim_readyD [OF c(1)] same unfolding T
    by (cases "epoll_shim_ctx_find_desc_impl S fd")
      (simp_all add: id epoll_shim_close_def epoll_shim_ctx_remove_desc_def lock_write_def lock_downgrade_def Let_def)
qed

lemma find_desc_cong:
  "open_files S = open_files T \<Longrightarrow> epoll_shim_ctx_find_desc_impl S g = epoll_shim_ctx_find_desc_impl T g"
  by (simp add: epoll_shim_ctx_find_desc_impl_def)

lemma find_desc_closed:
  "epoll_shim_ctx_find_desc_impl (S\<lparr>open_files := (open_files S)[nat fd := None]\<rparr>) g =
     (if g = fd then None else epoll_shim_ctx_find_desc_impl S g)" if "fd \<ge> 0"
  using that by (auto simp: epoll_shim_ctx_find_desc_impl_def nat_eq_iff)

text \<open>What closing a descriptor leaves behind.\<close>

definition closed :: "'w platform \<Rightarrow> EpollShimCtx \<Rightarrow> int \<Rightarrow> EpollShimCtx \<Rightarrow> bool" where
  "closed P S fd S' \<longleftrightarrow>
     shim_lock S' = Unlocked \<and> epoll_shim_ctx_find_desc_impl S' fd = None \<and>
     (\<forall>g. g \<noteq> fd \<longrightarrow> epoll_shim_ctx_find_desc_impl S' g = epoll_shim_ctx_find_desc_impl S g) \<and>
     (\<forall>b d. epoll_shim_ctx_find_desc_impl S fd = Some b \<and> descs S b = Some d \<longrightarrow> descs S' b = closed_desc d) \<and>
     (\<forall>a. Some a \<in> set (open_files S') \<longrightarrow> (\<exists>d d'. descs S a = Some d \<and> descs S' a = Some d' \<and> forget_pass P fd d d'))"

lemma lock_forget_unlock:
  assumes "lock_pass True d m" "forget_pass P fd m x" "lock_pass False x d'" "is_epollfd d \<longrightarrow> \<not> desc_locked d"
  shows "forget_pass P fd d d'"
proof (cases "is_epollfd d")
  case True
  then have m: "m = d\<lparr>desc_locked := True\<rparr>" "is_epollfd m" using assms(1) by (simp_all add: lock_pass_def is_epollfd_def)
  then obtain e e' where e: "desc_ctx d = Ctx_epollfd e" "x = m\<lparr>desc_ctx := Ctx_epollfd e'\<rparr>" "epoll_wf P e'"
    "lookup_node e' = (lookup_node e)(fd := None)" using assms(2) by (auto simp: forget_pass_def)
  have "is_epollfd x" using e(2) m by (simp add: is_epollfd_def)
  then have "d' = d\<lparr>desc_ctx := Ctx_epollfd e'\<rparr>" using assms(3,4) True e(2) m(1) by (simp add: lock_pass_def)
  then show ?thesis using True e by (auto simp: forget_pass_def)
qed (use assms in \<open>simp add: lock_pass_def forget_pass_def\<close>)

lemma closable_table:
  assumes "closable P S fd" and T: "T = S\<lparr>open_files := (open_files S)[nat fd := None], shim_lock := ReadLocked\<rparr>"
  shows "table_distinct T" "\<not> crashed T"
    "\<forall>a. Some a \<in> set (open_files T) \<longrightarrow>
       (\<exists>d. descs T a = Some d \<and> epoll_desc_ok P fd d \<and> (is_epollfd d \<longrightarrow> \<not> desc_locked d))"
    "epoll_shim_ctx_find_desc_impl S fd = Some b \<Longrightarrow> Some b \<notin> set (open_files T)"
proof -
  have c: "table_distinct S" "\<not> crashed S" "fd \<ge> 0" using assms(1) by (simp_all add: closable_def)
  have d: "distinct (filter (\<lambda>x. x \<noteq> None) (open_files S))" using c(1) by (simp add: table_distinct_def)
  show "table_distinct T" using c(1) distinct_update_None(1) [OF d] by (simp add: table_distinct_def T)
  show "\<not> crashed T" using c(2) by (simp add: T)
  show "\<forall>a. Some a \<in> set (open_files T) \<longrightarrow>
       (\<exists>d. descs T a = Some d \<and> epoll_desc_ok P fd d \<and> (is_epollfd d \<longrightarrow> \<not> desc_locked d))"
    using assms(1) unfolding T closable_def by (auto dest: set_update_None)
  show "Some b \<notin> set (open_files T)" if "epoll_shim_ctx_find_desc_impl S fd = Some b"
    using that c(3) distinct_update_None(2) [OF d, of "nat fd" b]
    by (simp add: T epoll_shim_ctx_find_desc_impl_def split: if_splits)
qed

lemma close_description:
  assumes "closable P S fd" "\<And>b. epoll_shim_ctx_find_desc_impl S fd = Some b \<Longrightarrow> descs S4 b = descs S b"
  shows "\<exists>r w'. (case epoll_shim_ctx_find_desc_impl S fd of
        None \<Rightarrow> Some (Inr (), S4, w) | Some a \<Rightarrow> file_description_unref P S4 a w) =
      Some (r, S4\<lparr>descs := (\<lambda>a. if epoll_shim_ctx_find_desc_impl S fd = Some a
        then Option.bind (descs S a) closed_desc else descs S4 a)\<rparr>, w')"
proof (cases "epoll_shim_ctx_find_desc_impl S fd")
  case (Some b)
  obtain d c where d: "descs S b = Some d" "desc_vtable d = Some eventfd_vtable" "desc_ctx d = Ctx_eventfd c"
    using assms(1) Some by (auto simp: closable_def)
  have "0 < refcount d" using find_desc_impl_live [of S fd b] assms(1) Some d(1) by (auto simp: closable_def shim_ready_def)
  then obtain r w' where "file_description_unref P S4 b w = Some (r, S4\<lparr>descs := (descs S4)(b := closed_desc d)\<rparr>, w')"
    using eventfd_unref [of S4 b d c P w] assms(2) [OF Some] d by auto
  moreover have "(descs S4)(b := closed_desc d) = (\<lambda>a. if Some b = Some a then Option.bind (descs S a) closed_desc else descs S4 a)"
    using d(1) by (auto simp: fun_eq_iff)
  ultimately show ?thesis using Some by simp
qed simp

lemma close_step:
  assumes "platform_ok P" "closable P S fd"
  obtains r S' w' where "epoll_shim_close P S fd w = Some (r, S', w')" "closed P S fd S'"
proof -
  define T where "T = S\<lparr>open_files := (open_files S)[nat fd := None], shim_lock := ReadLocked\<rparr>"
  note c = closable_table [OF assms(2) T_def]
  obtain S1 w1 S2 w2 where p: "epoll_shim_ctx_for_each_unlocked epollfd_lock (T, w) = Some (S1, w1)"
    "epoll_shim_ctx_for_each_unlocked (epollfd_remove_fd P fd) (S1, w1) = Some (S2, w2)"
    and t2: "table_step (open_files T) (\<lambda>d d'. \<exists>m. lock_pass True d m \<and> forget_pass P fd m d') T S2"
    by (rule lock_forget_passes [OF assms(1) c(1-3)])
  note f2 = table_step_frame [OF t2]
  define S5 where "S5 = S2\<lparr>descs := (\<lambda>a. if epoll_shim_ctx_find_desc_impl S fd = Some a
        then Option.bind (descs S a) closed_desc else descs S2 a)\<rparr>"
  have "descs S2 b = descs S b" if "epoll_shim_ctx_find_desc_impl S fd = Some b" for b
    using table_step_node(2) [OF t2 c(4) [OF that]] by (simp add: T_def)
  then obtain r w5 where u: "(case epoll_shim_ctx_find_desc_impl S fd of
        None \<Rightarrow> Some (Inr (), S2, w2) | Some a \<Rightarrow> file_description_unref P S2 a w2) = Some (r, S5, w5)"
    using close_description [OF assms(2), of S2 w2] unfolding S5_def by blast
  obtain r2 w6 where cl: "sys_close P fd w5 = (r2, w6)" by fastforce
  have off: "epoll_shim_ctx_find_desc_impl S fd \<noteq> Some a" if "Some a \<in> set (open_files T)" for a
    using c(4) that by blast
  have n5: "\<exists>d x. descs S a = Some d \<and> descs S5 a = Some x \<and> (is_epollfd d \<longrightarrow> \<not> desc_locked d) \<and>
      (\<exists>m. lock_pass True d m \<and> forget_pass P fd m x)" if "Some a \<in> set (open_files T)" for a
  proof -
    have s5: "descs S5 a = descs S2 a" "descs T a = descs S a" using off [OF that] by (simp_all add: S5_def T_def)
    show ?thesis using table_step_node(1) [OF t2 that] c(3) [rule_format, OF that] unfolding s5 by auto
  qed
  have o5: "open_files S5 = open_files T" "\<not> crashed S5" "shim_lock S5 = ReadLocked"
    using f2 c(2) by (simp_all add: S5_def T_def)
  have "\<forall>a. Some a \<in> set (open_files S5) \<longrightarrow> (\<exists>d. descs S5 a = Some d \<and> (is_epollfd d \<longrightarrow> desc_locked d))"
    using n5 o5(1) by (fastforce simp: lock_pass_def forget_pass_def is_epollfd_def split: if_splits)
  then have "\<exists>S7 w7. epoll_shim_ctx_for_each_unlocked epollfd_unlock (S5, w6) = Some (S7, w7) \<and>
      table_step (open_files S5) (lock_pass False) S5 S7"
    using c(1) o5(1,2)
    by (intro for_each_step [where Q = "\<lambda>d. is_epollfd d \<longrightarrow> desc_locked d"] epollfd_unlock_step)
      (simp_all add: table_distinct_def)
  then obtain S7 w7 where v: "epoll_shim_ctx_for_each_unlocked epollfd_unlock (S5, w6) = Some (S7, w7)"
    and t7: "table_step (open_files S5) (lock_pass False) S5 S7" by blast
  note f7 = table_step_frame [OF t7]
  let ?S = "S7\<lparr>shim_lock := Unlocked\<rparr>"
  have "epoll_shim_close P S fd w = Some (first_error r r2, ?S, w7)"
    unfolding remove_desc_eq [OF assms(2) T_def] using p u cl v f7(2) o5(3) by (simp add: unlock_read_def cong: option.case_cong)
  moreover have "closed P S fd ?S"
    unfolding closed_def
  proof (intro conjI allI impI)
    have fd: "fd \<ge> 0" using assms(2) by (simp add: closable_def)
    have o7: "open_files ?S = (open_files S)[nat fd := None]" using f7(1) o5(1) by (simp add: T_def)
    have find: "epoll_shim_ctx_find_desc_impl ?S g = (if g = fd then None else epoll_shim_ctx_find_desc_impl S g)" for g
      using find_desc_cong [of ?S "S\<lparr>open_files := (open_files S)[nat fd := None]\<rparr>" g] o7 find_desc_closed [OF fd, of S g]
      by simp
    show "shim_lock ?S = Unlocked" "epoll_shim_ctx_find_desc_impl ?S fd = None" using find by simp_all
    show "epoll_shim_ctx_find_desc_impl ?S g = epoll_shim_ctx_find_desc_impl S g" if "g \<noteq> fd" for g
      using find that by simp
    show "descs ?S b = closed_desc d" if "epoll_shim_ctx_find_desc_impl S fd = Some b \<and> descs S b = Some d" for b d
      using that table_step_node(2) [OF t7, of b] c(4) [of b] o5(1) by (simp add: S5_def)
    show "\<exists>d d'. descs S a = Some d \<and> descs ?S a = Some d' \<and> forget_pass P fd d d'" if "Some a \<in> set (open_files ?S)" for a
    proof -
      have a: "Some a \<in> set (open_files T)" "Some a \<in> set (open_files S5)" using that o7 o5(1) by (simp_all add: T_def)
      obtain d x m where x: "descs S a = Some d" "descs S5 a = Some x" "is_epollfd d \<longrightarrow> \<not> desc_locked d"
        "lock_pass True d m" "forget_pass P fd m x" using n5 [OF a(1)] by blast
      obtain d' where "descs S7 a = Some d'" "lock_pass False x d'"
        using table_step_node(1) [OF t7 a(2)] x(2) by auto
      then show ?thesis using x(1) lock_forget_unlock [OF x(4,5) _ x(3)] by auto
    qed
  qed
  ultimately show thesis by (rule that)
qed

section \<open>Properties\<close>


definition demo_closing :: EpollShimCtx where
  "demo_closing = demo_shim (Ctx_epollfd demo_epollfd) epollfd_vtable 0"


end
