(* ===== verification/Shim_Open.thy ===== *)
theory Shim_Open
  imports Shim_Api
begin

text \<open>
  Creating descriptors: what \<open>epoll_create1\<close>, \<open>eventfd\<close>, \<open>timerfd_create\<close> and \<open>signalfd\<close> do to the table of open
  descriptions, when they succeed and when one of their steps fails.
\<close>

section \<open>Hypotheses and results\<close>

text \<open>
  kqueue(2) gives a descriptor that is not open, so the library has no description for it unless it was
  closed behind its back; malloc(3) gives memory that is not in use.
\<close>

definition creates_fresh :: "'w platform \<Rightarrow> EpollShimCtx \<Rightarrow> bool" where
  "creates_fresh P S \<longleftrightarrow>
     (\<forall>fl w kq w'. sys_kqueue1 P fl w = (Inr kq, w') \<longrightarrow>
        0 \<le> kq \<and> kq \<le> INT32_MAX \<and> epoll_shim_ctx_find_desc_impl S kq = None) \<and>
     (\<forall>w a w'. sys_malloc P w = (Inr a, w') \<longrightarrow> descs S a = None)"

definition fresh_desc :: FileDescription where
  "fresh_desc = \<lparr>refcount = 1, desc_locked = False, desc_flags = 0, desc_ctx = Ctx_none, desc_vtable = None\<rparr>"

text \<open>Only the table and the store change.\<close>

definition same_rest :: "EpollShimCtx \<Rightarrow> EpollShimCtx \<Rightarrow> bool" where
  "same_rest S S' \<longleftrightarrow> S' = S\<lparr>open_files := open_files S', descs := descs S'\<rparr>"

text \<open>A new descriptor refers to a new description; all others refer to what they did before.\<close>

definition opened :: "EpollShimCtx \<Rightarrow> int \<Rightarrow> FileDescription \<Rightarrow> EpollShimCtx \<Rightarrow> bool" where
  "opened S fd d S' \<longleftrightarrow> same_rest S S' \<and> shim_ready S' \<and>
     (\<exists>a. descs S a = None \<and> descs S' = (descs S)(a \<mapsto> d) \<and> epoll_shim_ctx_find_desc_impl S fd = None \<and>
        epoll_shim_ctx_find_desc_impl S' = (epoll_shim_ctx_find_desc_impl S)(fd := Some a))"

definition not_opened :: "EpollShimCtx \<Rightarrow> EpollShimCtx \<Rightarrow> bool" where
  "not_opened S S' \<longleftrightarrow> same_rest S S' \<and> shim_ready S' \<and> descs S' = descs S \<and>
     epoll_shim_ctx_find_desc_impl S' = epoll_shim_ctx_find_desc_impl S"

text \<open>A creation returns; it opens a descriptor with the given flags and a context as given, or changes nothing.\<close>

definition creates ::
  "EpollShimCtx \<Rightarrow> vtable \<Rightarrow> 32 word \<Rightarrow> (fd_ctx \<Rightarrow> bool) \<Rightarrow> ((errno + int) \<times> EpollShimCtx \<times> 'w) option \<Rightarrow> bool" where
  "creates S vt flags ok x \<longleftrightarrow>
     (\<exists>r S' w'. x = Some (r, S', w') \<and>
        (case r of
           Inl _ \<Rightarrow> not_opened S S'
         | Inr fd \<Rightarrow> \<exists>c. ok c \<and>
             opened S fd \<lparr>refcount = 1, desc_locked = False, desc_flags = flags AND O_NONBLOCK, desc_ctx = c, desc_vtable = Some vt\<rparr> S'))"

section \<open>The steps of a creation\<close>

abbreviation grown :: "EpollShimCtx \<Rightarrow> nat \<Rightarrow> EpollShimCtx" where
  "grown S k \<equiv> S\<lparr>open_files := open_files S @ replicate k None\<rparr>"

lemma find_grown: "epoll_shim_ctx_find_desc_impl (grown S k) = epoll_shim_ctx_find_desc_impl S"
  by (auto simp: epoll_shim_ctx_find_desc_impl_def fun_eq_iff nth_append)

lemma table_live_grown: "table_live S \<Longrightarrow> table_live (grown S k)"
  by (auto simp: table_live_def)

lemma not_opened_grown: "shim_ready S \<Longrightarrow> not_opened S (grown S k)"
  using table_live_grown [of S k] by (simp add: not_opened_def same_rest_def shim_ready_def find_grown)

lemma grow_table_step:
  assumes "0 \<le> kq" "kq \<le> INT32_MAX"
  obtains r k w' where "grow_table P S kq w = Some (r, grown S k, w')" "r = Inr () \<longrightarrow> nat kq < length (open_files S) + k"
proof (cases "length (open_files S) \<le> nat kq")
  case True
  obtain space where s: "double_space 32 (word_of_int kq) = Some space" "nat kq < unat space"
    using double_space_total [OF assms] by blast
  obtain q w1 where q: "sys_realloc P (unat space * cfg_sizeof_ptr P) w = (q, w1)" by fastforce
  have same: "grown S 0 = S" by simp
  consider "unat space * cfg_sizeof_ptr P > cfg_SIZE_MAX P" | ec where "unat space * cfg_sizeof_ptr P \<le> cfg_SIZE_MAX P" "q = Inl ec"
    | "unat space * cfg_sizeof_ptr P \<le> cfg_SIZE_MAX P" "q = Inr ()"
    by (metis leI old.unit.exhaust sum.exhaust)
  then show thesis
  proof cases
    case 1
    then show thesis using that [of "Inl ENOMEM" 0 w] True s by (simp add: grow_table_def Let_def)
  next
    case (2 ec)
    then show thesis using that [of "Inl ec" 0 w1] True s q by (simp add: grow_table_def Let_def)
  next
    case 3
    then show thesis
      using that [of "Inr ()" "unat space - length (open_files S)" w1] True s q by (simp add: grow_table_def Let_def)
  qed
next
  case False
  then show thesis using that [of "Inr ()" 0 w] by (simp add: grow_table_def)
qed

lemma drop_stale_none:
  assumes "nat kq < length (open_files S)" "0 \<le> kq" "epoll_shim_ctx_find_desc_impl S kq = None"
  shows "drop_stale P S kq w = Some (S, w)"
  using assms by (simp add: drop_stale_def epoll_shim_ctx_find_desc_impl_def)

lemma create_desc_step:
  assumes "shim_ready S" "creates_fresh P S"
  obtains ec k w' where "epoll_shim_ctx_create_desc P S flags w = Some (Inl ec, grown S k, w')"
  | kq a k w' where "epoll_shim_ctx_create_desc P S flags w =
        Some (Inr (kq, a), set_desc a fresh_desc ((grown S k)\<lparr>shim_lock := WriteLocked\<rparr>), w')"
      "0 \<le> kq" "nat kq < length (open_files S) + k" "epoll_shim_ctx_find_desc_impl S kq = None" "descs S a = None"
proof -
  let ?S0 = "S\<lparr>shim_lock := WriteLocked\<rparr>"
  have lk: "lock_write S = Some ?S0" using assms(1) by (simp add: lock_write_def shim_ready_def)
  have un: "unlock_write (grown ?S0 k) = Some (grown S k)" for k
    using assms(1) by (simp add: unlock_write_def shim_ready_def)
  obtain q w1 where q: "sys_kqueue1 P flags w = (q, w1)" by fastforce
  show thesis
  proof (cases q)
    case (Inl ec)
    then have "epoll_shim_ctx_create_desc P S flags w = Some (Inl ec, grown S 0, w1)"
      using lk q un [of 0] by (simp add: epoll_shim_ctx_create_desc_def)
    then show thesis by (rule that(1))
  next
    case (Inr kq)
    have kq: "0 \<le> kq" "kq \<le> INT32_MAX" "epoll_shim_ctx_find_desc_impl S kq = None"
      using assms(2) q Inr unfolding creates_fresh_def by blast+
    obtain g k w2 where g: "grow_table P ?S0 kq w1 = Some (g, grown ?S0 k, w2)"
      and len: "g = Inr () \<longrightarrow> nat kq < length (open_files ?S0) + k"
      by (rule grow_table_step [OF kq(1,2)])
    show thesis
    proof (cases g)
      case (Inl ec)
      then have "epoll_shim_ctx_create_desc P S flags w = Some (Inl ec, grown S k, snd (sys_close P kq w2))"
        using lk q Inr g un [of k] by (simp add: epoll_shim_ctx_create_desc_def Let_def case_prod_beta)
      then show thesis by (rule that(1))
    next
      case gr: (Inr u)
      have l: "nat kq < length (open_files S) + k" using len gr by simp
      have "epoll_shim_ctx_find_desc_impl (grown ?S0 k) kq = None"
        using kq(3) fun_cong [OF find_grown, of ?S0 k kq] by simp
      then have d: "drop_stale P (grown ?S0 k) kq w2 = Some (grown ?S0 k, w2)"
        by (intro drop_stale_none) (use l kq(1) in simp_all)
      obtain c S3 w4 where c: "file_description_create P (grown ?S0 k) w2 = (c, S3, w4)"
        by (cases "file_description_create P (grown ?S0 k) w2") auto
      show thesis
      proof (cases c)
        case (Inl ec)
        then have "S3 = grown ?S0 k"
          using c by (auto simp: file_description_create_def split: prod.splits sum.splits)
        then have "epoll_shim_ctx_create_desc P S flags w = Some (Inl ec, grown S k, snd (sys_close P kq w4))"
          using lk q Inr g gr d c \<open>c = Inl ec\<close> un [of k]
          by (simp add: epoll_shim_ctx_create_desc_def Let_def case_prod_beta)
        then show thesis by (rule that(1))
      next
        case cr: (Inr a)
        then have S3: "S3 = set_desc a fresh_desc (grown ?S0 k)" "\<exists>w v. sys_malloc P w = (Inr a, v)"
          using c by (auto simp: file_description_create_def file_description_init_def fresh_desc_def split: prod.splits sum.splits)
        then have "descs S a = None" using assms(2) unfolding creates_fresh_def by blast
        moreover have "epoll_shim_ctx_create_desc P S flags w =
            Some (Inr (kq, a), set_desc a fresh_desc ((grown S k)\<lparr>shim_lock := WriteLocked\<rparr>), w4)"
          using lk q Inr g gr d c cr S3(1) by (simp add: epoll_shim_ctx_create_desc_def Let_def)
        ultimately show thesis using that(2) kq l by blast
      qed
    qed
  qed
qed

lemma install_opened:
  assumes "shim_ready S" "0 \<le> kq" "nat kq < length (open_files S) + k" "epoll_shim_ctx_find_desc_impl S kq = None"
    and "descs S a = None" "refcount d = 1"
  shows "\<exists>S'. epoll_shim_ctx_install_desc (set_desc a d ((grown S k)\<lparr>shim_lock := WriteLocked\<rparr>)) kq a = Some S' \<and> opened S kq d S'"
proof -
  let ?tab = "(open_files S @ replicate k None)[nat kq := Some a]"
  let ?S' = "S\<lparr>open_files := ?tab, descs := (descs S)(a \<mapsto> d)\<rparr>"
  have lk: "shim_lock S = Unlocked" "init_error S = 0" "table_live S" using assms(1) by (simp_all add: shim_ready_def)
  have "S\<lparr>descs := (descs S)(a \<mapsto> d), open_files := ?tab, shim_lock := Unlocked\<rparr> = ?S'" using lk(1) by (cases S) simp
  then have "epoll_shim_ctx_install_desc (set_desc a d ((grown S k)\<lparr>shim_lock := WriteLocked\<rparr>)) kq a = Some ?S'"
    using assms(3) by (simp add: epoll_shim_ctx_install_desc_def unlock_write_def set_desc_def)
  moreover have "epoll_shim_ctx_find_desc_impl ?S' fd = ((epoll_shim_ctx_find_desc_impl S)(kq := Some a)) fd" for fd
    using assms(2,3) by (auto simp: epoll_shim_ctx_find_desc_impl_def nth_list_update nth_append)
  moreover have "table_live ?S'"
    unfolding table_live_def
  proof (intro allI impI)
    fix b assume "Some b \<in> set (open_files ?S')"
    then have "b = a \<or> Some b \<in> set (open_files S)"
      using set_update_subset_insert [of "open_files S @ replicate k None" "nat kq" "Some a"] by auto
    then show "\<exists>d. descs ?S' b = Some d \<and> 0 < refcount d"
      using lk(3) assms(6) by (cases "b = a") (auto simp: table_live_def)
  qed
  then have "shim_ready ?S'" using lk by (simp add: shim_ready_def)
  ultimately show ?thesis
    using assms(4,5) unfolding opened_def same_rest_def by (intro exI [of _ ?S']) (auto simp: fun_eq_iff)
qed

lemma drop_not_opened:
  assumes "shim_ready S" "descs S a = None" "refcount d = 1" "desc_vtable d = None"
  shows "\<exists>S' w'. epoll_shim_ctx_drop_desc P (set_desc a d ((grown S k)\<lparr>shim_lock := WriteLocked\<rparr>)) fd a w = Some (S', w') \<and>
    not_opened S S'"
proof -
  have "(descs S)(a := None) = descs S" using assms(2) by auto
  then have "(grown S k)\<lparr>descs := (descs S)(a := None), shim_lock := Unlocked\<rparr> = grown S k"
    using assms(1) by (cases S) (simp add: shim_ready_def)
  then have "\<exists>w'. epoll_shim_ctx_drop_desc P (set_desc a d ((grown S k)\<lparr>shim_lock := WriteLocked\<rparr>)) fd a w = Some (grown S k, w')"
    using assms(3,4)
    by (simp add: epoll_shim_ctx_drop_desc_def file_description_unref_def file_description_unref_with_def file_description_destroy_def
        file_description_terminate_def unlock_write_def set_desc_def Let_def case_prod_beta)
  then show ?thesis using not_opened_grown [OF assms(1)] by blast
qed

lemma publish_creates:
  assumes "shim_ready S" "0 \<le> kq" "nat kq < length (open_files S) + k" "epoll_shim_ctx_find_desc_impl S kq = None"
    and "descs S a = None" "\<And>c. r = Inr c \<Longrightarrow> ok c"
  shows "creates S vt flags ok
    (publish_desc P (set_desc a fresh_desc ((grown S k)\<lparr>shim_lock := WriteLocked\<rparr>)) kq a flags vt r w)"
proof (cases r)
  case (Inl ec)
  obtain S' w' where "epoll_shim_ctx_drop_desc P
      (set_desc a (fresh_desc\<lparr>desc_flags := flags AND O_NONBLOCK\<rparr>) ((grown S k)\<lparr>shim_lock := WriteLocked\<rparr>)) kq a w = Some (S', w')"
    "not_opened S S'"
    using drop_not_opened [OF assms(1,5), of "fresh_desc\<lparr>desc_flags := flags AND O_NONBLOCK\<rparr>" P k kq w]
    by (auto simp: fresh_desc_def)
  then show ?thesis using Inl by (simp add: creates_def publish_desc_def)
next
  case (Inr c)
  let ?d = "\<lparr>refcount = 1, desc_locked = False, desc_flags = flags AND O_NONBLOCK, desc_ctx = c, desc_vtable = Some vt\<rparr>"
  obtain S' where "epoll_shim_ctx_install_desc (set_desc a ?d ((grown S k)\<lparr>shim_lock := WriteLocked\<rparr>)) kq a = Some S'"
    "opened S kq ?d S'"
    using install_opened [OF assms(1-5), of ?d] by auto
  then show ?thesis using Inr assms(6) by (auto simp: creates_def publish_desc_def fresh_desc_def)
qed

lemma kqueue_event_init_total: "\<exists>r ke w'. kqueue_event_init P b w = Some (r, ke, w')"
proof -
  have "is_triggered e'" if "kqueue_event_trigger P (-1) e w = (Inr u, e', w')" for e u e' w w'
    using that by (auto simp: kqueue_event_trigger_def split: if_splits prod.splits sum.splits)
  then show ?thesis by (simp add: kqueue_event_init_def Let_def split: prod.splits sum.splits)
qed

lemma eventfd_ctx_init_total:
  assumes "subset_bits fl EVENTFD_CTX_FLAG_SEMAPHORE"
  shows "\<exists>r w'. eventfd_ctx_init P kq v fl w = Some (r, w') \<and> (\<forall>e. r = Inr e \<longrightarrow> efd_counter e = ucast v \<and> efd_flags e = fl)"
proof -
  obtain r ke w1 where "kqueue_event_init P (0 < v) w = Some (r, ke, w1)"
    using kqueue_event_init_total [of P "0 < v" w] by blast
  then show ?thesis using assms by (cases r) (auto simp: eventfd_ctx_init_def split: prod.splits sum.splits)
qed

lemma signalfd_init_sigs: "signalfd_ctx_init P kq sigs w = Some (Inr s, w') \<Longrightarrow> sfd_sigs s = sigs"
  by (auto simp: signalfd_ctx_init_def c_assert_def Let_def signalfd_ctx_trigger_manually_def
      split: Option.bind_splits prod.splits sum.splits if_splits)

lemma creation:
  assumes "shim_ready S" "creates_fresh P S"
    and "\<And>ec S' w'. epoll_shim_ctx_create_desc P S cf w = Some (Inl ec, S', w') \<Longrightarrow> x = Some (Inl ec, S', w')"
    and "\<And>kq a S1 w1. epoll_shim_ctx_create_desc P S cf w = Some (Inr (kq, a), S1, w1) \<Longrightarrow>
      \<exists>r w2. x = publish_desc P S1 kq a fl vt r w2 \<and> (\<forall>c. r = Inr c \<longrightarrow> ok c)"
  shows "creates S vt fl ok x"
proof (cases rule: create_desc_step [OF assms(1,2), of cf w])
  case (1 ec k w')
  then show ?thesis using assms(3) not_opened_grown [OF assms(1)] by (simp add: creates_def)
next
  case (2 kq a k w')
  obtain r w2 where "x = publish_desc P (set_desc a fresh_desc ((grown S k)\<lparr>shim_lock := WriteLocked\<rparr>)) kq a fl vt r w2"
    "\<forall>c. r = Inr c \<longrightarrow> ok c"
    using assms(4) [OF 2(1)] by blast
  then show ?thesis using publish_creates [OF assms(1) 2(2-5), of r ok] by simp
qed

lemma creates_refused: "shim_ready S \<Longrightarrow> creates S vt fl ok (Some (Inl ec, S, w'))"
  using not_opened_grown [of S 0] by (simp add: creates_def)

lemma epoll_create1_creates:
  assumes "shim_ready S" "creates_fresh P S"
  shows "creates S epollfd_vtable fl (\<lambda>c. c = Ctx_epollfd empty_epollfd) (epoll_create1 P S fl w)"
proof (cases "subset_bits fl EPOLL_CLOEXEC")
  case True
  have i: "fst (epollfd_ctx_init P w) = Inr e \<Longrightarrow> e = empty_epollfd" for w e
    by (auto simp: epollfd_ctx_init_def split: prod.splits sum.splits)
  show ?thesis
    by (rule creation [OF assms, of "fl AND (O_CLOEXEC OR O_NONBLOCK)" w])
      (auto simp: epoll_create1_def epoll_create_impl_def True shim_readyD(1) [OF assms(1)] case_prod_beta dest: i split: sum.splits intro!: exI)
qed (simp add: epoll_create1_def creates_refused [OF assms(1)])

lemma eventfd_creates:
  assumes "shim_ready S" "creates_fresh P S"
  shows "creates S eventfd_vtable fl (\<lambda>c. \<exists>e. c = Ctx_eventfd e \<and> efd_counter e = ucast v) (eventfd_impl P S v fl w)"
proof (cases "subset_bits fl (EFD_SEMAPHORE OR EFD_CLOEXEC OR EFD_NONBLOCK)")
  case True
  let ?cf = "if has_bits fl EFD_SEMAPHORE then EVENTFD_CTX_FLAG_SEMAPHORE else 0 :: 32 word"
  have cf: "subset_bits ?cf EVENTFD_CTX_FLAG_SEMAPHORE" by (simp add: subset_bits_def)
  show ?thesis
  proof (rule creation [OF assms, of "fl AND (O_CLOEXEC OR O_NONBLOCK)" w])
    fix kq a S1 w1
    assume c: "epoll_shim_ctx_create_desc P S (fl AND (O_CLOEXEC OR O_NONBLOCK)) w = Some (Inr (kq, a), S1, w1)"
    obtain r w2 where i: "eventfd_ctx_init P kq v ?cf w1 = Some (r, w2)" "\<forall>e. r = Inr e \<longrightarrow> efd_counter e = ucast v"
      using eventfd_ctx_init_total [OF cf, of P kq v w1] by blast
    show "\<exists>r w2. eventfd_impl P S v fl w = publish_desc P S1 kq a fl eventfd_vtable r w2 \<and>
        (\<forall>c. r = Inr c \<longrightarrow> (\<exists>e. c = Ctx_eventfd e \<and> efd_counter e = ucast v))"
      using True shim_readyD(1) [OF assms(1)] c i by (intro exI [of _ "case r of Inl ec \<Rightarrow> Inl ec | Inr e \<Rightarrow> Inr (Ctx_eventfd e)"] exI [of _ w2])
        (auto simp: eventfd_impl_def Let_def split: sum.splits)
  qed (use True shim_readyD(1) [OF assms(1)] in \<open>simp add: eventfd_impl_def\<close>)
qed (simp add: eventfd_impl_def creates_refused [OF assms(1)])

lemma timerfd_create_creates:
  assumes "shim_ready S" "creates_fresh P S"
  shows "creates S timerfd_vtable fl (\<lambda>c. \<exists>k. clockid = Some k \<and> c = Ctx_timerfd (timerfd_ctx_init k)) (timerfd_create_impl P S clockid fl w)"
proof (cases "clockid = None \<or> \<not> subset_bits fl (TFD_CLOEXEC OR TFD_NONBLOCK)")
  case False
  then obtain k where k: "clockid = Some k" "subset_bits fl (TFD_CLOEXEC OR TFD_NONBLOCK)" by auto
  show ?thesis
  proof (rule creation [OF assms, of "fl AND (O_CLOEXEC OR O_NONBLOCK)" w])
    fix kq a S1 w1
    assume c: "epoll_shim_ctx_create_desc P S (fl AND (O_CLOEXEC OR O_NONBLOCK)) w = Some (Inr (kq, a), S1, w1)"
    then have "timerfd_create_impl P S clockid fl w =
        publish_desc P S1 kq a fl timerfd_vtable (Inr (Ctx_timerfd (timerfd_ctx_init k))) w1"
      using k shim_readyD(1) [OF assms(1)] by (simp add: timerfd_create_impl_def)
    then show "\<exists>r w2. timerfd_create_impl P S clockid fl w = publish_desc P S1 kq a fl timerfd_vtable r w2 \<and>
        (\<forall>c. r = Inr c \<longrightarrow> (\<exists>k. clockid = Some k \<and> c = Ctx_timerfd (timerfd_ctx_init k)))"
      using k(1) by blast
  qed (use k shim_readyD(1) [OF assms(1)] in \<open>simp add: timerfd_create_impl_def\<close>)
qed (auto simp: timerfd_create_impl_def creates_refused [OF assms(1)] split: option.splits)

lemma signalfd_creates:
  assumes "shim_ready S" "creates_fresh P S"
  shows "creates S signalfd_vtable fl (\<lambda>c. \<exists>s. c = Ctx_signalfd s \<and> sigs = Some (sfd_sigs s)) (signalfd_impl P S fd sigs fl w)"
proof (cases "sigs = None \<or> \<not> subset_bits fl (SFD_NONBLOCK OR SFD_CLOEXEC) \<or> fd \<noteq> -1")
  case False
  show ?thesis
  proof (rule creation [OF assms, of "fl AND (O_CLOEXEC OR O_NONBLOCK)" w])
    fix kq a S1 w1
    assume c: "epoll_shim_ctx_create_desc P S (fl AND (O_CLOEXEC OR O_NONBLOCK)) w = Some (Inr (kq, a), S1, w1)"
    obtain r w2 where i: "signalfd_ctx_init P kq (the sigs) w1 = Some (r, w2)"
      using signalfd_init_total [of P kq "the sigs" w1] by auto
    show "\<exists>r w2. signalfd_impl P S fd sigs fl w = publish_desc P S1 kq a fl signalfd_vtable r w2 \<and>
        (\<forall>c. r = Inr c \<longrightarrow> (\<exists>s. c = Ctx_signalfd s \<and> sigs = Some (sfd_sigs s)))"
      using False shim_readyD(1) [OF assms(1)] c i signalfd_init_sigs [of P kq "the sigs" w1]
      by (intro exI [of _ "case r of Inl ec \<Rightarrow> Inl ec | Inr e \<Rightarrow> Inr (Ctx_signalfd e)"] exI [of _ w2])
        (auto simp: signalfd_impl_def split: sum.splits)
  qed (use False shim_readyD(1) [OF assms(1)] in \<open>auto simp: signalfd_impl_def\<close>)
qed (auto simp: signalfd_impl_def creates_refused [OF assms(1)] case_prod_beta)

section \<open>Properties\<close>

text \<open>C7: creating a descriptor. Each of \<open>epoll_create1\<close>, \<open>eventfd\<close>, \<open>timerfd_create\<close> and \<open>signalfd\<close> returns,
  with any arguments and whichever of its steps fails. On success the new descriptor refers to a new description with
  one reference, the requested flags and an initial context of the right kind (an empty interest list, the given
  counter, a disarmed timer of the given clock, the given signals), and every other descriptor refers to what it did before. On an error
  the table refers to the same descriptions as before and none is left behind.\<close>

theorem descriptor_creation:
  assumes "shim_ready S" "creates_fresh P S"
  shows "creates S epollfd_vtable fl (\<lambda>c. c = Ctx_epollfd empty_epollfd) (epoll_create1 P S fl w) \<and>
    creates S eventfd_vtable fl (\<lambda>c. \<exists>e. c = Ctx_eventfd e \<and> efd_counter e = ucast v) (eventfd_impl P S v fl w) \<and>
    creates S timerfd_vtable fl (\<lambda>c. \<exists>k. clockid = Some k \<and> c = Ctx_timerfd (timerfd_ctx_init k)) (timerfd_create_impl P S clockid fl w) \<and>
    creates S signalfd_vtable fl (\<lambda>c. \<exists>s. c = Ctx_signalfd s \<and> sigs = Some (sfd_sigs s)) (signalfd_impl P S fd sigs fl w)"
  using epoll_create1_creates [OF assms] eventfd_creates [OF assms] timerfd_create_creates [OF assms] signalfd_creates [OF assms] by blast

theorem descriptor_creation_witness:
  "\<exists>r S' w'. eventfd_impl (quiet_platform :: unit platform) empty_shim 5 0 () = Some (r, S', w') \<and>
     (\<forall>fd. r = Inr fd \<longrightarrow> (\<exists>a e. epoll_shim_ctx_find_desc_impl S' fd = Some a \<and>
        descs S' a = Some \<lparr>refcount = 1, desc_locked = False, desc_flags = 0, desc_ctx = Ctx_eventfd e, desc_vtable = Some eventfd_vtable\<rparr> \<and>
        efd_counter e = 5))"
proof -
  have "shim_ready empty_shim" by (simp add: shim_ready_def empty_shim_def table_live_def)
  moreover have "creates_fresh (quiet_platform :: unit platform) empty_shim"
    by (simp add: creates_fresh_def empty_shim_def epoll_shim_ctx_find_desc_impl_def int_limits)
  ultimately have c: "shim_ready empty_shim" "creates_fresh (quiet_platform :: unit platform) empty_shim" by blast+
  have "creates empty_shim eventfd_vtable 0 (\<lambda>c. \<exists>e. c = Ctx_eventfd e \<and> efd_counter e = ucast (5 :: 32 word))
      (eventfd_impl (quiet_platform :: unit platform) empty_shim 5 0 ())"
    by (rule descriptor_creation [OF c, THEN conjunct2, THEN conjunct1])
  then obtain r S' w' where r: "eventfd_impl (quiet_platform :: unit platform) empty_shim 5 0 () = Some (r, S', w')"
    "case r of Inl _ \<Rightarrow> not_opened empty_shim S'
      | Inr fd \<Rightarrow> \<exists>c. (\<exists>e. c = Ctx_eventfd e \<and> efd_counter e = ucast (5 :: 32 word)) \<and> opened empty_shim fd
         \<lparr>refcount = 1, desc_locked = False, desc_flags = 0 AND O_NONBLOCK, desc_ctx = c, desc_vtable = Some eventfd_vtable\<rparr> S'"
    unfolding creates_def by blast
  then show ?thesis by (intro exI [of _ r] exI [of _ S'] exI [of _ w']) (cases r, auto simp: opened_def)
qed

end
