(* ===== verification/Epollfd_Wait.thy ===== *)
theory Epollfd_Wait
  imports Epollfd_Ctl
begin

text \<open>
  The properties of waiting on an epoll context. One pass takes a batch of kevents in, completes the
  events of the descriptors it found, and copies the results out. The batch is what kevent(2) may
  return given the registered filters; under that hypothesis a pass returns, stays within the buffer of
  the caller, reports every descriptor at most once and only with events it was registered for, and
  leaves the context well-formed with the same interest list.
\<close>

section \<open>What a delivered kevent leaves alone\<close>

definition stays :: "RegisteredFDsNode \<Rightarrow> RegisteredFDsNode \<Rightarrow> bool" where
  "stays n n' \<longleftrightarrow>
     node_fd n' = node_fd n \<and> node_data n' = node_data n \<and> events n' = events n \<and>
     needs_rdhup_translation n' = needs_rdhup_translation n \<and>
     is_edge_triggered n' = is_edge_triggered n \<and> is_oneshot n' = is_oneshot n \<and>
     is_registered n' = is_registered n \<and>
     fifo_readable n' = fifo_readable n \<and> fifo_writable n' = fifo_writable n \<and>
     (node_type n' = node_type n \<or>
      node_type n = NODE_TYPE_OTHER \<and> events n = 0 \<and> node_type n' = NODE_TYPE_POLL)"

lemma stays_refl [simp]: "stays n n"
  by (simp add: stays_def)

lemma stays_trans: "stays a b \<Longrightarrow> stays b c \<Longrightarrow> stays a c"
  by (auto simp: stays_def)

lemma same_request_stays: "same_request n n' \<Longrightarrow> stays n n'"
  by (simp add: same_request_def stays_def)

lemma stays_interest: "stays n n' \<Longrightarrow> interest_of_node n' = interest_of_node n"
  by (simp add: stays_def interest_of_node_def)

lemma stays_detached [simp]: "stays n (detached n)"
  by (simp add: stays_def detached_def)

lemma restrict_bits_id:
  assumes "subset_bits (ucast (es :: 16 word) :: 32 word) (EPOLLIN OR EPOLLOUT)" "rdhup_ok P"
  shows "es AND NOT (ucast (EPOLLRDHUP P)) AND NOT (ucast EPOLLPRI) = es"
proof (rule bit_word_eqI)
  fix i assume i: "i < LENGTH(16)"
  have "bit EPOLLOUT i \<Longrightarrow> i = 2" using bit_exp_iff [where 'a = "32 word", of 2 i] by simp
  then have "bit es i \<longrightarrow> i = 0 \<or> i = 2"
    using assms(1) [unfolded subset_bits_iff bit_or_iff, rule_format, of i] i
    by (auto simp: bit_unsigned_iff bit_1_iff)
  moreover have "\<not> bit (EPOLLRDHUP P) 0" "\<not> bit (EPOLLRDHUP P) 2"
    using assms(2) has_bits_exp [of "EPOLLRDHUP P" 0] has_bits_exp [of "EPOLLRDHUP P" 2]
    by (simp_all add: rdhup_ok_def)
  moreover have "\<not> bit EPOLLPRI 0" "\<not> bit EPOLLPRI 2" by simp_all
  ultimately show "bit (es AND NOT (ucast (EPOLLRDHUP P)) AND NOT (ucast EPOLLPRI)) i \<longleftrightarrow> bit es i"
    by (auto simp: bit_and_iff bit_not_iff bit_unsigned_iff)
qed

lemma restrict_events_id: "node_wf P n \<Longrightarrow> rdhup_ok P \<Longrightarrow> restrict_events P n = n"
  using restrict_bits_id [of "events n" P] unfolding restrict_events_def node_wf_def by auto

text \<open>The filters of a node of unknown kind do not depend on its end-of-file state once events are requested.\<close>

lemma needed_filters_other:
  assumes "same_request n0 n" "node_type n0 = NODE_TYPE_OTHER" "events n0 \<noteq> 0"
  shows "get_needed_filters P n = get_needed_filters P n0"
  using assms
  by (simp add: get_needed_filters_def needed_by_type_def needed_other_def same_request_def)

lemma register_again_step:
  assumes "platform_ok P" "rdhup_ok P" "epoll_inv P e" "nodes e a = Some n" "is_registered n"
  obtains r e' w' n' where "epollfd_ctx__register_events P e kq a w = Some (r, e', w')" "epoll_inv P e'"
    "touches a e e'" "nodes e' a = Some n'" "kept n n'"
proof -
  have r: "restrict_events P n = n"
    using restrict_events_id [OF node_ok_wf [OF epoll_inv_node [OF assms(3,4)]] assms(2)] .
  have "set_node a n e = e" using assms(4) by (simp add: set_node_def fun_upd_idem)
  then have inv: "epoll_inv P (set_node a (restrict_events P n) e)" using assms(3) r by simp
  show thesis
    by (rule register_events_step [OF assms(1) inv assms(4), of kq w]) (use assms(5) r that in simp_all)
qed

lemma kept_stays: "kept n n' \<Longrightarrow> node_type n = NODE_TYPE_OTHER \<longrightarrow> events n = 0 \<Longrightarrow> stays n n'"
  by (auto simp: kept_def stays_def)

lemma refresh_step:
  assumes "platform_ok P" "rdhup_ok P" "epoll_inv P e" "nodes e a = Some n" "is_registered n"
    and "get_needed_filters P n0 = Some old" "same_request n0 n"
  obtains e' w' n' where "refresh_filters P kq a old e w = Some (e', w')" "epoll_inv P e'"
    "touches a e e'" "nodes e' a = Some n'" "stays n n'" "revents n' = revents n"
proof -
  obtain new where new: "get_needed_filters P n = Some new"
    using get_needed_filters_total [OF node_ok_wf [OF epoll_inv_node [OF assms(3,4)]]] by blast
  let ?c = "node_type n \<noteq> NODE_TYPE_POLL \<and>
      \<not> (is_edge_triggered n \<and> eof_state n = EOF_STATE_BOTH \<and> node_type n \<noteq> NODE_TYPE_FIFO) \<and>
      (evfilt_read old \<noteq> evfilt_read new \<or> evfilt_write old \<noteq> evfilt_write new)"
  show thesis
  proof (cases ?c)
    case False
    then have "refresh_filters P kq a old e w = Some (e, w)"
      using assms(4) new by (auto simp: refresh_filters_def)
    then show thesis using that assms(3,4) by simp
  next
    case True
    have other: "node_type n = NODE_TYPE_OTHER \<longrightarrow> events n = 0"
    proof (intro impI, rule ccontr)
      assume "node_type n = NODE_TYPE_OTHER" "events n \<noteq> 0"
      then have "get_needed_filters P n = get_needed_filters P n0"
        using needed_filters_other [OF assms(7)] assms(7) by (simp add: same_request_def)
      then show False using True assms(6) new by simp
    qed
    obtain r e1 w1 n1 where g: "epollfd_ctx__register_events P e kq a w = Some (r, e1, w1)"
      and e1: "epoll_inv P e1" "touches a e e1" "nodes e1 a = Some n1" "kept n n1"
      by (rule register_again_step [OF assms(1-5)])
    have s: "stays n n1" using kept_stays [OF e1(4) other] .
    have rv: "revents n1 = revents n" using e1(4) by (simp add: kept_def)
    obtain e2 w2 where d: "epollfd_ctx__remove_node_from_kq P e1 kq a w1 = Some (e2, w2)"
      and e2: "epoll_inv P e2" "touches a e1 e2" "nodes e2 a = Some (detached n1)"
      using remove_node_from_kq_step [OF assms(1) e1(1,3)] by blast
    have "refresh_filters P kq a old e w = (case r of Inr _ \<Rightarrow> Some (e1, w1) | Inl _ \<Rightarrow> Some (e2, w2))"
      using True assms(4) new g d by (auto simp: refresh_filters_def split: sum.splits)
    moreover have "stays n (detached n1)" "revents (detached n1) = revents n"
      using stays_trans [OF s stays_detached] rv by (simp_all add: detached_def)
    ultimately show thesis
      using that [of e1 w1 n1] that [of e2 w2 "detached n1"] e1 e2 s rv touches_trans [OF e1(2) e2(2)]
      by (cases r) auto
  qed
qed

lemma feed_poll_keeps_write:
  assumes "registered_fds_node_feed_event P a n kq kev w = Some (n', w')" "node_type n = NODE_TYPE_POLL"
  shows "has_evfilt_write n' = has_evfilt_write n"
  using assms
  by (auto simp: registered_fds_node_feed_event_def feed_poll_def bind_c_assert_eq_Some Let_def
      maybe_translate_props split: Option.bind_splits prod.splits if_splits)

lemma feed_event_node_ok:
  assumes "platform_ok P" "node_ok P polls a n" "delivery_ok P n kev"
  obtains n' w' where "registered_fds_node_feed_event P a n kq kev w = Some (n', w')"
    "node_ok P polls a n'" "same_request n n'"
proof -
  have wf: "node_wf P n" "revents_ok n" using assms(2) by (simp_all add: node_ok_def)
  obtain n' w' where f: "registered_fds_node_feed_event P a n kq kev w = Some (n', w')" and k: "feed_keeps P n n'"
    using feed_event_keeps [OF wf assms(3) platform_okD(2,3) [OF assms(1)]] by blast
  have s: "same_request n n'" "node_wf P n'" "revents_ok n'" using k by (simp_all add: feed_keeps_def)
  have "node_type n = NODE_TYPE_POLL \<longrightarrow> \<not> has_evfilt_write n'"
    using feed_poll_keeps_write [OF f] assms(2) by (auto simp: node_ok_def)
  then have "node_ok P polls a n'" using s assms(2) by (auto simp: node_ok_def same_request_def)
  then show thesis using that f s(1) by blast
qed

section \<open>Batches\<close>

definition trigger_filter :: "'w platform \<Rightarrow> kfilter" where
  "trigger_filter P = (if cfg_EVFILT_USER P then EVFILT_USER else EVFILT_READ)"

text \<open>
  A kevent that is still to be fed into a node. A node that only supports poll gets its trigger; a kqueue,
  and a descriptor of unknown kind for which nothing is requested, is watched with the read filter
  only. No system has both \<open>EVFILT_EXCEPT\<close> and a \<open>POLLRDHUP\<close> of its own.
\<close>

definition due :: "'w platform \<Rightarrow> RegisteredFDsNode \<Rightarrow> kevent \<Rightarrow> bool" where
  "due P n k \<longleftrightarrow>
     delivery_ok P n k \<and>
     (node_type n = NODE_TYPE_POLL \<longrightarrow> kev_filter k = trigger_filter P) \<and>
     (node_type n = NODE_TYPE_KQUEUE \<or> node_type n = NODE_TYPE_OTHER \<and> events n = 0 \<longrightarrow>
        kev_filter k = EVFILT_READ) \<and>
     (needs_rdhup_translation n \<longrightarrow> kev_filter k \<noteq> EVFILT_EXCEPT)"

definition watched :: "RegisteredFDsNode \<Rightarrow> kfilter \<Rightarrow> bool" where
  "watched n f \<longleftrightarrow>
     (f = EVFILT_READ \<longrightarrow> has_evfilt_read n) \<and> (f = EVFILT_WRITE \<longrightarrow> has_evfilt_write n) \<and>
     (f = EVFILT_EXCEPT \<longrightarrow> has_evfilt_except n)"

definition kev_key :: "kevent \<Rightarrow> addr option \<times> kfilter" where
  "kev_key k = (kev_udata k, kev_filter k)"

text \<open>
  What kevent(2) returns for the filters of a context: every filter of a descriptor at most once, only
  filters that are registered, and the trigger of the context itself without a node.
\<close>

definition batch_ok :: "'w platform \<Rightarrow> EpollFDCtx \<Rightarrow> kevent list \<Rightarrow> bool" where
  "batch_ok P e ks \<longleftrightarrow>
     distinct (map kev_key ks) \<and>
     (\<forall>k \<in> set ks. case kev_udata k of
          None \<Rightarrow> kev_filter k = trigger_filter P
        | Some a \<Rightarrow> (case nodes e a of
              None \<Rightarrow> False
            | Some n \<Rightarrow> due P n k \<and>
                (node_type n \<noteq> NODE_TYPE_POLL \<and> \<not> is_fifo_self_trigger P n k \<longrightarrow> watched n (kev_filter k))))"

text \<open>
  The self trigger of a fifo is told from its other kevents by its filter. Where the system has no
  \<open>EVFILT_USER\<close> it is told by the number of a pipe, and contexts with fifos are left out.
\<close>

definition fifos_ok :: "'w platform \<Rightarrow> EpollFDCtx \<Rightarrow> bool" where
  "fifos_ok P e \<longleftrightarrow> cfg_EVFILT_USER P \<or> (\<forall>a n. nodes e a = Some n \<longrightarrow> node_type n \<noteq> NODE_TYPE_FIFO)"

lemma due_delivery: "due P n k \<Longrightarrow> delivery_ok P n k"
  unfolding due_def by blast

lemma delivery_regular:
  assumes "node_type n \<noteq> NODE_TYPE_POLL" "\<not> is_fifo_self_trigger P n k"
  shows "delivery_ok P n k \<longleftrightarrow>
    feed_filter_ok P (kev_filter k) \<and> kev_ident k = node_fd n \<and>
    (kev_filter k = EVFILT_EXCEPT \<longrightarrow> node_type n = NODE_TYPE_SOCKET \<and> has_bits (kev_fflags k) NOTE_OOB) \<and>
    (node_type n = NODE_TYPE_KQUEUE \<longrightarrow> \<not> has_bits (kev_flags k) EV_EOF) \<and>
    (node_type n = NODE_TYPE_FIFO \<and> kev_filter k = EVFILT_WRITE \<longrightarrow> fifo_writable n)"
  using assms unfolding delivery_ok_def by presburger

lemma due_filter_ok:
  assumes "due P n k" "node_type n \<noteq> NODE_TYPE_POLL" "\<not> is_fifo_self_trigger P n k"
  shows "feed_filter_ok P (kev_filter k)"
  using due_delivery [OF assms(1)] unfolding delivery_regular [OF assms(2,3)] by blast

lemma due_pair:
  assumes "due P n k" "due P n k'" "kev_filter k \<noteq> kev_filter k'"
    and "kev_filter k = EVFILT_USER \<longleftrightarrow> kev_filter k' = EVFILT_USER"
  shows "node_type n \<noteq> NODE_TYPE_POLL" "node_type n \<noteq> NODE_TYPE_KQUEUE"
    "\<not> (node_type n = NODE_TYPE_OTHER \<and> events n = 0)"
    "kev_filter k \<noteq> EVFILT_USER" "kev_filter k' \<noteq> EVFILT_USER"
  using assms unfolding due_def by metis+

lemma not_self_trigger:
  assumes "cfg_EVFILT_USER P \<or> node_type n \<noteq> NODE_TYPE_FIFO" "kev_filter k \<noteq> EVFILT_USER"
  shows "\<not> is_fifo_self_trigger P n k"
  using assms by (auto simp: is_fifo_self_trigger_def)

lemma due_stays:
  assumes "due P n k" "stays n n'" "kev_filter k \<noteq> EVFILT_USER"
    and "cfg_EVFILT_USER P \<or> node_type n \<noteq> NODE_TYPE_FIFO"
    and "node_type n \<noteq> NODE_TYPE_POLL" "\<not> (node_type n = NODE_TYPE_OTHER \<and> events n = 0)"
  shows "due P n' k"
proof -
  have ty: "node_type n' = node_type n" using assms(2,6) by (auto simp: stays_def)
  have s: "\<not> is_fifo_self_trigger P n k" "\<not> is_fifo_self_trigger P n' k"
    using not_self_trigger [OF assms(4,3)] not_self_trigger [of P n' k] assms(3,4) ty by simp_all
  have eq: "node_fd n' = node_fd n" "events n' = events n" "fifo_writable n' = fifo_writable n"
    "needs_rdhup_translation n' = needs_rdhup_translation n"
    using assms(2) by (simp_all add: stays_def)
  have "delivery_ok P n' k = delivery_ok P n k"
    using delivery_regular [OF assms(5) s(1)] delivery_regular [OF _ s(2)] assms(5) unfolding ty eq by blast
  then show ?thesis using assms(1) unfolding due_def ty eq by blast
qed

text \<open>With the translation of \<open>EPOLLRDHUP\<close> a node has two filters, so the rest of a batch has at most one more.\<close>

lemma due_translated:
  assumes "due P n k" "kev_filter k \<noteq> EVFILT_USER" "needs_rdhup_translation n"
    and "cfg_EVFILT_USER P \<or> node_type n \<noteq> NODE_TYPE_FIFO" "node_type n \<noteq> NODE_TYPE_POLL"
  shows "kev_filter k = EVFILT_READ \<or> kev_filter k = EVFILT_WRITE"
proof -
  have "feed_filter_ok P (kev_filter k)"
    using due_filter_ok [OF assms(1,5) not_self_trigger [OF assms(4,2)]] .
  moreover have "kev_filter k \<noteq> EVFILT_EXCEPT" using assms(1,3) unfolding due_def by blast
  ultimately show ?thesis by (auto simp: feed_filter_ok_def)
qed

section \<open>The loop over a batch\<close>

definition evolves :: "EpollFDCtx \<Rightarrow> EpollFDCtx \<Rightarrow> bool" where
  "evolves e e' \<longleftrightarrow>
     registered_fds e' = registered_fds e \<and> registered_fds_size e' = registered_fds_size e \<and>
     kevs_length e' = kevs_length e \<and> (\<forall>a. rel_option stays (nodes e a) (nodes e' a))"

lemma evolves_refl [simp]: "evolves e e"
  by (simp add: evolves_def option.rel_refl)

lemma evolves_trans: "evolves e f \<Longrightarrow> evolves f g \<Longrightarrow> evolves e g"
  unfolding evolves_def by (metis (no_types, lifting) option.rel_sel stays_trans)

lemma evolves_node: "evolves e e' \<Longrightarrow> nodes e a = Some n \<Longrightarrow> \<exists>n'. nodes e' a = Some n' \<and> stays n n'"
  unfolding evolves_def by (metis option_rel_Some1)

lemma touches_evolves:
  assumes "touches a e e'" "nodes e a = Some n" "nodes e' a = Some n'" "stays n n'"
  shows "evolves e e'"
proof -
  have "rel_option stays (nodes e b) (nodes e' b)" for b
    using assms by (cases "b = a") (simp_all add: touches_def option.rel_refl)
  then show ?thesis using assms(1) by (simp add: touches_def evolves_def)
qed

lemma evolves_fifos:
  assumes "evolves e e'" "fifos_ok P e"
  shows "fifos_ok P e'"
proof -
  have "\<exists>n. nodes e a = Some n \<and> stays n n'" if "nodes e' a = Some n'" for a n'
    using assms(1) that unfolding evolves_def by (metis option_rel_Some2)
  then have "\<exists>n. nodes e a = Some n \<and> node_type n = NODE_TYPE_FIFO" if "nodes e' a = Some n'" "node_type n' = NODE_TYPE_FIFO" for a n'
    using that unfolding stays_def by fastforce
  then show ?thesis using assms(2) unfolding fifos_ok_def by blast
qed

text \<open>Pending events of these nodes are never taken back by a later kevent.\<close>

definition only_adds :: "RegisteredFDsNode \<Rightarrow> bool" where
  "only_adds n \<longleftrightarrow> node_type n \<noteq> NODE_TYPE_KQUEUE \<and> \<not> needs_rdhup_translation n"

definition kevs_due :: "'w platform \<Rightarrow> EpollFDCtx \<Rightarrow> kevent list \<Rightarrow> bool" where
  "kevs_due P e ks \<longleftrightarrow>
     distinct (map kev_key ks) \<and>
     (\<forall>k \<in> set ks. case kev_udata k of
          None \<Rightarrow> kev_filter k = trigger_filter P
        | Some a \<Rightarrow> (\<exists>n. nodes e a = Some n \<and> due P n k)) \<and>
     (\<forall>k \<in> set ks. \<forall>k' \<in> set ks. kev_udata k = kev_udata k' \<and> kev_udata k \<noteq> None \<longrightarrow>
        (kev_filter k = EVFILT_USER \<longleftrightarrow> kev_filter k' = EVFILT_USER))"

definition ready_ok :: "EpollFDCtx \<Rightarrow> addr list \<Rightarrow> kevent list \<Rightarrow> bool" where
  "ready_ok e js ks \<longleftrightarrow>
     distinct js \<and> set js \<subseteq> dom (nodes e) \<and>
     (\<forall>a n. nodes e a = Some n \<longrightarrow> is_registered n \<and> (revents n \<noteq> 0 \<longrightarrow> a \<in> set js)) \<and>
     (\<forall>a \<in> set js. \<forall>k \<in> set ks. kev_udata k = Some a \<longrightarrow>
        (\<exists>n. nodes e a = Some n \<and> revents n \<noteq> 0 \<and>
             (only_adds n \<or> (\<forall>k' \<in> set ks. kev_udata k' = Some a \<longrightarrow> k' = k))))"

definition room :: "EpollFDCtx \<Rightarrow> nat \<Rightarrow> addr list \<Rightarrow> kevent list \<Rightarrow> bool" where
  "room e cap js ks \<longleftrightarrow> registered_fds_size e \<le> cap \<or> length js + length ks \<le> cap"

lemma batch_ok_due:
  assumes "batch_ok P e ks" "fifos_ok P e"
  shows "kevs_due P e ks"
proof -
  have n: "\<exists>n. nodes e a = Some n \<and> due P n k \<and>
      (node_type n \<noteq> NODE_TYPE_POLL \<and> \<not> is_fifo_self_trigger P n k \<longrightarrow> watched n (kev_filter k))"
    if "k \<in> set ks" "kev_udata k = Some a" for k a
  proof -
    have "case kev_udata k of None \<Rightarrow> kev_filter k = trigger_filter P
        | Some a \<Rightarrow> (case nodes e a of None \<Rightarrow> False
            | Some n \<Rightarrow> due P n k \<and>
                (node_type n \<noteq> NODE_TYPE_POLL \<and> \<not> is_fifo_self_trigger P n k \<longrightarrow> watched n (kev_filter k)))"
      using assms(1) that(1) unfolding batch_ok_def by blast
    then show ?thesis using that(2) by (cases "nodes e a") simp_all
  qed
  have "kev_filter k' = EVFILT_USER"
    if k: "k \<in> set ks" "k' \<in> set ks" "kev_udata k = kev_udata k'" "kev_udata k \<noteq> None" "kev_filter k = EVFILT_USER"
    for k k'
  proof -
    obtain a where a: "kev_udata k = Some a" "kev_udata k' = Some a" using k(3,4) by auto
    obtain m where m: "nodes e a = Some m" "due P m k" "due P m k'"
      "node_type m \<noteq> NODE_TYPE_POLL \<and> \<not> is_fifo_self_trigger P m k \<longrightarrow> watched m (kev_filter k)"
      "node_type m \<noteq> NODE_TYPE_POLL \<and> \<not> is_fifo_self_trigger P m k' \<longrightarrow> watched m (kev_filter k')"
      using n [OF k(1) a(1)] n [OF k(2) a(2)] by auto
    have cfg: "cfg_EVFILT_USER P \<or> node_type m \<noteq> NODE_TYPE_FIFO" using assms(2) m(1) by (auto simp: fifos_ok_def)
    show ?thesis
    proof (rule ccontr)
      assume u: "kev_filter k' \<noteq> EVFILT_USER"
      then have p: "node_type m \<noteq> NODE_TYPE_POLL" using m(2,3) k(5) unfolding due_def by metis
      have s: "\<not> is_fifo_self_trigger P m k'" using not_self_trigger [OF cfg u] .
      then have "feed_filter_ok P (kev_filter k')" "watched m (kev_filter k')"
        using due_filter_ok [OF m(3) p s] m(5) p s by blast+
      then have h: "has_evfilt_read m \<or> has_evfilt_write m \<or> has_evfilt_except m"
        by (auto simp: watched_def feed_filter_ok_def)
      then have "\<not> is_fifo_self_trigger P m k"
        using due_delivery [OF m(2)] p unfolding delivery_ok_def by presburger
      then have "feed_filter_ok P EVFILT_USER" using due_filter_ok [OF m(2) p] k(5) by simp
      then show False by (simp add: feed_filter_ok_def)
    qed
  qed
  then have u: "\<forall>k \<in> set ks. \<forall>k' \<in> set ks. kev_udata k = kev_udata k' \<and> kev_udata k \<noteq> None \<longrightarrow>
        (kev_filter k = EVFILT_USER \<longleftrightarrow> kev_filter k' = EVFILT_USER)"
    by metis
  have d: "case kev_udata k of None \<Rightarrow> kev_filter k = trigger_filter P
      | Some a \<Rightarrow> (\<exists>n. nodes e a = Some n \<and> due P n k)" if "k \<in> set ks" for k
  proof (cases "kev_udata k")
    case None
    then show ?thesis using bspec [OF conjunct2 [OF assms(1) [unfolded batch_ok_def]] that] by simp
  next
    case (Some a)
    then show ?thesis using n [OF that Some] by auto
  qed
  show ?thesis using assms(1) u d unfolding kevs_due_def batch_ok_def by blast
qed


lemma kevs_due_tail:
  assumes "kevs_due P e (k # ks)" "kev_udata k = Some a" "nodes e a = Some n" "k' \<in> set ks" "kev_udata k' = Some a"
  shows "due P n k" "due P n k'" "kev_filter k \<noteq> kev_filter k'"
    "kev_filter k = EVFILT_USER \<longleftrightarrow> kev_filter k' = EVFILT_USER"
proof -
  have d: "\<exists>n. nodes e a = Some n \<and> due P n q" if "q \<in> set (k # ks)" "kev_udata q = Some a" for q
  proof -
    have "case kev_udata q of None \<Rightarrow> kev_filter q = trigger_filter P
        | Some a \<Rightarrow> (\<exists>n. nodes e a = Some n \<and> due P n q)"
      using assms(1) that(1) unfolding kevs_due_def by blast
    then show ?thesis using that(2) by simp
  qed
  show "due P n k" "due P n k'" using d [of k] d [of k'] assms by auto
  have "kev_key k \<notin> kev_key ` set ks" using assms(1) by (simp add: kevs_due_def)
  then show "kev_filter k \<noteq> kev_filter k'" using assms(2,4,5) by (force simp: kev_key_def)
  show "kev_filter k = EVFILT_USER \<longleftrightarrow> kev_filter k' = EVFILT_USER"
    using assms(1,2,4,5) unfolding kevs_due_def by (metis list.set_intros(1,2) option.distinct(1))
qed

lemma kevs_due_step:
  assumes "kevs_due P e (k # ks)" "fifos_ok P e" "kev_udata k = Some a" "nodes e a = Some n"
    and "nodes e' a = Some n'" "stays n n'" "touches a e e'"
  shows "kevs_due P e' ks"
proof -
  have "case kev_udata q of None \<Rightarrow> kev_filter q = trigger_filter P
      | Some b \<Rightarrow> (\<exists>m. nodes e' b = Some m \<and> due P m q)" if q: "q \<in> set ks" for q
  proof (cases "kev_udata q = Some a")
    case True
    note t = kevs_due_tail [OF assms(1,3,4) q True]
    note p = due_pair [OF t]
    have "cfg_EVFILT_USER P \<or> node_type n \<noteq> NODE_TYPE_FIFO" using assms(2,4) by (auto simp: fifos_ok_def)
    then have "due P n' q" using due_stays [OF t(2) assms(6) p(5) _ p(1,3)] by blast
    then show ?thesis using True assms(5) by simp
  next
    case False
    have "case kev_udata q of None \<Rightarrow> kev_filter q = trigger_filter P
        | Some b \<Rightarrow> (\<exists>m. nodes e b = Some m \<and> due P m q)"
      using assms(1) q unfolding kevs_due_def by (meson list.set_intros(2))
    then show ?thesis using False assms(7) by (cases "kev_udata q") (auto simp: touches_def)
  qed
  then show ?thesis
    using assms(1) unfolding kevs_due_def list.map(2) distinct.simps list.set(2) by blast
qed

lemma kevs_due_Cons:
  assumes "kevs_due P e (k # ks)"
  shows "kevs_due P e ks" "kev_udata k = None \<Longrightarrow> kev_filter k = trigger_filter P"
    "kev_udata k = Some a \<Longrightarrow> \<exists>n. nodes e a = Some n \<and> due P n k"
proof -
  have c: "case kev_udata k of None \<Rightarrow> kev_filter k = trigger_filter P
      | Some b \<Rightarrow> (\<exists>m. nodes e b = Some m \<and> due P m k)"
    using assms unfolding kevs_due_def by (meson list.set_intros(1))
  show "kev_udata k = None \<Longrightarrow> kev_filter k = trigger_filter P"
    "kev_udata k = Some a \<Longrightarrow> \<exists>n. nodes e a = Some n \<and> due P n k" using c by simp_all
  show "kevs_due P e ks"
    using assms unfolding kevs_due_def list.map(2) distinct.simps list.set(2) by blast
qed

text \<open>The pending kevents of a node that is on the list of results.\<close>

lemma ready_pair:
  assumes "kevs_due P e (k # ks)" "fifos_ok P e" "kev_udata k = Some a" "nodes e a = Some n"
    and "q \<in> set ks" "kev_udata q = Some a" "\<not> only_adds n" "q' \<in> set ks" "kev_udata q' = Some a"
  shows "q' = q"
proof -
  note t = kevs_due_tail [OF assms(1,3,4)]
  note p = due_pair [OF t [OF assms(5,6)]] and p' = due_pair [OF t [OF assms(8,9)]]
  have c: "cfg_EVFILT_USER P \<or> node_type n \<noteq> NODE_TYPE_FIFO" using assms(2,4) by (auto simp: fifos_ok_def)
  have tr: "needs_rdhup_translation n" using assms(7) p(2) by (simp add: only_adds_def)
  have "kev_filter x = EVFILT_READ \<or> kev_filter x = EVFILT_WRITE" if "due P n x" "kev_filter x \<noteq> EVFILT_USER" for x
    using due_translated [OF that tr c p(1)] .
  then have "kev_filter q = kev_filter q'"
    using t(1,3) [OF assms(5,6)] t(2) [OF assms(5,6)] t(2,3) [OF assms(8,9)] p(4,5) p'(5) by metis
  then have "kev_key q' = kev_key q" using assms(6,9) by (simp add: kev_key_def)
  moreover have "distinct (map kev_key ks)" using assms(1) by (simp add: kevs_due_def)
  ultimately show ?thesis using assms(5,8) by (auto simp: distinct_map dest: inj_onD)
qed

lemma only_adds_stays: "stays n n' \<Longrightarrow> only_adds n' = only_adds n"
  by (auto simp: stays_def only_adds_def)

lemma touches_other: "touches a e e' \<Longrightarrow> b \<noteq> a \<Longrightarrow> nodes e' b = nodes e b"
  by (simp add: touches_def)

lemma ready_head:
  assumes "ready_ok e js (k # ks)" "kev_udata k = Some a" "nodes e a = Some n" "a \<in> set js"
  shows "revents n \<noteq> 0" "only_adds n \<or> (\<forall>k' \<in> set ks. kev_udata k' = Some a \<longrightarrow> k' = k)"
proof -
  have "\<exists>n. nodes e a = Some n \<and> revents n \<noteq> 0 \<and>
      (only_adds n \<or> (\<forall>k' \<in> set (k # ks). kev_udata k' = Some a \<longrightarrow> k' = k))"
    using assms(1,2,4) unfolding ready_ok_def by (meson list.set_intros(1))
  then show "revents n \<noteq> 0" "only_adds n \<or> (\<forall>k' \<in> set ks. kev_udata k' = Some a \<longrightarrow> k' = k)"
    using assms(3) by auto
qed

lemma ready_ok_step:
  assumes r: "ready_ok e js (k # ks)" and d: "kevs_due P e (k # ks)" "fifos_ok P e"
    and a: "kev_udata k = Some a" "nodes e a = Some n" "nodes e' a = Some n'" "stays n n'" "touches a e e'"
    and m: "only_adds n \<Longrightarrow> revents n \<noteq> 0 \<Longrightarrow> revents n' \<noteq> 0"
    and js': "js' = (if revents n' \<noteq> 0 \<and> revents n = 0 then js @ [a] else js)"
  shows "ready_ok e' js' ks"
proof -
  have new: "a \<notin> set js" if "revents n = 0" using ready_head(1) [OF r a(1,2)] that by blast
  have dj: "distinct js" "set js \<subseteq> dom (nodes e)" using r by (simp_all add: ready_ok_def)
  have set: "set js' = set js \<union> (if revents n' \<noteq> 0 \<and> revents n = 0 then {a} else {})" by (simp add: js')
  have other: "nodes e' b = nodes e b" if "b \<noteq> a" for b using touches_other [OF a(5) that] .
  have "distinct js'" using dj(1) new by (auto simp: js')
  moreover have "set js' \<subseteq> dom (nodes e')"
  proof
    fix b assume "b \<in> set js'"
    then show "b \<in> dom (nodes e')" using set dj(2) other [of b] a(3) by (cases "b = a") (auto split: if_splits)
  qed
  moreover have "is_registered x \<and> (revents x \<noteq> 0 \<longrightarrow> b \<in> set js')" if x: "nodes e' b = Some x" for b x
  proof (cases "b = a")
    case True
    have "is_registered n \<and> (revents n \<noteq> 0 \<longrightarrow> a \<in> set js)" using r a(2) by (simp add: ready_ok_def)
    then show ?thesis using True x a(3,4) set by (auto simp: stays_def)
  next
    case False
    then show ?thesis using r x other set by (auto simp: ready_ok_def)
  qed
  moreover have "\<exists>x. nodes e' b = Some x \<and> revents x \<noteq> 0 \<and>
      (only_adds x \<or> (\<forall>q' \<in> set ks. kev_udata q' = Some b \<longrightarrow> q' = q))"
    if b: "b \<in> set js'" "q \<in> set ks" "kev_udata q = Some b" for b q
  proof (cases "b = a")
    case False
    then have "b \<in> set js" using b(1) set by (auto split: if_splits)
    then obtain x where "nodes e b = Some x" "revents x \<noteq> 0"
      "only_adds x \<or> (\<forall>q' \<in> set (k # ks). kev_udata q' = Some b \<longrightarrow> q' = q)"
      using r b(2,3) unfolding ready_ok_def by (meson list.set_intros(2))
    then show ?thesis using other [OF False] by auto
  next
    case True
    note q = b(2) b(3) [unfolded True]
    have pair: "\<forall>q' \<in> set ks. kev_udata q' = Some a \<longrightarrow> q' = q" if "\<not> only_adds n"
      using ready_pair [OF d a(1,2) q that] by blast
    have "revents n' \<noteq> 0"
    proof (cases "a \<in> set js")
      case on: True
      note h = ready_head [OF r a(1,2) on]
      have "q \<noteq> k" using kevs_due_tail(3) [OF d(1) a(1,2) q] by blast
      then show ?thesis using m h q by blast
    next
      case False
      then show ?thesis using b(1) True set by (simp split: if_splits)
    qed
    then show ?thesis using True a(3) pair only_adds_stays [OF a(4)] by blast
  qed
  ultimately show ?thesis unfolding ready_ok_def by blast
qed

lemma ready_bound:
  assumes "tree_ok e" "distinct js" "set js \<subseteq> dom (nodes e)"
  shows "length js \<le> registered_fds_size e"
proof -
  have "set js \<subseteq> snd ` set (registered_fds e)"
  proof
    fix a assume "a \<in> set js"
    then obtain n where "nodes e a = Some n" using assms(3) by blast
    then have "(node_fd n, a) \<in> set (registered_fds e)" using assms(1) by (simp add: tree_ok_def)
    then show "a \<in> snd ` set (registered_fds e)" by force
  qed
  then have "card (set js) \<le> card (snd ` set (registered_fds e))" by (simp add: card_mono)
  also have "\<dots> \<le> card (set (registered_fds e))" by (simp add: card_image_le)
  also have "\<dots> \<le> length (registered_fds e)" by (rule card_length)
  finally show ?thesis using assms(1,2) by (simp add: distinct_card tree_ok_def)
qed

text \<open>Pending events are kept, and an event of a filter that was asked for becomes pending.\<close>

definition gains :: "EpollFDCtx \<Rightarrow> EpollFDCtx \<Rightarrow> bool" where
  "gains e e' \<longleftrightarrow>
     (\<forall>a n. nodes e a = Some n \<and> only_adds n \<longrightarrow>
        (\<exists>n'. nodes e' a = Some n' \<and> only_adds n' \<and> subset_bits (revents n) (revents n')))"

lemma gains_refl [simp]: "gains e e"
  by (simp add: gains_def)

lemma gains_trans: "gains e f \<Longrightarrow> gains f g \<Longrightarrow> gains e g"
  unfolding gains_def by (meson subset_bits_trans)

lemma gains_update:
  assumes "touches a e e'" "nodes e a = Some n" "nodes e' a = Some n'" "stays n n'"
    and "only_adds n \<Longrightarrow> subset_bits (revents n) (revents n')"
  shows "gains e e'"
  unfolding gains_def
proof (intro allI impI)
  fix b m assume b: "nodes e b = Some m \<and> only_adds m"
  then show "\<exists>n'. nodes e' b = Some n' \<and> only_adds n' \<and> subset_bits (revents m) (revents n')"
    using assms touches_other [OF assms(1), of b] only_adds_stays [OF assms(4)] by (cases "b = a") simp_all
qed

definition wanted :: "RegisteredFDsNode \<Rightarrow> kevent \<Rightarrow> 32 word \<Rightarrow> bool" where
  "wanted n k b \<longleftrightarrow>
     only_adds n \<and> (node_type n = NODE_TYPE_SOCKET \<or> node_type n = NODE_TYPE_OTHER) \<and> has_bits (events32 n) b \<and>
     (kev_filter k = EVFILT_READ \<and> b = EPOLLIN \<or> kev_filter k = EVFILT_WRITE \<and> b = EPOLLOUT)"

lemma wanted_stays:
  assumes "stays n n'" "wanted n k b"
  shows "wanted n' k b"
proof -
  have "events n \<noteq> 0" using assms(2) by (auto simp: wanted_def)
  then show ?thesis using assms only_adds_stays [OF assms(1)] by (auto simp: wanted_def stays_def)
qed

lemma feed_wanted:
  assumes "registered_fds_node_feed_event P a n kq k w = Some (n', w')" "wanted n k b"
  shows "has_bits (revents n') b"
proof -
  obtain rv0 n1 w1 where d: "feed_filter_revents P n k w = (rv0, n1, w1)" by (metis prod_cases3)
  obtain p where n1: "n1 = n\<lparr>pollpri_active := p\<rparr>" using feed_filter_revents_props [OF d] by auto
  define n2 where "n2 = n1\<lparr>eof_state := feed_eof_state n1 k\<rparr>"
  have ty: "node_type n = NODE_TYPE_SOCKET \<or> node_type n = NODE_TYPE_OTHER" and tr: "\<not> needs_rdhup_translation n"
    and b: "has_bits (events32 n) b" using assms(2) by (simp_all add: wanted_def only_adds_def)
  have f: "kev_filter k \<noteq> EVFILT_EXCEPT" using assms(2) by (auto simp: wanted_def)
  have rv0: "subset_bits b rv0"
    using assms(2) d
    by (auto simp: wanted_def feed_filter_revents_def subset_bits_orI split: prod.splits if_splits)
  have "\<not> is_fifo_self_trigger P n k" using ty by (auto simp: is_fifo_self_trigger_def)
  then obtain m where m: "feed_read_write P n k w = Some (m, w')" "n' = maybe_translate_rdhup P m"
    using assms(1) ty f
    by (auto simp: registered_fds_node_feed_event_def bind_c_assert_eq_Some split: if_splits Option.bind_splits)
  have "\<exists>rv. feed_out P n2 k rv w1 = (m, w') \<and> subset_bits b rv"
    using m(1) ty rv0 unfolding feed_read_write_def d Let_def prod.case n2_def [symmetric]
    by (auto simp: feed_eof_events_def n2_def n1 subset_bits_orI split: if_splits)
  then obtain rv where o: "feed_out P n2 k rv w1 = (m, w')" "subset_bits b rv" by blast
  have "revents m = (revents n OR rv) AND node_mask n"
    using feed_out_props(5) [OF o(1)] ty by (auto simp: n2_def n1)
  moreover have "needs_rdhup_translation m = needs_rdhup_translation n"
    using feed_out_props(1) [OF o(1)] by (simp add: same_request_def n2_def n1)
  ultimately have "revents n' = (revents n OR rv) AND node_mask n" using m(2) tr by (simp add: maybe_translate_rdhup_def)
  then show ?thesis
    using o(2) b by (auto simp: has_bits_iff subset_bits_iff bit_and_iff bit_or_iff)
qed

lemma wait_feed_one_step:
  assumes "platform_ok P" "rdhup_ok P" "fifos_ok P e" "epoll_inv P e" "kevs_due P e (k # ks)"
    and "ready_ok e js (k # ks)" "room e cap js (k # ks)"
  obtains js' e' w' where "wait_feed_one P kq cap k js e w = Some (js', e', w')" "epoll_inv P e'" "evolves e e'"
    "kevs_due P e' ks" "ready_ok e' js' ks" "room e' cap js' ks" "gains e e'"
    "\<forall>a n b. kev_udata k = Some a \<and> nodes e a = Some n \<and> wanted n k b \<longrightarrow>
       (\<exists>n'. nodes e' a = Some n' \<and> only_adds n' \<and> has_bits (revents n') b)"
proof (cases "kev_udata k")
  case None
  then have "wait_feed_one P kq cap k js e w = Some (js, e, w)"
    using kevs_due_Cons(2) [OF assms(5) None] by (simp add: wait_feed_one_def trigger_filter_def)
  moreover have "ready_ok e js ks" using assms(6) unfolding ready_ok_def by (meson list.set_intros(2))
  moreover have "room e cap js ks" using assms(7) by (auto simp: room_def)
  ultimately show thesis using that [of js e w] assms(4) kevs_due_Cons(1) [OF assms(5)] None by simp
next
  case (Some a)
  then obtain n where n: "nodes e a = Some n" and dn: "due P n k" using kevs_due_Cons(3) [OF assms(5)] by blast
  note ok = epoll_inv_node [OF assms(4) n]
  have reg: "is_registered n" using assms(6) n by (simp add: ready_ok_def)
  obtain old where old: "get_needed_filters P n = Some old" using get_needed_filters_total [OF node_ok_wf [OF ok]] by blast
  obtain n1 w1 where f: "registered_fds_node_feed_event P a n kq k w = Some (n1, w1)"
    and n1: "node_ok P (poll_fds e) a n1" "same_request n n1"
    by (rule feed_event_node_ok [OF assms(1) ok due_delivery [OF dn]])
  let ?e = "set_node a n1 e"
  have inv: "epoll_inv P ?e"
    by (rule epoll_inv_set_node [OF assms(4) n _ n1(1)]) (use n1(2) in \<open>simp add: same_request_def\<close>)
  obtain e2 w2 n2 where g: "refresh_filters P kq a old ?e w1 = Some (e2, w2)" and e2: "epoll_inv P e2"
    and t: "touches a ?e e2" and n2: "nodes e2 a = Some n2" "stays n1 n2" "revents n2 = revents n1"
    by (rule refresh_step [OF assms(1,2) inv _ _ old n1(2), of a kq w1]) (use n1(2) reg in \<open>simp_all add: same_request_def\<close>)
  have t2: "touches a e e2" using t touches_set_node touches_trans by blast
  have st: "stays n n2" using stays_trans [OF same_request_stays [OF n1(2)] n2(2)] .
  have ev: "evolves e e2" using touches_evolves [OF t2 n n2(1) st] .
  have sub: "subset_bits (revents n) (revents n2)" if "only_adds n"
    using feed_event_mono [OF f] that ok n2(3) by (simp add: only_adds_def node_ok_def)
  then have mono: "revents n2 \<noteq> 0" if "only_adds n" "revents n \<noteq> 0" using that subset_bits_nonzero by blast
  have gain: "gains e e2" by (rule gains_update [OF t2 n n2(1) st sub])
  have want: "\<exists>n'. nodes e2 a = Some n' \<and> only_adds n' \<and> has_bits (revents n') b" if "wanted n k b" for b
    using feed_wanted [OF f that] that n2(1,3) only_adds_stays [OF st] by (simp add: wanted_def)
  define js' where "js' = (if revents n2 \<noteq> 0 \<and> revents n = 0 then js @ [a] else js)"
  have rd: "ready_ok e2 js' ks"
    by (rule ready_ok_step [OF assms(6,5,3) Some n n2(1) st t2 mono js'_def])
  have rm: "room e2 cap js' ks" using assms(7) t2 by (auto simp: room_def js'_def touches_def)
  have "tree_ok e2" using e2 by (simp add: epoll_inv_def)
  then have len: "length js' \<le> registered_fds_size e2" using ready_bound rd by (simp add: ready_ok_def)
  have bound: "length js < cap" if "revents n2 \<noteq> 0 \<and> revents n = 0"
    using rm len that by (auto simp: room_def js'_def)
  have "wait_feed_one P kq cap k js e w = Some (js', e2, w2)"
    using Some n old f g n2(1) bound by (auto simp: wait_feed_one_def js'_def)
  moreover have "\<forall>c m b. kev_udata k = Some c \<and> nodes e c = Some m \<and> wanted m k b \<longrightarrow>
      (\<exists>n'. nodes e2 c = Some n' \<and> only_adds n' \<and> has_bits (revents n') b)"
    using want Some n by auto
  ultimately show thesis using that e2 ev kevs_due_step [OF assms(5,3) Some n n2(1) st t2] rd rm gain by blast
qed

definition all_pending :: "EpollFDCtx \<Rightarrow> kevent list \<Rightarrow> EpollFDCtx \<Rightarrow> bool" where
  "all_pending e ks e' \<longleftrightarrow>
     (\<forall>k \<in> set ks. \<forall>a n b. kev_udata k = Some a \<and> nodes e a = Some n \<and> wanted n k b \<longrightarrow>
        (\<exists>n'. nodes e' a = Some n' \<and> only_adds n' \<and> has_bits (revents n') b))"

lemma all_pending_gains: "all_pending e ks e1 \<Longrightarrow> gains e1 e2 \<Longrightarrow> all_pending e ks e2"
  unfolding all_pending_def gains_def by (meson has_bits_subset)

lemma all_pending_Cons:
  assumes "all_pending e [k] e'" "all_pending e1 ks e'" "evolves e e1"
  shows "all_pending e (k # ks) e'"
proof -
  have "\<exists>n'. nodes e' a = Some n' \<and> only_adds n' \<and> has_bits (revents n') b"
    if "q \<in> set ks" "kev_udata q = Some a" "nodes e a = Some n" "wanted n q b" for q a n b
    using assms(2) that evolves_node [OF assms(3) that(3)] wanted_stays unfolding all_pending_def by blast
  then show ?thesis using assms(1) unfolding all_pending_def by auto
qed

lemma wait_feed_step:
  assumes "platform_ok P" "rdhup_ok P" "fifos_ok P e" "epoll_inv P e" "kevs_due P e ks"
    and "ready_ok e js ks" "room e cap js ks"
  shows "\<exists>js' e' w'. wait_feed P kq cap ks js e w = Some (js', e', w') \<and> epoll_inv P e' \<and> evolves e e' \<and>
    ready_ok e' js' [] \<and> room e' cap js' [] \<and> gains e e' \<and> all_pending e ks e'"
  using assms(3-7)
proof (induction ks arbitrary: js e w)
  case Nil
  then show ?case by (simp add: all_pending_def)
next
  case (Cons k ks)
  obtain js1 e1 w1 where f: "wait_feed_one P kq cap k js e w = Some (js1, e1, w1)"
    and e1: "epoll_inv P e1" "evolves e e1" "kevs_due P e1 ks" "ready_ok e1 js1 ks" "room e1 cap js1 ks"
    and g: "gains e e1" and p: "\<forall>a n b. kev_udata k = Some a \<and> nodes e a = Some n \<and> wanted n k b \<longrightarrow>
       (\<exists>n'. nodes e1 a = Some n' \<and> only_adds n' \<and> has_bits (revents n') b)"
    by (rule wait_feed_one_step [OF assms(1,2) Cons.prems])
  obtain js2 e2 w2 where r: "wait_feed P kq cap ks js1 e1 w1 = Some (js2, e2, w2)" "epoll_inv P e2" "evolves e1 e2"
    "ready_ok e2 js2 []" "room e2 cap js2 []" "gains e1 e2" "all_pending e1 ks e2"
    using Cons.IH [OF evolves_fifos [OF e1(2) Cons.prems(1)] e1(1,3-5), of w1] by blast
  have "all_pending e [k] e1" using p by (simp add: all_pending_def)
  then have "all_pending e (k # ks) e2" using all_pending_Cons all_pending_gains r(6,7) e1(2) by blast
  then show ?case using f r evolves_trans [OF e1(2)] gains_trans [OF g] by simp
qed

section \<open>Completing the events\<close>

text \<open>
  The kernel delivers for the completion kqueue what was registered with it: filters of descriptors that
  are among the results.
\<close>

definition completion_ok :: "'w platform \<Rightarrow> addr list \<Rightarrow> EpollFDCtx \<Rightarrow> kevent list \<Rightarrow> bool" where
  "completion_ok P js e ks \<longleftrightarrow>
     (\<forall>k \<in> set ks. case kev_udata k of
          None \<Rightarrow> False
        | Some a \<Rightarrow> a \<in> set js \<and>
            (case nodes e a of
               None \<Rightarrow> False
             | Some n \<Rightarrow> node_type n \<noteq> NODE_TYPE_POLL \<and> \<not> is_fifo_self_trigger P n k \<and> delivery_ok P n k))"

lemma completion_okD:
  assumes "completion_ok P js e ks" "k \<in> set ks"
  obtains a n where "kev_udata k = Some a" "a \<in> set js" "nodes e a = Some n" "node_type n \<noteq> NODE_TYPE_POLL"
    "\<not> is_fifo_self_trigger P n k" "delivery_ok P n k"
  using bspec [OF assms(1) [unfolded completion_ok_def] assms(2)] by (auto split: option.splits)

lemma delivery_same:
  assumes "same_request n n'" "node_type n \<noteq> NODE_TYPE_POLL" "\<not> is_fifo_self_trigger P n k" "delivery_ok P n k"
  shows "\<not> is_fifo_self_trigger P n' k" "delivery_ok P n' k"
proof -
  have eq: "node_type n' = node_type n" "node_fd n' = node_fd n" "node_self_pipe n' = node_self_pipe n"
    "fifo_writable n' = fifo_writable n" using assms(1) by (simp_all add: same_request_def)
  show s: "\<not> is_fifo_self_trigger P n' k" using assms(3) unfolding is_fifo_self_trigger_def eq .
  show "delivery_ok P n' k"
    using assms(4) delivery_regular [OF assms(2,3)] delivery_regular [OF _ s] assms(2) unfolding eq by blast
qed

lemma completion_ok_step:
  assumes "completion_ok P js e (k # ks)" "nodes e a = Some n" "same_request n n'"
  shows "completion_ok P js (set_node a n' e) ks"
  unfolding completion_ok_def
proof
  fix q assume q: "q \<in> set ks"
  then have "q \<in> set (k # ks)" by simp
  then obtain b m where b: "kev_udata q = Some b" "b \<in> set js" "nodes e b = Some m" "node_type m \<noteq> NODE_TYPE_POLL"
    "\<not> is_fifo_self_trigger P m q" "delivery_ok P m q"
    by (rule completion_okD [OF assms(1)])
  have "node_type n' = node_type n" using assms(3) by (simp add: same_request_def)
  then show "case kev_udata q of None \<Rightarrow> False
      | Some a' \<Rightarrow> a' \<in> set js \<and>
          (case nodes (set_node a n' e) a' of None \<Rightarrow> False
           | Some n \<Rightarrow> node_type n \<noteq> NODE_TYPE_POLL \<and> \<not> is_fifo_self_trigger P n q \<and> delivery_ok P n q)"
    using b delivery_same [OF assms(3), of P q] assms(2) by (cases "b = a") simp_all
qed

lemma ready_ok_set_node:
  assumes "ready_ok e js []" "nodes e a = Some n" "a \<in> set js" "stays n n'"
  shows "ready_ok (set_node a n' e) js []"
  using assms by (auto simp: ready_ok_def stays_def)

lemma complete_feed_step:
  assumes "platform_ok P" "epoll_inv P e" "ready_ok e js []" "completion_ok P js e ks"
  shows "\<exists>e' w'. complete_feed P ks e w = Some (e', w') \<and> epoll_inv P e' \<and> ready_ok e' js [] \<and> evolves e e' \<and>
    gains e e'"
  using assms(2-4)
proof (induction ks arbitrary: e w)
  case (Cons k ks)
  obtain a n where a: "kev_udata k = Some a" "a \<in> set js" "nodes e a = Some n" "delivery_ok P n k"
    by (rule completion_okD [OF Cons.prems(3) list.set_intros(1)])
  obtain n1 w1 where f: "registered_fds_node_feed_event P a n (-1) k w = Some (n1, w1)"
    and n1: "node_ok P (poll_fds e) a n1" "same_request n n1"
    by (rule feed_event_node_ok [OF assms(1) epoll_inv_node [OF Cons.prems(1) a(3)] a(4)])
  note s = same_request_stays [OF n1(2)]
  have inv: "epoll_inv P (set_node a n1 e)"
    by (rule epoll_inv_set_node [OF Cons.prems(1) a(3) _ n1(1)]) (use s in \<open>simp add: stays_def\<close>)
  have ev: "evolves e (set_node a n1 e)" by (rule touches_evolves [OF touches_set_node a(3) _ s]) simp
  have "revents_ok n" using epoll_inv_node [OF Cons.prems(1) a(3)] by (simp add: node_ok_def)
  then have g: "gains e (set_node a n1 e)"
    using feed_event_mono [OF f]
    by (intro gains_update [OF touches_set_node a(3) _ s]) (simp_all add: only_adds_def)
  from Cons.IH [OF inv ready_ok_set_node [OF Cons.prems(2) a(3,2) s] completion_ok_step [OF Cons.prems(3) a(3) n1(2)], of w1]
  show ?case using a f evolves_trans [OF ev] gains_trans [OF g] by auto
qed simp

text \<open>
  The completion kqueue runs dry: every filter is registered with \<open>EV_ONESHOT\<close>. This hypothesis makes
  the end of the loop part of what is assumed of the kernel, and nothing else.
\<close>

inductive completes :: "'w platform \<Rightarrow> addr list \<Rightarrow> int \<Rightarrow> EpollFDCtx \<Rightarrow> 'w \<Rightarrow> bool"
  for P js kq where
  failed: "sys_kevent P kq [] 32 w = (Inl ec, w1) \<Longrightarrow> completes P js kq e w"
| drained: "sys_kevent P kq [] 32 w = (Inr [], w1) \<Longrightarrow> completes P js kq e w"
| batch: "sys_kevent P kq [] 32 w = (Inr ks, w1) \<Longrightarrow> ks \<noteq> [] \<Longrightarrow> completion_ok P js e ks \<Longrightarrow>
    \<forall>e1 w2. complete_feed P ks e w1 = Some (e1, w2) \<longrightarrow> completes P js kq e1 w2 \<Longrightarrow> completes P js kq e w"

lemma complete_loop_step:
  assumes "platform_ok P" "completes P js kq e w" "epoll_inv P e" "ready_ok e js []"
  shows "\<exists>e' w'. complete_loop P kq e w = Some (e', w') \<and> epoll_inv P e' \<and> ready_ok e' js [] \<and> evolves e e' \<and>
    gains e e'"
  using assms(2-4)
proof (induction rule: completes.induct)
  case (batch w ks w1 e)
  obtain e1 w2 where f: "complete_feed P ks e w1 = Some (e1, w2)"
    and e1: "epoll_inv P e1" "ready_ok e1 js []" "evolves e e1" "gains e e1"
    using complete_feed_step [OF assms(1) batch.prems batch.hyps(3)] by blast
  from batch.IH f have "epoll_inv P e1 \<Longrightarrow> ready_ok e1 js [] \<Longrightarrow>
      \<exists>e' w'. complete_loop P kq e1 w2 = Some (e', w') \<and> epoll_inv P e' \<and> ready_ok e' js [] \<and> evolves e1 e' \<and>
        gains e1 e'"
    by blast
  with e1 evolves_trans [OF e1(3)] gains_trans [OF e1(4)] show ?case
    by (subst complete_loop.simps) (auto simp: batch.hyps(1,2) f)
qed (subst complete_loop.simps, simp)+

lemma complete_step:
  assumes "platform_ok P" "kq \<ge> 0 \<longrightarrow> completes P js kq e w" "epoll_inv P e" "ready_ok e js []"
  shows "\<exists>e' w'. registered_fds_node_complete P kq e w = Some (e', w') \<and> epoll_inv P e' \<and> ready_ok e' js [] \<and>
    evolves e e' \<and> gains e e'"
proof (cases "kq < 0")
  case False
  then show ?thesis
    using complete_loop_step [OF assms(1) _ assms(3,4), of kq w] assms(2) by (auto simp: registered_fds_node_complete_def)
qed (use assms(3,4) in \<open>simp add: registered_fds_node_complete_def\<close>)

lemma wait_register_completion_total:
  assumes "epoll_inv P e" "set js \<subseteq> dom (nodes e)"
  shows "\<exists>ckq' w'. wait_register_completion P full js ckq e w = Some (ckq', w')"
  using assms(2)
proof (induction js arbitrary: ckq w)
  case (Cons a js)
  then obtain n where n: "nodes e a = Some n" by auto
  have "has_evfilt_except n \<longrightarrow> cfg_EVFILT_EXCEPT P"
    using epoll_inv_node [OF assms(1) n] by (simp add: node_ok_def node_wf_def)
  then have "\<exists>q v. registered_fds_node_register_for_completion P ckq a n w = Some (q, v)"
    by (auto simp: registered_fds_node_register_for_completion_def completion_kevs_def Let_def split: prod.splits)
  then obtain q v where "registered_fds_node_register_for_completion P ckq a n w = Some (q, v)" by blast
  then show ?case using Cons n by auto
qed simp

section \<open>Copying the results out\<close>

definition report :: "RegisteredFDsNode \<Rightarrow> epoll_event" where
  "report n = \<lparr>ev_events = revents n, ev_data = node_data n\<rparr>"

definition reset_node :: "RegisteredFDsNode \<Rightarrow> RegisteredFDsNode" where
  "reset_node n = n\<lparr>revents := 0, got_evfilt_read := False, got_evfilt_write := False, got_evfilt_except := False\<rparr>"

lemma reset_node_ok: "node_ok P polls a n \<Longrightarrow> node_ok P polls a (reset_node n)"
  by (simp add: node_ok_def node_wf_def revents_ok_def reset_node_def)

lemma reset_node_sel [simp]: "stays n (reset_node n)" "revents (reset_node n) = 0"
  by (simp_all add: reset_node_def stays_def)

lemma collect_one_step:
  assumes "platform_ok P" "epoll_inv P e" "nodes e a = Some n"
  obtains e' w' n' where "(if is_oneshot n then epollfd_ctx__remove_node_from_kq P (set_node a (reset_node n) e) kq a w
      else Some (set_node a (reset_node n) e, w)) = Some (e', w')" "epoll_inv P e'" "touches a e e'"
    "nodes e' a = Some n'" "stays n n'" "revents n' = 0"
proof -
  let ?e = "set_node a (reset_node n) e"
  have inv: "epoll_inv P ?e"
    by (rule epoll_inv_set_node [OF assms(2,3) _ reset_node_ok [OF epoll_inv_node [OF assms(2,3)]]])
      (simp add: reset_node_def)
  have n: "nodes ?e a = Some (reset_node n)" by simp
  show thesis
  proof (cases "is_oneshot n")
    case False
    then show thesis using that inv by simp
  next
    case True
    obtain e' w' where "epollfd_ctx__remove_node_from_kq P ?e kq a w = Some (e', w')" "epoll_inv P e'"
      "touches a ?e e'" "nodes e' a = Some (detached (reset_node n))"
      using remove_node_from_kq_step [OF assms(1) inv n] by blast
    moreover have "stays n (detached (reset_node n))" using stays_trans [OF _ stays_detached] by simp
    ultimately show thesis
      using that [of e' w'] True touches_trans [OF touches_set_node] by (simp add: detached_def)
  qed
qed

lemma wait_collect_step:
  assumes "platform_ok P" "epoll_inv P e" "distinct js" "set js \<subseteq> dom (nodes e)"
  shows "\<exists>e' w'. wait_collect P kq js e w = Some (map (\<lambda>a. report (the (nodes e a))) js, e', w') \<and>
    epoll_inv P e' \<and> evolves e e' \<and> (\<forall>a \<in> set js. \<exists>n. nodes e' a = Some n \<and> revents n = 0) \<and>
    (\<forall>a. a \<notin> set js \<longrightarrow> nodes e' a = nodes e a)"
  using assms(2-4)
proof (induction js arbitrary: e w)
  case (Cons a js)
  obtain n where n: "nodes e a = Some n" using Cons.prems(3) by auto
  obtain e1 w1 n1 where c: "(if is_oneshot n then epollfd_ctx__remove_node_from_kq P (set_node a (reset_node n) e) kq a w
      else Some (set_node a (reset_node n) e, w)) = Some (e1, w1)" and e1: "epoll_inv P e1" "touches a e e1"
    and n1: "nodes e1 a = Some n1" "stays n n1" "revents n1 = 0"
    by (rule collect_one_step [OF assms(1) Cons.prems(1) n])
  have a: "a \<notin> set js" "distinct js" using Cons.prems(2) by simp_all
  have other: "nodes e1 b = nodes e b" if "b \<noteq> a" for b using touches_other [OF e1(2) that] .
  have "set js \<subseteq> dom (nodes e1)"
  proof
    fix b assume b: "b \<in> set js"
    then have "b \<noteq> a" using a by blast
    then show "b \<in> dom (nodes e1)" using other b Cons.prems(3) by auto
  qed
  then obtain e2 w2 where r: "wait_collect P kq js e1 w1 = Some (map (\<lambda>a. report (the (nodes e1 a))) js, e2, w2)"
    and e2: "epoll_inv P e2" "evolves e1 e2" "\<forall>a \<in> set js. \<exists>n. nodes e2 a = Some n \<and> revents n = 0"
      "\<forall>a. a \<notin> set js \<longrightarrow> nodes e2 a = nodes e1 a"
    using Cons.IH [OF e1(1) a(2), of w1] by blast
  have "map (\<lambda>a. report (the (nodes e1 a))) js = map (\<lambda>a. report (the (nodes e a))) js"
    by (rule map_cong [OF refl]) (metis a(1) other)
  then have "wait_collect P kq (a # js) e w = Some (map (\<lambda>a. report (the (nodes e a))) (a # js), e2, w2)"
    using n c r by (simp add: report_def reset_node_def [symmetric])
  moreover have "evolves e e2" using evolves_trans [OF touches_evolves [OF e1(2) n n1(1,2)] e2(2)] .
  moreover have "\<forall>b \<in> set (a # js). \<exists>n. nodes e2 b = Some n \<and> revents n = 0" using e2(3,4) a(1) n1 by auto
  moreover have "\<forall>b. b \<notin> set (a # js) \<longrightarrow> nodes e2 b = nodes e b" using e2(4) other by auto
  ultimately show ?case using e2(1) by blast
qed simp

section \<open>One pass\<close>

definition may_report :: "RegisteredFDsNode \<Rightarrow> epoll_event \<Rightarrow> bool" where
  "may_report n ev \<longleftrightarrow>
     ev_data ev = node_data n \<and>
     subset_bits (ev_events ev) (node_mask n OR (if needs_rdhup_translation n then 0x2000 else 0))"

text \<open>The results of a wait: each for another registered descriptor, with what it was registered for.\<close>

definition reported :: "EpollFDCtx \<Rightarrow> nat \<Rightarrow> epoll_event list \<Rightarrow> bool" where
  "reported e cap evs \<longleftrightarrow>
     length evs \<le> cap \<and>
     (\<exists>fds. distinct fds \<and>
        list_all2 (\<lambda>fd ev. \<exists>n. lookup_node e fd = Some n \<and> may_report n ev) fds evs)"

lemma stays_may_report: "stays n n' \<Longrightarrow> may_report n' ev = may_report n ev"
  by (simp add: stays_def may_report_def)

lemma evolves_lookup:
  assumes "evolves e e'"
  shows "rel_option stays (lookup_node e fd) (lookup_node e' fd)"
  using assms by (cases "rb_find fd (registered_fds e)") (simp_all add: lookup_node_def evolves_def)

lemma evolves_interest:
  assumes "evolves e e'"
  shows "interest_list e' = interest_list e"
proof
  fix fd
  show "interest_list e' fd = interest_list e fd"
    using evolves_lookup [OF assms, of fd] stays_interest unfolding interest_list_def
    by (cases "lookup_node e fd"; cases "lookup_node e' fd") auto
qed

lemma reported_mono:
  assumes "reported e' cap evs"
    and "\<And>fd n'. lookup_node e' fd = Some n' \<Longrightarrow> \<exists>n. lookup_node e fd = Some n \<and> (stays n n' \<or> stays n' n)"
  shows "reported e cap evs"
proof -
  obtain fds where "distinct fds" "length evs \<le> cap"
    and a: "list_all2 (\<lambda>fd ev. \<exists>n. lookup_node e' fd = Some n \<and> may_report n ev) fds evs"
    using assms(1) unfolding reported_def by blast
  moreover have "list_all2 (\<lambda>fd ev. \<exists>n. lookup_node e fd = Some n \<and> may_report n ev) fds evs"
    using a by (rule list_all2_mono) (use assms(2) stays_may_report in blast)
  ultimately show ?thesis unfolding reported_def by blast
qed

lemma reported_evolves: "reported e' cap evs \<Longrightarrow> evolves e e' \<Longrightarrow> reported e cap evs"
  by (erule reported_mono) (metis evolves_lookup option_rel_Some2)

lemma reported_evolved: "reported e cap evs \<Longrightarrow> evolves e e' \<Longrightarrow> reported e' cap evs"
  by (erule reported_mono) (metis evolves_lookup option_rel_Some1)

lemma reported_reports:
  assumes "epoll_inv P e" "distinct js" "set js \<subseteq> dom (nodes e)" "length js \<le> cap"
  shows "reported e cap (map (\<lambda>a. report (the (nodes e a))) js)"
proof -
  let ?fds = "map (\<lambda>a. node_fd (the (nodes e a))) js"
  have tr: "tree_ok e" using assms(1) by (simp add: epoll_inv_def)
  have n: "\<exists>n. nodes e a = Some n" if "a \<in> set js" for a using assms(3) that by blast
  have "inj_on (\<lambda>a. node_fd (the (nodes e a))) (set js)"
    by (rule inj_onI) (metis n node_fd_unique [OF tr] option.sel)
  then have "distinct ?fds" using assms(2) by (simp add: distinct_map)
  moreover have "\<exists>n. lookup_node e (node_fd (the (nodes e a))) = Some n \<and> may_report n (report (the (nodes e a)))"
    if a: "a \<in> set js" for a
  proof -
    obtain m where m: "nodes e a = Some m" using n [OF a] by blast
    then have "revents_ok m" using epoll_inv_node [OF assms(1)] by (simp add: node_ok_def)
    then show ?thesis using m lookup_node_iff [OF tr] by (auto simp: report_def may_report_def revents_ok_def)
  qed
  then have "list_all2 (\<lambda>fd ev. \<exists>n. lookup_node e fd = Some n \<and> may_report n ev) ?fds
      (map (\<lambda>a. report (the (nodes e a))) js)"
    by (simp add: list_all2_map1 list_all2_map2 list_all2_same)
  ultimately show ?thesis unfolding reported_def using assms(4) by force
qed

text \<open>Every kevent of the batch that was asked for shows up in the results.\<close>

definition answers :: "EpollFDCtx \<Rightarrow> kevent list \<Rightarrow> epoll_event list \<Rightarrow> bool" where
  "answers e ks evs \<longleftrightarrow>
     (\<forall>k \<in> set ks. \<forall>a n b. kev_udata k = Some a \<and> nodes e a = Some n \<and> wanted n k b \<longrightarrow>
        (\<exists>ev \<in> set evs. ev_data ev = node_data n \<and> has_bits (ev_events ev) b))"

lemma answers_reports:
  assumes "all_pending e ks e'" "evolves e e'" "ready_ok e' js []"
  shows "answers e ks (map (\<lambda>a. report (the (nodes e' a))) js)"
  unfolding answers_def
proof (intro ballI allI impI)
  fix k a n b assume k: "k \<in> set ks" and h: "kev_udata k = Some a \<and> nodes e a = Some n \<and> wanted n k b"
  then obtain n' where n': "nodes e' a = Some n'" "has_bits (revents n') b"
    using assms(1) unfolding all_pending_def by blast
  then have "revents n' \<noteq> 0" by (metis has_bits_zero(1))
  then have "a \<in> set js" using assms(3) n'(1) by (simp add: ready_ok_def)
  moreover have "node_data n' = node_data n" using evolves_node [OF assms(2), of a n] h n'(1) by (auto simp: stays_def)
  ultimately show "\<exists>ev \<in> set (map (\<lambda>a. report (the (nodes e' a))) js). ev_data ev = node_data n \<and> has_bits (ev_events ev) b"
    using n' by (auto simp: report_def intro!: bexI [of _ a])
qed

definition pass_ok :: "'w platform \<Rightarrow> int \<Rightarrow> nat \<Rightarrow> nat \<Rightarrow> EpollFDCtx \<Rightarrow> 'w \<Rightarrow> bool" where
  "pass_ok P kq cap cnt e w \<longleftrightarrow>
     (case sys_kevent P kq [] cnt w of
        (Inl _, _) \<Rightarrow> True
      | (Inr ks, w1) \<Rightarrow> length ks \<le> cnt \<and> batch_ok P e ks \<and>
          (\<forall>js e1 w2 ckq w3. wait_feed P kq cap ks [] e w1 = Some (js, e1, w2) \<and>
             wait_register_completion P (length ks = cnt) js (-1) e1 w2 = Some (ckq, w3) \<and> ckq \<ge> 0 \<longrightarrow>
             completes P js ckq e1 w3))"

lemma wait_pass_step:
  assumes "platform_ok P" "rdhup_ok P" "fifos_ok P e" "epoll_wf P e" "pass_ok P kq cap cnt e w"
    and "registered_fds_size e \<le> cap \<or> cnt \<le> cap" "kevs_length e \<noteq> 0"
  obtains r e' w' where "wait_pass P kq cap cnt e w = Some (r, e', w')" "epoll_wf P e'" "evolves e e'"
    "\<forall>n evs. r = Inr (n, evs) \<longrightarrow> reported e cap evs"
    "\<forall>ks w1. sys_kevent P kq [] cnt w = (Inr ks, w1) \<longrightarrow> (\<exists>evs. r = Inr (length ks, evs) \<and> answers e ks evs)"
proof -
  obtain r w1 where k: "sys_kevent P kq [] cnt w = (r, w1)" by fastforce
  show thesis
  proof (cases r)
    case (Inl ec)
    then show thesis using that [of "Inl ec" e w1] assms(4,7) k by (simp add: wait_pass_def)
  next
    case (Inr ks)
    have wf: "epoll_inv P e" "\<forall>a n. nodes e a = Some n \<longrightarrow> is_registered n \<and> revents n = 0"
      using assms(4) by (simp_all add: epoll_wf_def)
    have h: "length ks \<le> cnt" "kevs_due P e ks"
      using assms(5) batch_ok_due [OF _ assms(3)] by (simp_all add: pass_ok_def k Inr)
    have "ready_ok e [] ks" using wf(2) by (simp add: ready_ok_def)
    moreover have "room e cap [] ks" using assms(6) h(1) by (auto simp: room_def)
    ultimately obtain js e1 w2 where f: "wait_feed P kq cap ks [] e w1 = Some (js, e1, w2)"
      and e1: "epoll_inv P e1" "evolves e e1" "ready_ok e1 js []" "room e1 cap js []" "all_pending e ks e1"
      using wait_feed_step [OF assms(1-3) wf(1) h(2)] by blast
    have js: "distinct js" "set js \<subseteq> dom (nodes e1)" using e1(3) by (simp_all add: ready_ok_def)
    obtain ckq w3 where c: "wait_register_completion P (length ks = cnt) js (-1) e1 w2 = Some (ckq, w3)"
      using wait_register_completion_total [OF e1(1) js(2)] by blast
    have "ckq \<ge> 0 \<longrightarrow> completes P js ckq e1 w3" using assms(5) f c by (auto simp: pass_ok_def k Inr)
    then obtain e2 w4 where g: "registered_fds_node_complete P ckq e1 w3 = Some (e2, w4)"
      and e2: "epoll_inv P e2" "ready_ok e2 js []" "evolves e1 e2" "gains e1 e2"
      using complete_step [OF assms(1) _ e1(1,3)] by blast
    have js2: "set js \<subseteq> dom (nodes e2)" using e2(2) by (simp add: ready_ok_def)
    let ?evs = "map (\<lambda>a. report (the (nodes e2 a))) js"
    obtain e3 w5 where l: "wait_collect P kq js e2 w4 = Some (?evs, e3, w5)" and e3: "epoll_inv P e3" "evolves e2 e3"
      "\<forall>a \<in> set js. \<exists>n. nodes e3 a = Some n \<and> revents n = 0" "\<forall>a. a \<notin> set js \<longrightarrow> nodes e3 a = nodes e2 a"
      using wait_collect_step [OF assms(1) e2(1) js(1) js2] by blast
    have ev: "evolves e e2" "evolves e e3" using evolves_trans e1(2) e2(3) e3(2) by blast+
    have "is_registered n \<and> revents n = 0" if n: "nodes e3 a = Some n" for a n
    proof -
      obtain m where m: "nodes e2 a = Some m" "stays m n"
        using e3(2) n unfolding evolves_def by (metis option_rel_Some2)
      have "is_registered m" "revents m \<noteq> 0 \<longrightarrow> a \<in> set js" using e2(2) m(1) by (simp_all add: ready_ok_def)
      then show ?thesis using m n e3(3,4) by (cases "a \<in> set js") (auto simp: stays_def)
    qed
    then have "epoll_wf P e3" using e3(1) by (simp add: epoll_wf_def)
    moreover have "length js \<le> cap"
      using e1(4) ready_bound [OF epoll_inv_tree [OF e1(1)] js] by (auto simp: room_def)
    then have "reported e cap ?evs"
      using reported_evolves [OF reported_reports [OF e2(1) js(1) js2] ev(1)] by blast
    moreover have "answers e ks ?evs"
      using answers_reports [OF all_pending_gains [OF e1(5) e2(4)] ev(1) e2(2)] .
    moreover have "wait_pass P kq cap cnt e w = Some (Inr (length ks, ?evs), e3, w5)"
      using assms(7) k Inr f c g l by (simp add: wait_pass_def)
    ultimately show thesis using that [of "Inr (length ks, ?evs)" e3 w5] ev(2) k Inr by simp
  qed
qed

text \<open>
  The kernel serves a wait: every batch is one it may return, and only finitely many of them leave
  nothing to report.
\<close>

inductive serves :: "'w platform \<Rightarrow> int \<Rightarrow> nat \<Rightarrow> nat \<Rightarrow> EpollFDCtx \<Rightarrow> 'w \<Rightarrow> bool"
  for P kq cap cnt where
  pass: "pass_ok P kq cap cnt e w \<Longrightarrow>
    \<forall>n e1 w1. wait_pass P kq cap cnt e w = Some (Inr (n, []), e1, w1) \<and> n \<noteq> 0 \<longrightarrow> serves P kq cap cnt e1 w1 \<Longrightarrow>
    serves P kq cap cnt e w"

definition wait_done :: "'w platform \<Rightarrow> EpollFDCtx \<Rightarrow> nat \<Rightarrow> (errno + epoll_event list) \<Rightarrow> EpollFDCtx \<Rightarrow> bool" where
  "wait_done P e cap r e' \<longleftrightarrow>
     epoll_wf P e' \<and> evolves e e' \<and> (\<forall>evs. r = Inr evs \<longrightarrow> reported e cap evs)"

lemma wait_again_step:
  assumes "platform_ok P" "rdhup_ok P" "serves P kq cap cnt e w"
    and "fifos_ok P e" "epoll_wf P e" "registered_fds_size e \<le> cap \<or> cnt \<le> cap" "kevs_length e \<noteq> 0"
  shows "\<exists>r e' w'. wait_again P kq cap cnt e w = Some (r, e', w') \<and> wait_done P e cap r e'"
  using assms(3-7)
proof (induction rule: serves.induct)
  case (pass e w)
  obtain r e1 w1 where p: "wait_pass P kq cap cnt e w = Some (r, e1, w1)" and e1: "epoll_wf P e1" "evolves e e1"
    and rep: "\<forall>n evs. r = Inr (n, evs) \<longrightarrow> reported e cap evs"
    by (rule wait_pass_step [OF assms(1,2) pass.prems(1,2) pass.hyps pass.prems(3,4)])
  show ?case
  proof (cases "\<exists>n. r = Inr (n, []) \<and> n \<noteq> 0")
    case True
    then obtain n where r: "r = Inr (n, [])" "n \<noteq> 0" by blast
    have size: "registered_fds_size e1 \<le> cap \<or> cnt \<le> cap" "kevs_length e1 \<noteq> 0"
      using pass.prems(3,4) e1(2) by (simp_all add: evolves_def)
    have "\<exists>r e' w'. wait_again P kq cap cnt e1 w1 = Some (r, e', w') \<and> wait_done P e1 cap r e'"
      using pass.IH [rule_format, OF conjI [OF p [unfolded r(1)] r(2)]] e1(1) size
        evolves_fifos [OF e1(2) pass.prems(1)] by blast
    then obtain r' e' w' where "wait_again P kq cap cnt e1 w1 = Some (r', e', w')" "wait_done P e1 cap r' e'" by blast
    moreover have "wait_again P kq cap cnt e w = wait_again P kq cap cnt e1 w1"
      by (subst wait_again.simps) (simp add: p r)
    ultimately show ?thesis
      using evolves_trans [OF e1(2)] reported_evolves [OF _ e1(2)] unfolding wait_done_def by auto
  next
    case False
    have "\<exists>r'. wait_again P kq cap cnt e w = Some (r', e1, w1) \<and> (\<forall>evs. r' = Inr evs \<longrightarrow> (\<exists>n. r = Inr (n, evs)))"
      using False by (subst wait_again.simps) (auto simp: p split: sum.splits prod.splits)
    then show ?thesis using e1 rep unfolding wait_done_def by blast
  qed
qed

section \<open>The descriptors that only support poll\<close>

text \<open>Only entries are dropped, whole.\<close>

definition prunes :: "EpollFDCtx \<Rightarrow> EpollFDCtx \<Rightarrow> bool" where
  "prunes e e' \<longleftrightarrow> lookup_node e' \<subseteq>\<^sub>m lookup_node e \<and> nodes e' \<subseteq>\<^sub>m nodes e"

lemma prunes_refl [simp]: "prunes e e"
  by (simp add: prunes_def)

lemma prunes_trans: "prunes e f \<Longrightarrow> prunes f g \<Longrightarrow> prunes e g"
  unfolding prunes_def by (meson map_le_trans)

lemma prunes_fifos: "prunes e e' \<Longrightarrow> fifos_ok P e \<Longrightarrow> fifos_ok P e'"
  unfolding prunes_def fifos_ok_def map_le_def by (metis domI)

lemma prunes_reported: "prunes e e' \<Longrightarrow> reported e' cap evs \<Longrightarrow> reported e cap evs"
  by (erule reported_mono) (metis domI map_le_def prunes_def stays_refl)

lemma prunes_interest: "prunes e e' \<Longrightarrow> interest_list e' \<subseteq>\<^sub>m interest_list e"
  unfolding prunes_def interest_list_def map_le_def dom_def by (metis (mono_tags) map_option_is_None mem_Collect_eq)

lemma map_le_delete: "m(a := None) \<subseteq>\<^sub>m m"
  by (simp add: map_le_def)

lemma poll_remove_step:
  assumes "platform_ok P" "epoll_wf P e" "a \<in> set (poll_fds e)"
  obtains e' w' where "epollfd_ctx_remove_node P e kq a w = Some (e', w')" "epoll_wf P e'" "prunes e e'"
    "set (poll_fds e) - {a} \<subseteq> set (poll_fds e')"
proof -
  have inv: "epoll_inv P e" using assms(2) by (simp add: epoll_wf_def)
  obtain n where n: "nodes e a = Some n" using inv assms(3) by (auto simp: epoll_inv_def polls_ok_def)
  obtain e' w' where r: "epollfd_ctx_remove_node P e kq a w = Some (e', w')" "epoll_inv P e'"
    "nodes e' = (nodes e)(a := None)"
    by (rule remove_node_step [OF assms(1) inv n])
  have wf: "epoll_wf P e'" by (rule epoll_wf_remove [OF r(2,3)]) (use assms(2) in \<open>simp add: epoll_wf_def\<close>)
  have "lookup_node e' = (lookup_node e)(node_fd n := None)"
    by (rule lookup_node_remove [OF epoll_inv_tree [OF inv] epoll_inv_tree [OF r(2)] r(3) n])
  then have "prunes e e'" using r(3) by (simp add: prunes_def map_le_delete)
  moreover have "b \<in> set (poll_fds e')" if b: "b \<in> set (poll_fds e)" "b \<noteq> a" for b
  proof -
    obtain m where m: "nodes e b = Some m" using inv b(1) by (auto simp: epoll_inv_def polls_ok_def)
    then have "is_on_pollfd_list m" using epoll_inv_node [OF inv] b(1) by (simp add: node_ok_def)
    then show ?thesis using epoll_inv_node [OF r(2), of b m] r(3) m b(2) by (simp add: node_ok_def)
  qed
  ultimately show thesis using that r(1) wf by blast
qed

lemma wait_poll_nodes_step:
  assumes "platform_ok P" "epoll_wf P e" "distinct (map fst ps)" "fst ` set ps \<subseteq> set (poll_fds e)"
  shows "\<exists>e' w'. wait_poll_nodes P kq ps e w = Some (e', w') \<and> epoll_wf P e' \<and> prunes e e'"
  using assms(2-4)
proof (induction ps arbitrary: e w)
  case (Cons p ps)
  obtain a pfd where p: "p = (a, pfd)" by fastforce
  have a: "a \<in> set (poll_fds e)" "a \<notin> fst ` set ps" "distinct (map fst ps)" "fst ` set ps \<subseteq> set (poll_fds e)"
    using Cons.prems p by auto
  have inv: "epoll_inv P e" using Cons.prems(1) by (simp add: epoll_wf_def)
  show ?case
  proof (cases "has_bits (pfd_revents pfd) POLLNVAL")
    case True
    obtain e1 w1 where r: "epollfd_ctx_remove_node P e kq a w = Some (e1, w1)" "epoll_wf P e1" "prunes e e1"
      "set (poll_fds e) - {a} \<subseteq> set (poll_fds e1)"
      by (rule poll_remove_step [OF assms(1) Cons.prems(1) a(1)])
    have "fst ` set ps \<subseteq> set (poll_fds e1)" using r(4) a(2,4) by blast
    from Cons.IH [OF r(2) a(3) this, of w1] show ?thesis
      using True p r(1) prunes_trans [OF r(3)] by auto
  next
    case False
    obtain n where n: "nodes e a = Some n" using inv a(1) by (auto simp: epoll_inv_def polls_ok_def)
    have "cfg_EVFILT_USER P \<or> snd (node_self_pipe n) \<ge> 0"
      using epoll_inv_node [OF inv n] a(1) by (simp add: node_ok_def)
    then obtain w1 where "registered_fds_node_trigger_self P a n kq w = Some w1"
      using trigger_self_total [of P n a kq w] by blast
    then show ?thesis using False p n Cons.IH [OF Cons.prems(1) a(3,4)] by simp
  qed
qed simp

lemma poll_entries_total:
  "set as \<subseteq> dom st \<Longrightarrow> \<exists>ps. poll_entries st as = Some ps \<and> length ps = length as"
  by (induction as) auto

lemma wait_kevs_count_bounds:
  assumes "wait_kevs_count e cnt = Some c" "cnt \<ge> 1"
  shows "c \<ge> 1" "registered_fds_size e \<le> nat cnt \<or> nat c \<le> nat cnt"
  using assms by (auto simp: wait_kevs_count_def split: if_splits option.splits)

lemma epoll_wf_buffers:
  "epoll_wf P (e\<lparr>kevs_length := k\<rparr>) = epoll_wf P e" "epoll_wf P (e\<lparr>pfds_length := k\<rparr>) = epoll_wf P e"
  by (simp_all add: epoll_wf_def epoll_inv_def tree_ok_def polls_ok_def pipe_ok_def)

lemma lookup_node_buffers [simp]:
  "lookup_node (e\<lparr>kevs_length := k\<rparr>) = lookup_node e" "lookup_node (e\<lparr>pfds_length := k\<rparr>) = lookup_node e"
  by (simp_all add: fun_eq_iff lookup_node_def)

lemma prunes_buffers [simp]:
  "prunes e (f\<lparr>kevs_length := k\<rparr>) = prunes e f" "prunes e (f\<lparr>pfds_length := k\<rparr>) = prunes e f"
  "prunes (e\<lparr>pfds_length := k\<rparr>) f = prunes e f"
  by (simp_all add: prunes_def)

lemma make_kevs_space_step:
  assumes "cnt > 0"
  shows "\<exists>r k w'. epollfd_ctx_make_kevs_space P e cnt w = Some (r, e\<lparr>kevs_length := k\<rparr>, w') \<and>
    (r = Inr () \<longrightarrow> cnt \<le> k)"
proof -
  have same: "e\<lparr>kevs_length := kevs_length e\<rparr> = e" by simp
  obtain q w1 where q: "sys_realloc P (cnt * cfg_sizeof_kevent P) w = (q, w1)" by fastforce
  consider "cnt \<le> kevs_length e" | "cnt > kevs_length e" "cnt * cfg_sizeof_kevent P > cfg_SIZE_MAX P"
    | ec where "cnt > kevs_length e" "cnt * cfg_sizeof_kevent P \<le> cfg_SIZE_MAX P" "q = Inl ec"
    | "cnt > kevs_length e" "cnt * cfg_sizeof_kevent P \<le> cfg_SIZE_MAX P" "q = Inr ()"
    by (metis leI old.unit.exhaust sum.exhaust)
  then show ?thesis
  proof cases
    case 1
    then show ?thesis using assms same
      by (intro exI [of _ "Inr ()"] exI [of _ "kevs_length e"] exI [of _ w]) (simp add: epollfd_ctx_make_kevs_space_def)
  next
    case 2
    then show ?thesis using assms same
      by (intro exI [of _ "Inl ENOMEM"] exI [of _ "kevs_length e"] exI [of _ w]) (simp add: epollfd_ctx_make_kevs_space_def)
  next
    case (3 ec)
    then show ?thesis using assms same q
      by (intro exI [of _ "Inl ec"] exI [of _ "kevs_length e"] exI [of _ w1]) (simp add: epollfd_ctx_make_kevs_space_def)
  next
    case 4
    then show ?thesis using assms q
      by (intro exI [of _ "Inr ()"] exI [of _ cnt] exI [of _ w1]) (simp add: epollfd_ctx_make_kevs_space_def)
  qed
qed

lemma make_pfds_space_step:
  obtains r k w' where "epollfd_ctx_make_pfds_space P e w = (r, e\<lparr>pfds_length := k\<rparr>, w')"
    "r = Inr () \<longrightarrow> 1 + poll_fds_size e \<le> k"
proof -
  let ?cnt = "1 + poll_fds_size e"
  have same: "e\<lparr>pfds_length := pfds_length e\<rparr> = e" by simp
  obtain q w1 where q: "sys_realloc P (?cnt * cfg_sizeof_pollfd P) w = (q, w1)" by fastforce
  consider "?cnt \<le> pfds_length e" | "?cnt > pfds_length e" "?cnt * cfg_sizeof_pollfd P > cfg_SIZE_MAX P"
    | ec where "?cnt > pfds_length e" "?cnt * cfg_sizeof_pollfd P \<le> cfg_SIZE_MAX P" "q = Inl ec"
    | "?cnt > pfds_length e" "?cnt * cfg_sizeof_pollfd P \<le> cfg_SIZE_MAX P" "q = Inr ()"
    by (metis leI old.unit.exhaust sum.exhaust)
  then show thesis
  proof cases
    case 1
    then show thesis using same by (intro that [of "Inr ()" "pfds_length e" w]) (simp_all add: epollfd_ctx_make_pfds_space_def)
  next
    case 2
    then show thesis
      using same by (intro that [of "Inl ENOMEM" "pfds_length e" w]) (simp_all add: epollfd_ctx_make_pfds_space_def Let_def)
  next
    case (3 ec)
    then show thesis
      using same q by (intro that [of "Inl ec" "pfds_length e" w1]) (simp_all add: epollfd_ctx_make_pfds_space_def Let_def)
  next
    case 4
    then show thesis
      using q by (intro that [of "Inr ()" ?cnt w1]) (simp_all add: epollfd_ctx_make_pfds_space_def Let_def)
  qed
qed

lemma wait_prepare_step:
  assumes "platform_ok P" "epoll_wf P e" "cnt \<ge> 1"
  obtains r e' w' where "wait_prepare P e kq cnt w = Some (r, e', w')" "epoll_wf P e'" "prunes e e'"
    "\<forall>c. r = Inr (Some c) \<longrightarrow> kevs_length e' \<noteq> 0 \<and> (registered_fds_size e' \<le> nat cnt \<or> c \<le> nat cnt)"
proof -
  obtain q k w1 where s: "epollfd_ctx_make_pfds_space P e w = (q, e\<lparr>pfds_length := k\<rparr>, w1)"
    and k: "q = Inr () \<longrightarrow> 1 + poll_fds_size e \<le> k"
    by (rule make_pfds_space_step)
  let ?e = "e\<lparr>pfds_length := k\<rparr>"
  have polls: "distinct (poll_fds e)" "poll_fds_size e = length (poll_fds e)" "set (poll_fds e) \<subseteq> dom (nodes e)"
    using assms(2) by (simp_all add: epoll_wf_def epoll_inv_def polls_ok_def)
  have wf: "epoll_wf P ?e" using assms(2) by (simp add: epoll_wf_buffers)
  obtain ps where ps: "poll_entries (nodes e) (poll_fds e) = Some ps" "length ps = length (poll_fds e)"
    using poll_entries_total [OF polls(3)] by blast
  let ?pfds = "\<lparr>pfd_fd = kq, pfd_events = POLLIN, pfd_revents = 0\<rparr> # ps"
  have fill: "epollfd_ctx_fill_pollfds ?e kq = Some ?pfds" using ps by (simp add: epollfd_ctx_fill_pollfds_def)
  obtain pr w2 where p: "sys_poll P ?pfds 0 w1 = (pr, w2)" by fastforce
  show thesis
  proof (cases q)
    case (Inl ec)
    then show thesis using that [of "Inl ec" ?e w1] s wf assms(3) by (simp add: wait_prepare_def)
  next
    case q: (Inr u)
    have len: "length ?pfds \<le> pfds_length ?e" using k q ps(2) polls(2) by simp
    show thesis
    proof (cases pr)
      case (Inl ec)
      then show thesis using that [of "Inl ec" ?e w2] s wf assms(3) q fill len p by (simp add: wait_prepare_def)
    next
      case pr: (Inr v)
      obtain n out where v: "v = (n, out)" by fastforce
      show thesis
      proof (cases "n = 0")
        case True
        then show thesis
          using that [of "Inr None" ?e w2] s wf assms(3) q fill len p pr v by (simp add: wait_prepare_def)
      next
        case False
        let ?z = "zip (poll_fds ?e) (tl out)"
        have "distinct (map fst ?z)" "fst ` set ?z \<subseteq> set (poll_fds ?e)"
          using polls(1) by (auto simp: map_fst_zip_take dest: set_zip_leftD)
        then obtain e2 w3 where l: "wait_poll_nodes P kq ?z ?e w2 = Some (e2, w3)"
          and e2: "epoll_wf P e2" "prunes ?e e2"
          using wait_poll_nodes_step [OF assms(1) wf] by blast
        show thesis
        proof (cases "wait_kevs_count e2 cnt")
          case None
          then show thesis
            using that [of "Inl ENOMEM" e2 w3] s e2 assms(3) q fill len p pr v False l by (simp add: wait_prepare_def)
        next
          case (Some c)
          note c = wait_kevs_count_bounds [OF Some assms(3)]
          obtain r kl w4 where m: "epollfd_ctx_make_kevs_space P e2 (nat c) w3 = Some (r, e2\<lparr>kevs_length := kl\<rparr>, w4)"
            and kl: "r = Inr () \<longrightarrow> nat c \<le> kl"
            using make_kevs_space_step [of "nat c" P e2 w3] c(1) by auto
          let ?r = "case r of Inl ec \<Rightarrow> Inl ec | Inr _ \<Rightarrow> Inr (Some (nat c))"
          have "wait_prepare P e kq cnt w = Some (?r, e2\<lparr>kevs_length := kl\<rparr>, w4)"
            using s assms(3) q fill len p pr v False l Some m by (simp add: wait_prepare_def)
          then show thesis
            using that [of ?r "e2\<lparr>kevs_length := kl\<rparr>" w4] e2 c kl
            by (simp add: epoll_wf_buffers split: sum.splits)
        qed
      qed
    qed
  qed
qed

lemma wait_step:
  assumes "platform_ok P" "rdhup_ok P" "fifos_ok P e" "epoll_wf P e" "cnt \<ge> 1"
    and "\<forall>c e1 w1. wait_prepare P e kq cnt w = Some (Inr (Some c), e1, w1) \<longrightarrow> serves P kq (nat cnt) c e1 w1"
  shows "\<exists>r e' w'. epollfd_ctx_wait P e kq cnt w = Some (r, e', w') \<and> epoll_wf P e' \<and> fifos_ok P e' \<and>
    interest_list e' \<subseteq>\<^sub>m interest_list e \<and> (\<forall>evs. r = Inr evs \<longrightarrow> reported e (nat cnt) evs \<and> reported e' (nat cnt) evs)"
proof -
  obtain r e1 w1 where p: "wait_prepare P e kq cnt w = Some (r, e1, w1)" and e1: "epoll_wf P e1" "prunes e e1"
    and c: "\<forall>c. r = Inr (Some c) \<longrightarrow> kevs_length e1 \<noteq> 0 \<and> (registered_fds_size e1 \<le> nat cnt \<or> c \<le> nat cnt)"
    by (rule wait_prepare_step [OF assms(1,4,5)])
  have f: "fifos_ok P e1" by (rule prunes_fifos [OF e1(2) assms(3)])
  show ?thesis
  proof (cases "\<exists>c. r = Inr (Some c)")
    case True
    then obtain c1 where r: "r = Inr (Some c1)" by blast
    obtain r' e' w' where a: "wait_again P kq (nat cnt) c1 e1 w1 = Some (r', e', w')" "wait_done P e1 (nat cnt) r' e'"
      using wait_again_step [OF assms(1,2) _ f e1(1)] assms(6) p r c by blast
    then have "fifos_ok P e'" "interest_list e' = interest_list e1"
      using evolves_fifos f evolves_interest unfolding wait_done_def by blast+
    moreover have "reported e (nat cnt) evs \<and> reported e' (nat cnt) evs" if "r' = Inr evs" for evs
      using a(2) that prunes_reported [OF e1(2)] reported_evolved unfolding wait_done_def by blast
    ultimately show ?thesis
      using p r a prunes_interest [OF e1(2)] by (auto simp: epollfd_ctx_wait_def wait_done_def)
  next
    case False
    have "reported f (nat cnt) []" for f by (auto simp: reported_def)
    then show ?thesis
      using p False e1 f prunes_interest [OF e1(2)] by (auto simp: epollfd_ctx_wait_def split: sum.splits option.splits)
  qed
qed

section \<open>Properties\<close>

text \<open>A kernel in which the socket of the example context becomes readable once.\<close>

definition readable_once :: "nat platform" where
  "readable_once = quiet_platform\<lparr>
     sys_poll := (\<lambda>pfds t w. (Inr (1, map (pfd_revents_update (\<lambda>_. 0)) pfds), w)),
     sys_kevent := (\<lambda>kq ch n w.
       if ch = [] \<and> n > 0 \<and> kq = 3 \<and> w = 0 then (Inr [EV_SET 7 EVFILT_READ 0 0 0 (Some 16)], 1)
       else (Inr (map receipt_ok (take n ch)), w))\<rparr>"

lemma readable_once_sel [simp]:
  "cfg_EVFILT_USER readable_once" "\<not> cfg_EVFILT_EXCEPT readable_once" "cfg_POLLRDHUP readable_once = Some 0x4000"
  "cfg_SIZE_MAX readable_once = 18446744073709551615" "cfg_sizeof_kevent readable_once = 64"
  "cfg_sizeof_pollfd readable_once = 8" "sys_realloc readable_once k w = (Inr (), w)"
  "sys_poll readable_once pfds t w = (Inr (1, map (pfd_revents_update (\<lambda>_. 0)) pfds), w)"
  "sys_kevent readable_once kq ch k w =
     (if ch = [] \<and> k > 0 \<and> kq = 3 \<and> w = 0 then (Inr [EV_SET 7 EVFILT_READ 0 0 0 (Some 16)], 1)
      else (Inr (map receipt_ok (take k ch)), w))"
  by (simp_all add: readable_once_def quiet_platform_def)

lemma readable_once_ok: "platform_ok readable_once" "rdhup_ok readable_once"
proof -
  have d: "drain_pipe readable_once fd w = drain_pipe quiet_platform fd w" for fd w
    by (subst (1 2) drain_pipe.simps) (simp add: readable_once_def quiet_platform_def)
  have p: "pipes_drain readable_once" using quiet_pipes_drain unfolding pipes_drain_def d .
  have c: "sys_cond_wait readable_once k w = (0, w)" "sys_pipe2 readable_once fl w = (Inr (4, 5), w)"
    "sys_fstat readable_once fd w = (if fd < 0 then Inl EBADF else Inr S_IFSOCK, w)" for k w fl fd
    by (simp_all add: readable_once_def quiet_platform_def)
  have "pollers_leave readable_once"
    unfolding pollers_leave_def by (intro allI wait_polling_threads_total [where m = "\<lambda>k _. k"]) (simp add: c)
  moreover have "poll_ok readable_once" by (auto simp: poll_ok_def)
  moreover have "kevent_receipts readable_once" by (auto simp: kevent_receipts_def receipt_ok_def has_bits_or has_bits_def split: if_splits)
  ultimately show "platform_ok readable_once" using p by (auto simp: platform_ok_def c split: if_splits)
  show "rdhup_ok readable_once" by (simp add: rdhup_ok_def EPOLLRDHUP_def has_bits_def)
qed

lemma demo_prepare:
  "wait_prepare readable_once demo_epollfd 3 4 0 =
     Some (Inr (Some 15), demo_epollfd\<lparr>pfds_length := 1, kevs_length := 15\<rparr>, 0)"
  by (simp add: wait_prepare_def epollfd_ctx_make_pfds_space_def epollfd_ctx_make_kevs_space_def
      epollfd_ctx_fill_pollfds_def wait_kevs_count_def demo_epollfd_def empty_epollfd_def fits32_def in_int32_def int_limits)

lemma demo_batch: "batch_ok readable_once (demo_epollfd\<lparr>pfds_length := 1, kevs_length := 15\<rparr>)
    [EV_SET 7 EVFILT_READ 0 0 0 (Some 16)]"
  by (simp add: batch_ok_def demo_epollfd_def empty_epollfd_def due_def delivery_ok_def is_fifo_self_trigger_def
     feed_filter_ok_def watched_def demo_node_def fresh_node_def)


lemmas run_defs = demo_epollfd_def empty_epollfd_def wait_feed_one_def demo_node_def fresh_node_def
  get_needed_filters_def needed_by_type_def needed_socket_def flag01_def Let_def has_bits_def
  registered_fds_node_feed_event_def is_fifo_self_trigger_def feed_filter_ok_def feed_read_write_def
  feed_filter_revents_def feed_pollpri_def feed_eof_state_def feed_errors_def feed_out_def got_filter_def
  maybe_translate_rdhup_def refresh_filters_def set_node_def registered_fds_node_complete_def EPOLLRDHUP_def

lemma demo_pass:
  "\<exists>e' w'. wait_pass readable_once 3 4 15 (demo_epollfd\<lparr>pfds_length := 1, kevs_length := 15\<rparr>) 0 =
     Some (Inr (1, [\<lparr>ev_events = EPOLLIN, ev_data = 0\<rparr>]), e', w')"
  by (simp add: wait_pass_def run_defs)

lemma demo_serves: "serves readable_once 3 4 15 (demo_epollfd\<lparr>pfds_length := 1, kevs_length := 15\<rparr>) 0"
proof (rule serves.pass)
  show "pass_ok readable_once 3 4 15 (demo_epollfd\<lparr>pfds_length := 1, kevs_length := 15\<rparr>) 0"
    using demo_batch by (auto simp: pass_ok_def) (clarsimp simp: run_defs)
qed (use demo_pass in auto)

lemma demo_wf: "epoll_wf readable_once demo_epollfd" "fifos_ok readable_once demo_epollfd"
  by (simp_all add: epoll_wf_def epoll_inv_def demo_epollfd_def empty_epollfd_def tree_ok_def polls_ok_def pipe_ok_def
      rb_ordered_def node_ok_def node_wf_def revents_ok_def demo_node_def fresh_node_def subset_bits_def
      EPOLLRDHUP_def fifos_ok_def)





end
