(* ===== verification/Epoll_Frame.thy ===== *)
theory Epoll_Frame
  imports Epollfd_Wait
begin

text \<open>
  What waiting on an epoll context does to the world: an invariant of the world that every system call and
  the poll callbacks of the watched descriptions keep is kept by \<open>epollfd_ctx_wait\<close> as a whole. The shared
  state of the library is part of the world of its epoll contexts.
\<close>

text \<open>The descriptions that a node, and a context, may call back are in \<open>A\<close>.\<close>

definition watches :: "addr set \<Rightarrow> RegisteredFDsNode \<Rightarrow> bool" where
  "watches A n \<longleftrightarrow> (\<forall>p. pollable_desc n = Some p \<longrightarrow> p \<in> A)"

definition watched_in :: "addr set \<Rightarrow> EpollFDCtx \<Rightarrow> bool" where
  "watched_in A e \<longleftrightarrow> (\<forall>a n. nodes e a = Some n \<longrightarrow> watches A n)"

locale world_frame =
  fixes P :: "'w platform" and I :: "'w \<Rightarrow> bool" and A :: "addr set"
  assumes kevent_I [simp]: "I w \<Longrightarrow> I (snd (sys_kevent P kq ch k w))"
    and read_I [simp]: "I w \<Longrightarrow> I (snd (sys_read P fd k w))"
    and write_I [simp]: "I w \<Longrightarrow> I (snd (sys_write P fd bs w))"
    and close_I [simp]: "I w \<Longrightarrow> I (snd (sys_close P fd w))"
    and pipe2_I [simp]: "I w \<Longrightarrow> I (snd (sys_pipe2 P fl w))"
    and kqueue1_I [simp]: "I w \<Longrightarrow> I (snd (sys_kqueue1 P fl w))"
    and poll_I [simp]: "I w \<Longrightarrow> I (snd (sys_poll P pfds t w))"
    and cond_wait_I [simp]: "I w \<Longrightarrow> I (snd (sys_cond_wait P nr w))"
    and realloc_I [simp]: "I w \<Longrightarrow> I (snd (sys_realloc P sz w))"
    and free_I [simp]: "I w \<Longrightarrow> I (sys_free P a w)"
    and poll_fun_I [simp]: "p \<in> A \<Longrightarrow> I w \<Longrightarrow> I (snd (vt_poll_fun P p fd (Some rv) w))"
begin

lemma sys_I:
  "sys_kevent P kq ch k w = (r1, w') \<Longrightarrow> I w \<Longrightarrow> I w'"
  "sys_read P fd k w = (r2, w') \<Longrightarrow> I w \<Longrightarrow> I w'"
  "sys_pipe2 P fl w = (r3, w') \<Longrightarrow> I w \<Longrightarrow> I w'"
  "sys_kqueue1 P fl w = (r4, w') \<Longrightarrow> I w \<Longrightarrow> I w'"
  "sys_poll P pfds t w = (r5, w') \<Longrightarrow> I w \<Longrightarrow> I w'"
  "sys_cond_wait P nr w = (r6, w') \<Longrightarrow> I w \<Longrightarrow> I w'"
  "sys_realloc P sz w = (r7, w') \<Longrightarrow> I w \<Longrightarrow> I w'"
  using kevent_I read_I pipe2_I kqueue1_I poll_I cond_wait_I realloc_I by (metis snd_conv)+

lemma poll_fun_I': "vt_poll_fun P p fd (Some rv) w = (r, w') \<Longrightarrow> p \<in> A \<Longrightarrow> I w \<Longrightarrow> I w'"
  using poll_fun_I by (metis snd_conv)

lemma watched_set_node [simp]: "watched_in A e \<Longrightarrow> watches A n \<Longrightarrow> watched_in A (set_node a n e)"
  by (simp add: watched_in_def)

lemma watched_node: "watched_in A e \<Longrightarrow> nodes e a = Some n \<Longrightarrow> watches A n"
  by (simp add: watched_in_def)

lemma watched_upd [intro]:
  "watched_in A e \<Longrightarrow> nodes e a = Some m \<Longrightarrow> pollable_desc n = pollable_desc m \<Longrightarrow> watched_in A (set_node a n e)"
  by (auto simp: watched_in_def watches_def)

lemma watched_nodes: "watched_in A e \<Longrightarrow> nodes e' = nodes e \<Longrightarrow> watched_in A e'"
  by (simp add: watched_in_def)

lemma drain_pipe_I:
  assumes "drain_pipe P fd w = Some w'" "I w"
  shows "I w'"
proof -
  have "P = P \<longrightarrow> I w \<longrightarrow> I w'"
    by (rule drain_pipe.raw_induct [of "\<lambda>plat fd w w'. plat = P \<longrightarrow> I w \<longrightarrow> I w'", OF _ assms(1)])
      (auto split: prod.splits sum.splits dest: sys_I)
  then show ?thesis using assms(2) by simp
qed

lemma drain_kq_I:
  assumes "drain_kq P kq w = Some w'" "I w"
  shows "I w'"
proof -
  have "P = P \<longrightarrow> I w \<longrightarrow> I w'"
    by (rule drain_kq.raw_induct [of "\<lambda>plat kq w w'. plat = P \<longrightarrow> I w \<longrightarrow> I w'", OF _ assms(1)])
      (auto split: prod.splits sum.splits if_splits dest: sys_I)
  then show ?thesis using assms(2) by simp
qed

lemma wait_polling_threads_I:
  assumes "wait_polling_threads P nr w = Some w'" "I w"
  shows "I w'"
proof -
  have "P = P \<longrightarrow> I w \<longrightarrow> I w'"
    by (rule wait_polling_threads.raw_induct [of "\<lambda>plat nr w w'. plat = P \<longrightarrow> I w \<longrightarrow> I w'", OF _ assms(1)])
      (auto split: prod.splits if_splits dest: sys_I)
  then show ?thesis using assms(2) by simp
qed

lemma submit_kev_I: "submit_kev P kq k w = (r, w') \<Longrightarrow> I w \<Longrightarrow> I w'"
  by (auto simp: submit_kev_def split: prod.splits sum.splits dest: sys_I)

lemma node_trigger_self_I: "registered_fds_node_trigger_self P a n kq w = Some w' \<Longrightarrow> I w \<Longrightarrow> I w'"
  by (auto simp: registered_fds_node_trigger_self_def c_assert_def split: if_splits)

lemma epoll_trigger_self_I: "epollfd_ctx__trigger_self P e kq w = Some w' \<Longrightarrow> I w \<Longrightarrow> I w'"
  by (auto simp: epollfd_ctx__trigger_self_def c_assert_def split: if_splits)

lemma node_add_self_trigger_I:
  "registered_fds_node_add_self_trigger P a n kq w = Some (r, n', w') \<Longrightarrow> I w \<Longrightarrow> I w' \<and> pollable_desc n' = pollable_desc n"
  by (auto simp: registered_fds_node_add_self_trigger_def c_assert_def Let_def
      split: if_splits prod.splits sum.splits Option.bind_splits dest: sys_I submit_kev_I)

lemma epoll_add_self_trigger_I:
  "epollfd_ctx__add_self_trigger P e kq w = Some (r, e', w') \<Longrightarrow> I w \<Longrightarrow> I w' \<and> nodes e' = nodes e"
  by (auto simp: epollfd_ctx__add_self_trigger_def c_assert_def Let_def
      split: if_splits prod.splits sum.splits Option.bind_splits dest: sys_I submit_kev_I)

lemma trigger_repoll_I:
  "epollfd_ctx__trigger_repoll P e kq w = Some (e', w') \<Longrightarrow> I w \<Longrightarrow> I w' \<and> nodes e' = nodes e"
  by (auto simp: epollfd_ctx__trigger_repoll_def split: if_splits Option.bind_splits
      dest: epoll_trigger_self_I wait_polling_threads_I drain_pipe_I)

lemma remove_from_pollfd_list_I:
  "remove_from_pollfd_list P e kq a w = Some (e', w') \<Longrightarrow> I w \<Longrightarrow> watched_in A e \<Longrightarrow> I w' \<and> watched_in A e'"
  by (auto simp: remove_from_pollfd_list_def c_assert_def watched_in_def watches_def split: if_splits Option.bind_splits
      dest!: trigger_repoll_I)

lemma remove_node_from_kq_I:
  "epollfd_ctx__remove_node_from_kq P e kq a w = Some (e', w') \<Longrightarrow> I w \<Longrightarrow> watched_in A e \<Longrightarrow> I w' \<and> watched_in A e'"
  unfolding epollfd_ctx__remove_node_from_kq_def
  by (auto split: Option.bind_splits prod.splits if_splits dest!: remove_from_pollfd_list_I dest: drain_pipe_I)

section \<open>Registration\<close>

lemma register_filters_I:
  "register_filters P e kq a w = Some (r, e', w') \<Longrightarrow> I w \<Longrightarrow> watched_in A e \<Longrightarrow> I w' \<and> watched_in A e'"
  unfolding register_filters_def
  by (auto simp: c_assert_def Let_def with_filters_def split: Option.bind_splits prod.splits sum.splits if_splits
      dest!: remove_node_from_kq_I dest: sys_I)

lemma enlist_poll_node_I:
  "enlist_poll_node P e kq a n w = Some (r, e', w') \<Longrightarrow> I w \<Longrightarrow> watched_in A e \<Longrightarrow> watches A n \<Longrightarrow> I w' \<and> watched_in A e'"
  by (auto simp: enlist_poll_node_def watched_in_def watches_def split: Option.bind_splits prod.splits sum.splits if_splits
      dest!: epoll_add_self_trigger_I)

lemma register_poll_only_I:
  assumes "register_poll_only P e kq a w = Some (r, e', w')" "I w" "watched_in A e"
  shows "I w' \<and> watched_in A e'"
proof -
  obtain n q n2 w1 where n: "nodes e a = Some n"
    and s: "registered_fds_node_add_self_trigger P a (poll_only n) kq w = Some (q, n2, w1)"
    using assms(1) by (auto simp: register_poll_only_def c_assert_def split: Option.bind_splits if_splits)
  have 1: "I w1" "pollable_desc n2 = pollable_desc n"
    using node_add_self_trigger_I [OF s assms(2)] by (simp_all add: poll_only_def)
  then have "watched_in A (set_node a n2 e)" "watches A n2" using assms(3) n by (auto simp: watched_in_def watches_def)
  then show ?thesis
    using assms(1) n s 1
    by (cases q) (auto simp: register_poll_only_def c_assert_def split: Option.bind_splits sum.splits if_splits
        dest!: enlist_poll_node_I trigger_repoll_I intro: watched_nodes)
qed

lemma register_receipts_I:
  "register_receipts P kq a f i ds n w = Some (r, n', w') \<Longrightarrow> I w \<Longrightarrow> I w' \<and> pollable_desc n' = pollable_desc n"
proof (induction ds arbitrary: i n w)
  case (Cons d ds)
  then show ?case
    by (auto simp: Let_def split: Option.bind_splits sum.splits if_splits dest!: node_add_self_trigger_I Cons.IH
        dest: node_trigger_self_I)
qed simp

lemma register_events_I:
  assumes "epollfd_ctx__register_events P e kq a w = Some (r, e', w')" "I w" "watched_in A e"
  shows "I w' \<and> watched_in A e'"
proof -
  obtain n where n: "nodes e a = Some n" using assms(1)
    by (auto simp: epollfd_ctx__register_events_def split: Option.bind_splits)
  then have "watched_in A (set_node a (restrict_events P n) e)"
    using watched_upd [OF assms(3) n] by (simp add: restrict_events_def)
  then show ?thesis
    using assms(1,2) n
    by (auto simp: epollfd_ctx__register_events_def c_assert_def Let_def split: Option.bind_splits sum.splits if_splits
        dest!: register_poll_only_I register_filters_I register_receipts_I elim!: watched_upd)
qed

section \<open>Taking a kevent in\<close>

lemma got_filter_desc: "pollable_desc (got_filter P f n) = pollable_desc n"
  by (cases f) (simp_all add: got_filter_def)

lemma feed_out_I:
  "feed_out P n kev rv w = (n', w') \<Longrightarrow> I w \<Longrightarrow> watches A n \<Longrightarrow> I w' \<and> pollable_desc n' = pollable_desc n"
  by (auto simp: feed_out_def Let_def pollable_desc_poll_def got_filter_desc watches_def
      split: if_splits option.splits prod.splits dest: poll_fun_I')

lemma feed_poll_I: "feed_poll P n kev w = Some (n', w') \<Longrightarrow> I w \<Longrightarrow> I w' \<and> pollable_desc n' = pollable_desc n"
  by (auto simp: feed_poll_def c_assert_def Let_def split: Option.bind_splits prod.splits if_splits
      dest: drain_pipe_I sys_I)

lemma feed_fifo_self_trigger_I:
  "feed_fifo_self_trigger P a n kq kev w = Some (n', w') \<Longrightarrow> I w \<Longrightarrow> watches A n \<Longrightarrow> I w' \<and> pollable_desc n' = pollable_desc n"
  unfolding feed_fifo_self_trigger_def
  by (auto simp: c_assert_def Let_def split: Option.bind_splits prod.splits if_splits
      dest!: sys_I(1) dest: node_trigger_self_I feed_out_I)

lemma except_still_pending_I: "except_still_pending P a n q w = (b, w') \<Longrightarrow> I w \<Longrightarrow> I w'"
  by (auto simp: except_still_pending_def split: prod.splits sum.splits dest: sys_I)

lemma feed_except_I: "feed_except P a n kq kev w = Some (rv, w') \<Longrightarrow> I w \<Longrightarrow> I w'"
  by (auto simp: feed_except_def c_assert_def Let_def except_reset_def split: Option.bind_splits prod.splits sum.splits if_splits
      dest!: sys_I(4) except_still_pending_I)

lemma feed_filter_revents_I:
  "feed_filter_revents P n kev w = (rv, n', w') \<Longrightarrow> I w \<Longrightarrow> I w' \<and> pollable_desc n' = pollable_desc n"
  by (auto simp: feed_filter_revents_def feed_pollpri_def split: prod.splits sum.splits if_splits dest: sys_I)

lemma feed_read_write_I:
  assumes "feed_read_write P n kev w = Some (n', w')" "I w" "watches A n"
  shows "I w' \<and> pollable_desc n' = pollable_desc n"
proof -
  obtain rv n1 w1 where f: "feed_filter_revents P n kev w = (rv, n1, w1)" by (cases "feed_filter_revents P n kev w") auto
  have 1: "I w1" "pollable_desc n1 = pollable_desc n" using feed_filter_revents_I [OF f assms(2)] by simp_all
  have "watches A (n1\<lparr>eof_state := s\<rparr>)" for s using assms(3) 1(2) by (simp add: watches_def)
  then have o: "I v \<and> pollable_desc m = pollable_desc n" if "feed_out P (n1\<lparr>eof_state := s\<rparr>) kev rv2 w1 = (m, v)" for s rv2 m v
    using feed_out_I [OF that 1(1)] 1(2) by simp
  show ?thesis
    using assms(1) 1 by (auto simp: feed_read_write_def f Let_def add_pollhup_def split: Option.bind_splits option.splits if_splits
        dest: o)
qed

lemma feed_event_I:
  assumes "registered_fds_node_feed_event P a n kq kev w = Some (n', w')" "I w" "watches A n"
  shows "I w' \<and> pollable_desc n' = pollable_desc n"
  using assms
  by (auto simp: registered_fds_node_feed_event_def maybe_translate_rdhup_def c_assert_def
      split: Option.bind_splits if_splits
      dest: feed_poll_I feed_fifo_self_trigger_I feed_read_write_I feed_out_I feed_except_I)

section \<open>Waiting\<close>

lemma refresh_I:
  "refresh_filters P kq a old e w = Some (e', w') \<Longrightarrow> I w \<Longrightarrow> watched_in A e \<Longrightarrow> I w' \<and> watched_in A e'"
  by (auto simp: refresh_filters_def split: Option.bind_splits sum.splits if_splits
      dest!: register_events_I dest: remove_node_from_kq_I)

lemma wait_feed_one_I:
  assumes "wait_feed_one P kq cap kev js e w = Some (js', e', w')" "I w" "watched_in A e"
  shows "I w' \<and> watched_in A e'"
proof (cases "kev_udata kev")
  case None
  then show ?thesis using assms by (auto simp: wait_feed_one_def c_assert_def split: if_splits)
next
  case (Some a)
  then obtain n n1 w1 old e2 w2 where n: "nodes e a = Some n"
    and f: "registered_fds_node_feed_event P a n kq kev w = Some (n1, w1)"
    and r: "refresh_filters P kq a old (set_node a n1 e) w1 = Some (e2, w2)" "e' = e2" "w' = w2"
    using assms(1) by (auto simp: wait_feed_one_def c_assert_def split: Option.bind_splits if_splits)
  have 1: "I w1" "pollable_desc n1 = pollable_desc n"
    using feed_event_I [OF f assms(2) watched_node [OF assms(3) n]] by simp_all
  show ?thesis using refresh_I [OF r(1) 1(1) watched_upd [OF assms(3) n 1(2)]] r by simp
qed

lemma wait_feed_I:
  "wait_feed P kq cap ks js e w = Some (js', e', w') \<Longrightarrow> I w \<Longrightarrow> watched_in A e \<Longrightarrow> I w' \<and> watched_in A e'"
proof (induction ks arbitrary: js e w)
  case (Cons k ks)
  then show ?case by (fastforce split: Option.bind_splits dest!: wait_feed_one_I)
qed simp

lemma register_for_completion_I:
  "registered_fds_node_register_for_completion P kq a n w = Some (q, w') \<Longrightarrow> I w \<Longrightarrow> I w'"
  by (auto simp: registered_fds_node_register_for_completion_def Let_def split: Option.bind_splits if_splits sum.splits prod.splits
      dest: sys_I)

lemma wait_register_completion_I:
  "wait_register_completion P full as ckq e w = Some (q, w') \<Longrightarrow> I w \<Longrightarrow> I w'"
proof (induction as arbitrary: ckq w)
  case (Cons a as)
  then show ?case by (auto split: Option.bind_splits if_splits dest: register_for_completion_I)
qed simp

lemma complete_feed_I:
  "complete_feed P ks e w = Some (e', w') \<Longrightarrow> I w \<Longrightarrow> watched_in A e \<Longrightarrow> I w' \<and> watched_in A e'"
proof (induction ks arbitrary: e w)
  case (Cons k ks)
  obtain a n n1 w1 where a: "nodes e a = Some n" "registered_fds_node_feed_event P a n (-1) k w = Some (n1, w1)"
    "complete_feed P ks (set_node a n1 e) w1 = Some (e', w')"
    using Cons.prems(1) by (auto split: Option.bind_splits)
  have 1: "I w1" "pollable_desc n1 = pollable_desc n"
    using feed_event_I [OF a(2) Cons.prems(2) watched_node [OF Cons.prems(3) a(1)]] by simp_all
  show ?case by (rule Cons.IH [OF a(3) 1(1) watched_upd [OF Cons.prems(3) a(1) 1(2)]])
qed simp

lemma complete_loop_I:
  assumes "complete_loop P kq e w = Some (e', w')" "I w" "watched_in A e"
  shows "I w' \<and> watched_in A e'"
proof -
  have "P = P \<longrightarrow> I w \<longrightarrow> watched_in A e \<longrightarrow> (case (e', w') of (e', w') \<Rightarrow> I w' \<and> watched_in A e')"
    by (rule complete_loop.raw_induct
        [of "\<lambda>plat kq e w r. plat = P \<longrightarrow> I w \<longrightarrow> watched_in A e \<longrightarrow> (case r of (e', w') \<Rightarrow> I w' \<and> watched_in A e')", OF _ assms(1)])
      (auto split: prod.splits sum.splits if_splits Option.bind_splits dest!: sys_I(1) complete_feed_I)
  then show ?thesis using assms(2,3) by simp
qed

lemma complete_I:
  "registered_fds_node_complete P kq e w = Some (e', w') \<Longrightarrow> I w \<Longrightarrow> watched_in A e \<Longrightarrow> I w' \<and> watched_in A e'"
  by (auto simp: registered_fds_node_complete_def split: if_splits Option.bind_splits dest!: complete_loop_I)

lemma wait_collect_I:
  "wait_collect P kq as e w = Some (evs, e', w') \<Longrightarrow> I w \<Longrightarrow> watched_in A e \<Longrightarrow> I w' \<and> watched_in A e'"
proof (induction as arbitrary: e w evs)
  case (Cons a as)
  obtain n e2 w2 evs' where n: "nodes e a = Some n"
    and r: "(if is_oneshot n then epollfd_ctx__remove_node_from_kq P (set_node a (reset_node n) e) kq a w
             else Some (set_node a (reset_node n) e, w)) = Some (e2, w2)"
    and c: "wait_collect P kq as e2 w2 = Some (evs', e', w')"
    using Cons.prems(1) unfolding wait_collect.simps Let_def reset_node_def [symmetric]
    by (auto split: Option.bind_splits)
  have "watched_in A (set_node a (reset_node n) e)" using watched_upd [OF Cons.prems(3) n] by (simp add: reset_node_def)
  then have "I w2 \<and> watched_in A e2" using r Cons.prems(2) by (auto split: if_splits dest: remove_node_from_kq_I)
  then show ?case using Cons.IH [OF c] by simp
qed simp

lemma wait_pass_I:
  assumes "wait_pass P kq cap cnt e w = Some (r, e', w')" "I w" "watched_in A e"
  shows "I w' \<and> watched_in A e'"
  using assms
  by (auto simp: wait_pass_def c_assert_def split: prod.splits sum.splits Option.bind_splits if_splits
      dest!: sys_I(1) wait_feed_I wait_register_completion_I complete_I wait_collect_I)

lemma wait_again_I:
  assumes "wait_again P kq cap cnt e w = Some (r, e', w')" "I w" "watched_in A e"
  shows "I w' \<and> watched_in A e'"
proof -
  have "P = P \<longrightarrow> I w \<longrightarrow> watched_in A e \<longrightarrow> (case (r, e', w') of (_, e', w') \<Rightarrow> I w' \<and> watched_in A e')"
    by (rule wait_again.raw_induct
        [of "\<lambda>plat kq cap cnt e w r. plat = P \<longrightarrow> I w \<longrightarrow> watched_in A e \<longrightarrow> (case r of (_, e', w') \<Rightarrow> I w' \<and> watched_in A e')",
          OF _ assms(1)])
      (auto split: prod.splits sum.splits if_splits Option.bind_splits dest!: wait_pass_I)
  then show ?thesis using assms(2,3) by simp
qed

lemma make_space_I:
  "epollfd_ctx_make_pfds_space P e w = (r, e', w') \<Longrightarrow> I w \<Longrightarrow> watched_in A e \<Longrightarrow> I w' \<and> watched_in A e'"
  "epollfd_ctx_make_kevs_space P e cnt w = Some (r, e', w') \<Longrightarrow> I w \<Longrightarrow> watched_in A e \<Longrightarrow> I w' \<and> watched_in A e'"
  by (auto simp: epollfd_ctx_make_pfds_space_def epollfd_ctx_make_kevs_space_def c_assert_def Let_def watched_in_def
      split: if_splits prod.splits sum.splits Option.bind_splits dest: sys_I)

text \<open>The nodes that are removed when poll(2) finds them closed watch no description.\<close>

lemma remove_poll_node_I:
  assumes "platform_ok P" "epoll_wf P e" "a \<in> set (poll_fds e)" "epollfd_ctx_remove_node P e kq a w = Some (e', w')" "I w"
    and "watched_in A e"
  shows "I w'"
proof -
  have inv: "epoll_inv P e" using assms(2) by (simp add: epoll_wf_def)
  obtain n where n: "nodes e a = Some n" using inv assms(3) by (auto simp: epoll_inv_def polls_ok_def)
  have t: "node_type n = NODE_TYPE_POLL" using epoll_inv_node [OF inv n] assms(3) by (simp add: node_ok_def)
  obtain e1 w1 where r: "epollfd_ctx__remove_node_from_kq P e kq a w = Some (e1, w1)" "nodes e1 a = Some (detached n)"
    using remove_node_from_kq_step [OF assms(1) inv n] by blast
  have "I w1" using remove_node_from_kq_I [OF r(1) assms(5,6)] by simp
  then show ?thesis
    using assms(4) r t by (auto simp: epollfd_ctx_remove_node_def registered_fds_node_destroy_def detached_def c_assert_def Let_def
        split: if_splits)
qed

lemma wait_poll_nodes_I:
  assumes "platform_ok P" "epoll_wf P e" "distinct (map fst ps)" "fst ` set ps \<subseteq> set (poll_fds e)"
    and "wait_poll_nodes P kq ps e w = Some (e', w')" "I w" "watched_in A e"
  shows "I w' \<and> watched_in A e'"
  using assms(2-)
proof (induction ps arbitrary: e w)
  case (Cons p ps)
  obtain a pfd where p: "p = (a, pfd)" by fastforce
  have a: "a \<in> set (poll_fds e)" "a \<notin> fst ` set ps" "distinct (map fst ps)" "fst ` set ps \<subseteq> set (poll_fds e)"
    using Cons.prems(2,3) p by auto
  show ?case
  proof (cases "has_bits (pfd_revents pfd) POLLNVAL")
    case True
    obtain e1 w1 where r: "epollfd_ctx_remove_node P e kq a w = Some (e1, w1)" "epoll_wf P e1" "prunes e e1"
      "set (poll_fds e) - {a} \<subseteq> set (poll_fds e1)"
      by (rule poll_remove_step [OF assms(1) Cons.prems(1) a(1)])
    have "fst ` set ps \<subseteq> set (poll_fds e1)" using r(4) a(2,4) by blast
    moreover have "watched_in A e1"
      using r(3) Cons.prems(6) by (auto simp: prunes_def watched_in_def map_le_def dom_def)
    moreover have "I w1" by (rule remove_poll_node_I [OF assms(1) Cons.prems(1) a(1) r(1) Cons.prems(5,6)])
    moreover have "wait_poll_nodes P kq ps e1 w1 = Some (e', w')" using Cons.prems(4) True p r(1) by simp
    ultimately show ?thesis using Cons.IH [OF r(2) a(3)] by blast
  next
    case False
    then show ?thesis
      using Cons.prems(4-6) p Cons.IH [OF Cons.prems(1) a(3,4)]
      by (auto split: if_splits Option.bind_splits dest: node_trigger_self_I)
  qed
qed simp

lemma wait_prepare_I:
  assumes "platform_ok P" "epoll_wf P e" "wait_prepare P e kq cnt w = Some (r, e', w')" "I w" "watched_in A e"
  shows "I w' \<and> watched_in A e'"
proof -
  obtain q k w1 where s: "epollfd_ctx_make_pfds_space P e w = (q, e\<lparr>pfds_length := k\<rparr>, w1)"
    by (rule make_pfds_space_step)
  have 1: "I w1" "watched_in A (e\<lparr>pfds_length := k\<rparr>)" using make_space_I(1) [OF s assms(4,5)] by simp_all
  have wf: "epoll_wf P (e\<lparr>pfds_length := k\<rparr>)" using assms(2) by (simp add: epoll_wf_buffers)
  have polls: "distinct (poll_fds e)" using assms(2) by (simp add: epoll_wf_def epoll_inv_def polls_ok_def)
  have "distinct (map fst (zip (poll_fds e) xs))" "fst ` set (zip (poll_fds e) xs) \<subseteq> set (poll_fds e)" for xs :: "pollfd list"
    using polls by (auto simp: map_fst_zip_take dest: set_zip_leftD)
  then have l: "I v \<and> watched_in A f"
    if "wait_poll_nodes P kq (zip (poll_fds e) xs) (e\<lparr>pfds_length := k\<rparr>) u = Some (f, v)" "I u" for xs u v f
    using wait_poll_nodes_I [OF assms(1) wf _ _ that 1(2)] by simp
  show ?thesis
    using assms(3) 1
    by (auto simp: wait_prepare_def s c_assert_def split: prod.splits sum.splits option.splits if_splits Option.bind_splits
        dest!: sys_I(5) l make_space_I(2))
qed

lemma wait_frame:
  assumes "platform_ok P" "epoll_wf P e" "epollfd_ctx_wait P e kq cnt w = Some (r, e', w')" "I w" "watched_in A e"
  shows "I w' \<and> watched_in A e'"
  using assms(3-)
  by (auto simp: epollfd_ctx_wait_def split: Option.bind_splits sum.splits option.splits
      dest!: wait_prepare_I [OF assms(1,2)] wait_again_I)

end

end
