(* ===== verification/Epoll_Calls.thy ===== *)
theory Epoll_Calls
  imports Epoll_Api Epoll_Lift
begin

text \<open>
  \<open>epoll_ctl\<close> as a program calls it: through the table of descriptions, the reference and the mutex of the
  epoll instance, and the view of the watched descriptor as a pollable object.
\<close>

lemma on_epollfd_ctl:
  assumes "descs S a = Some d" "\<not> desc_locked d" "desc_ctx d = Ctx_epollfd e" "\<not> crashed S"
    and "\<And>T. epollfd_ctx_ctl (shim_platform P) e kq op fd desc ev (T, w) = Some (r, e', T, w')"
  shows "on_epollfd a (\<lambda>e s. epollfd_ctx_ctl (shim_platform P) e kq op fd desc ev s) (S, w) =
    Some (r, set_desc a (d\<lparr>desc_ctx := Ctx_epollfd e'\<rparr>) S, w')"
  using assms by (simp add: on_epollfd_def lock_desc_free not_crashed_def unlock_set_desc)

text \<open>The epoll instance behind a descriptor, between two calls.\<close>

definition epoll_at :: "EpollShimCtx \<Rightarrow> int \<Rightarrow> addr \<Rightarrow> FileDescription \<Rightarrow> EpollFDCtx \<Rightarrow> bool" where
  "epoll_at S fd a d e \<longleftrightarrow>
     shim_ready S \<and> \<not> crashed S \<and> epoll_shim_ctx_find_desc_impl S fd = Some a \<and> descs S a = Some d \<and>
     desc_vtable d = Some epollfd_vtable \<and> \<not> desc_locked d \<and> desc_ctx d = Ctx_epollfd e"

text \<open>
  A descriptor that the epoll instance watches without calling back: it belongs to the system, or it is a
  description without a poll function.
\<close>

definition plain_target :: "EpollShimCtx \<Rightarrow> addr \<Rightarrow> EpollFDCtx \<Rightarrow> int \<Rightarrow> bool" where
  "plain_target S a e fd2 \<longleftrightarrow>
     (\<forall>n. lookup_node e fd2 = Some n \<longrightarrow> pollable_desc n = None) \<and>
     (\<forall>b. epoll_shim_ctx_find_desc_impl S fd2 = Some b \<longrightarrow>
        b \<noteq> a \<and> (\<forall>d. descs S b = Some d \<longrightarrow> desc_vtable d \<noteq> None \<and> \<not> has_poll_fun d))"

lemma epoll_ctl_body_step:
  assumes "epoll_at S fd a d e" "plain_target S a e fd2" "d1 = d\<lparr>refcount := refcount d + 1\<rparr>"
    and "\<And>T. epollfd_ctx_ctl (shim_platform P) e fd op fd2 None ev (T, w) = Some (r, e', T, w')"
  shows "epoll_ctl_body P fd op fd2 ev a (set_desc a d1 S) w =
    Some (r, set_desc a (d1\<lparr>desc_ctx := Ctx_epollfd e'\<rparr>) S, w')"
proof -
  note at = assms(1) [unfolded epoll_at_def]
  let ?S = "set_desc a d1 S"
  have base: "descs ?S a = Some d1" "\<not> desc_locked d1" "desc_ctx d1 = Ctx_epollfd e" "\<not> crashed ?S"
    using at assms(3) by simp_all
  show ?thesis
  proof (cases "op = EPOLL_CTL_ADD")
    case False
    then show ?thesis
      using on_epollfd_ctl [OF base assms(4)] by (simp add: epoll_ctl_body_def fd_as_pollable_desc_def)
  next
    case add: True
    have lk: "shim_lock ?S = Unlocked" using at by (simp add: shim_ready_def)
    show ?thesis
    proof (cases "epoll_shim_ctx_find_desc_impl S fd2")
      case None
      then show ?thesis
        using add find_desc_none [OF lk, of fd2] on_epollfd_ctl [OF base assms(4)]
        by (simp add: epoll_ctl_body_def fd_as_pollable_desc_def)
    next
      case (Some b)
      then obtain c where c: "descs S b = Some c" "0 < refcount c"
        using at find_desc_impl_live [of S fd2 b] by (auto simp: shim_ready_def)
      have b: "b \<noteq> a" "desc_vtable c \<noteq> None" "\<not> has_poll_fun c" using assms(2) Some c(1) by (auto simp: plain_target_def)
      let ?c = "c\<lparr>refcount := refcount c + 1\<rparr>"
      let ?T = "set_desc b ?c ?S"
      have f: "epoll_shim_ctx_find_desc ?S fd2 = Some (Some b, ?T)"
        using find_desc_some [OF lk, of fd2 b c] Some c b(1) by simp
      have p: "fd_as_pollable_desc ?T (Some b) = Some None"
        using b(2,3) by (simp add: fd_as_pollable_desc_def has_poll_fun_def)
      have o: "on_epollfd a (\<lambda>e s. epollfd_ctx_ctl (shim_platform P) e fd op fd2 None ev s) (?T, w) =
          Some (r, set_desc a (d1\<lparr>desc_ctx := Ctx_epollfd e'\<rparr>) ?T, w')"
        using base b(1) by (intro on_epollfd_ctl [OF _ _ _ _ assms(4)]) simp_all
      have sw: "set_desc a x (set_desc b ?c (set_desc a d1 S)) = set_desc b ?c (set_desc a x S)" for x
        using b(1) by (simp add: set_desc_def fun_upd_twist)
      have unr: "file_description_unref P (set_desc b ?c (set_desc a x S)) b w' = Some (Inr (), set_desc a x S, w')" for x
        using unref_extra [of "set_desc a x S" b c P w'] c b(1) by simp
      show ?thesis using add f p o by (simp add: epoll_ctl_body_def sw unr)
    qed
  qed
qed

lemma epoll_ctl_call:
  assumes "epoll_at S fd a d e" "plain_target S a e fd2" "op = EPOLL_CTL_DEL \<or> ev \<noteq> None"
    and "\<And>T. epollfd_ctx_ctl (shim_platform P) e fd op fd2 None ev (T, w) = Some (r, e', T, w')"
  shows "epoll_ctl_impl P S fd op fd2 ev w = Some (r, set_desc a (d\<lparr>desc_ctx := Ctx_epollfd e'\<rparr>) S, w')"
proof -
  note at = assms(1) [unfolded epoll_at_def]
  let ?d = "d\<lparr>refcount := refcount d + 1\<rparr>"
  have pos: "0 < refcount d" using at find_desc_impl_live [of S fd a] by (auto simp: shim_ready_def)
  have eq: "?d\<lparr>desc_ctx := Ctx_epollfd e'\<rparr> = (d\<lparr>desc_ctx := Ctx_epollfd e'\<rparr>)\<lparr>refcount := refcount d + 1\<rparr>" by simp
  have "file_description_unref P (set_desc a (?d\<lparr>desc_ctx := Ctx_epollfd e'\<rparr>) S) a w' =
      Some (Inr (), set_desc a (d\<lparr>desc_ctx := Ctx_epollfd e'\<rparr>) S, w')"
    unfolding eq using unref_one_more [OF pos, of "d\<lparr>desc_ctx := Ctx_epollfd e'\<rparr>" P a S w'] by simp
  then show ?thesis
    using epoll_ctl_body_step [OF assms(1,2) refl assms(4)] at assms(3)
    by (auto simp: epoll_ctl_impl_def with_desc_right [of S fd a d])
qed

section \<open>Properties\<close>



end
