(* ===== verification/Epoll_Waits.thy ===== *)
theory Epoll_Waits
  imports Epoll_Frame Epoll_Calls
begin

text \<open>
  \<open>epoll_wait\<close> as a program calls it: through the table, the reference and the mutex of the instance, with the
  callbacks into the timers and signal descriptors that the instance watches, and the loop that waits.
\<close>

section \<open>The system as an epoll context sees it\<close>

lemma shim_platform_more [simp]:
  "cfg_SIZE_MAX (shim_platform P) = cfg_SIZE_MAX P" "cfg_PIPE_BUF (shim_platform P) = cfg_PIPE_BUF P"
  "cfg_sizeof_kevent (shim_platform P) = cfg_sizeof_kevent P" "cfg_sizeof_pollfd (shim_platform P) = cfg_sizeof_pollfd P"
  "sys_poll (shim_platform P) pfds t = on_world (sys_poll P pfds t)"
  "sys_kqueue1 (shim_platform P) fl = on_world (sys_kqueue1 P fl)"
  "sys_realloc (shim_platform P) sz = on_world (sys_realloc P sz)"
  "vt_poll_fun (shim_platform P) = callback_poll P"
  by (simp_all add: shim_platform_def)

lemma on_world_eq: "on_world f s = (r, s') \<longleftrightarrow> fst s' = fst s \<and> f (snd s) = (r, snd s')"
  by (cases s; cases s') (auto split: prod.splits)

lemma platform_ok_shim:
  assumes "platform_ok P"
  shows "platform_ok (shim_platform P)"
  unfolding platform_ok_def
proof (intro conjI)
  note ok = assms [unfolded platform_ok_def]
  show "kevent_receipts (shim_platform P)" "poll_ok (shim_platform P)"
    using ok unfolding kevent_receipts_def poll_ok_def by (auto simp: on_world_eq)
  show "pipes_drain (shim_platform P)" "pollers_leave (shim_platform P)"
    using ok unfolding pipes_drain_def pollers_leave_def
    by (auto simp: loops_shim [OF assms])
  show "\<forall>fl w p w'. sys_pipe2 (shim_platform P) fl w = (Inr p, w') \<longrightarrow> 0 \<le> fst p \<and> 0 \<le> snd p"
    "\<forall>fd w st w'. sys_fstat (shim_platform P) fd w = (Inr st, w') \<longrightarrow> 0 \<le> fd"
    using ok by (auto simp: on_world_eq)
qed

lemma wf_shim [simp]:
  "epoll_wf (shim_platform P) e = epoll_wf P e"
  "rdhup_ok (shim_platform P) = rdhup_ok P"
  "fifos_ok (shim_platform P) e = fifos_ok P e"
  by (simp_all add: epoll_wf_def epoll_inv_def pipe_ok_def node_ok_def node_wf_def rdhup_ok_def fifos_ok_def)

section \<open>Time\<close>

text \<open>
  \<open>clk w\<close> is the time of the monotonic clock in a world: a reading lies between the times before and
  after it, and no call that a wait makes turns the clock back.
\<close>

definition clock_runs :: "'w platform \<Rightarrow> ('w \<Rightarrow> int) \<Rightarrow> bool" where
  "clock_runs P clk \<longleftrightarrow> clock_ok P \<and>
     (\<forall>w now w'. sys_clock_gettime P CLOCK_MONOTONIC w = (Inr now, w') \<longrightarrow> clk w \<le> nanos now \<and> nanos now \<le> clk w') \<and>
     (\<forall>w kq ch k. clk w \<le> clk (snd (sys_kevent P kq ch k w))) \<and>
     (\<forall>w fd k. clk w \<le> clk (snd (sys_read P fd k w))) \<and>
     (\<forall>w fd bs. clk w \<le> clk (snd (sys_write P fd bs w))) \<and>
     (\<forall>w fd. clk w \<le> clk (snd (sys_close P fd w))) \<and>
     (\<forall>w fl. clk w \<le> clk (snd (sys_pipe2 P fl w))) \<and>
     (\<forall>w fl. clk w \<le> clk (snd (sys_kqueue1 P fl w))) \<and>
     (\<forall>w pfds t. clk w \<le> clk (snd (sys_poll P pfds t w))) \<and>
     (\<forall>w nr. clk w \<le> clk (snd (sys_cond_wait P nr w))) \<and>
     (\<forall>w sz. clk w \<le> clk (snd (sys_realloc P sz w))) \<and>
     (\<forall>w a. clk w \<le> clk (sys_free P a w)) \<and>
     (\<forall>w. clk w \<le> clk (snd (sys_sigpending P w)))"

definition not_before :: "'w platform \<Rightarrow> ('w \<Rightarrow> int) \<Rightarrow> int \<Rightarrow> 'w \<Rightarrow> bool" where
  "not_before P clk c w \<longleftrightarrow> (clock_runs P clk \<longrightarrow> c \<le> clk w)"

lemma clock_runsD:
  assumes "clock_runs P clk"
  shows "clk w \<le> clk (snd (sys_kevent P kq ch k w))" "clk w \<le> clk (snd (sys_read P fd k w))"
    "clk w \<le> clk (snd (sys_write P fd bs w))" "clk w \<le> clk (snd (sys_close P fd w))"
    "clk w \<le> clk (snd (sys_pipe2 P fl w))" "clk w \<le> clk (snd (sys_kqueue1 P fl w))"
    "clk w \<le> clk (snd (sys_poll P pfds t w))" "clk w \<le> clk (snd (sys_cond_wait P nr w))"
    "clk w \<le> clk (snd (sys_realloc P sz w))" "clk w \<le> clk (sys_free P a w)" "clk w \<le> clk (snd (sys_sigpending P w))"
  using assms by (simp_all add: clock_runs_def)

lemma clock_reading:
  assumes "clock_runs P clk" "sys_clock_gettime P CLOCK_MONOTONIC w = (Inr now, w')"
  shows "ts_wf now" "clk w \<le> nanos now" "nanos now \<le> clk w'"
  using assms clock_okD [of P CLOCK_MONOTONIC w now w'] by (simp_all add: clock_runs_def)

lemma not_before_mono: "not_before P clk c w \<Longrightarrow> (clock_runs P clk \<Longrightarrow> clk w \<le> clk w') \<Longrightarrow> not_before P clk c w'"
  unfolding not_before_def by fastforce

interpretation clock: world_frame P "not_before P clk c" "{}" for P clk c
  by unfold_locales (auto elim!: not_before_mono intro: clock_runsD)

section \<open>Polling the watched descriptions\<close>

text \<open>
  A timer or signal descriptor that is not locked; polling it changes nothing but the flag of a signal
  descriptor.
\<close>

definition pollable :: "FileDescription \<Rightarrow> bool" where
  "pollable d \<longleftrightarrow> \<not> desc_locked d \<and>
     (desc_vtable d = Some timerfd_vtable \<and> (\<exists>t. desc_ctx d = Ctx_timerfd t) \<or>
      desc_vtable d = Some signalfd_vtable \<and> (\<exists>s. desc_ctx d = Ctx_signalfd s))"

definition polled :: "FileDescription \<Rightarrow> FileDescription \<Rightarrow> bool" where
  "polled d d' \<longleftrightarrow> pollable d \<and>
     (d' = d \<or> (\<exists>s k. desc_ctx d = Ctx_signalfd s \<and> d' = d\<lparr>desc_ctx := Ctx_signalfd (s\<lparr>sfd_kqueue_event := k\<rparr>)\<rparr>))"

text \<open>The kqueue of a signal descriptor is emptied in finitely many calls.\<close>

definition kqs_drain :: "'w platform \<Rightarrow> bool" where
  "kqs_drain P \<longleftrightarrow> (\<forall>kq w. \<exists>w'. drain_kq P kq w = Some w')"

text \<open>The shared state differs from \<open>S0\<close> at most in descriptions of \<open>A\<close>, which were polled.\<close>

definition polls_only :: "'w platform \<Rightarrow> addr set \<Rightarrow> EpollShimCtx \<Rightarrow> EpollShimCtx \<Rightarrow> bool" where
  "polls_only P A S0 S \<longleftrightarrow> pipes_drain P \<and> kqs_drain P \<and> \<not> crashed S0 \<and>
     (\<exists>st. S = S0\<lparr>descs := st\<rparr> \<and>
        (\<forall>b. if b \<in> A then \<exists>d d'. descs S0 b = Some d \<and> st b = Some d' \<and> polled d d'
             else st b = descs S0 b))"

lemma polled_refl [simp]: "polled d d \<longleftrightarrow> pollable d"
  by (simp add: polled_def)

lemma polled_trans:
  assumes "polled d d1" "polled d1 d2"
  shows "polled d d2"
proof (cases "d1 = d \<or> d2 = d1")
  case False
  then obtain s k s1 k1 where "desc_ctx d = Ctx_signalfd s" "d1 = d\<lparr>desc_ctx := Ctx_signalfd (s\<lparr>sfd_kqueue_event := k\<rparr>)\<rparr>"
    "desc_ctx d1 = Ctx_signalfd s1" "d2 = d1\<lparr>desc_ctx := Ctx_signalfd (s1\<lparr>sfd_kqueue_event := k1\<rparr>)\<rparr>"
    using assms unfolding polled_def by blast
  then have "d2 = d\<lparr>desc_ctx := Ctx_signalfd (s\<lparr>sfd_kqueue_event := k1\<rparr>)\<rparr>" by auto
  then show ?thesis using assms(1) \<open>desc_ctx d = Ctx_signalfd s\<close> unfolding polled_def by blast
qed (use assms in auto)

lemma polled_pollable: "polled d d' \<Longrightarrow> pollable d'"
  by (auto simp: polled_def pollable_def)

lemma polls_only_start:
  assumes "pipes_drain P" "kqs_drain P" "\<not> crashed S" "\<And>b. b \<in> A \<Longrightarrow> \<exists>d. descs S b = Some d \<and> pollable d"
  shows "polls_only P A S S"
  using assms unfolding polls_only_def by (fastforce intro: exI [of _ "descs S"])

lemma kqueue_event_clear_total:
  assumes "pipes_drain P" "kqs_drain P"
  shows "\<exists>k' w'. kqueue_event_clear P kq k w = Some (k', w')"
proof -
  obtain w1 where 1: "(if cfg_EVFILT_USER P then Some w else drain_pipe P (fst (kqe_self_pipe k)) w) = Some w1"
    using assms(1) by (cases "cfg_EVFILT_USER P") (auto simp: pipes_drain_def)
  obtain w2 where "drain_kq P kq w1 = Some w2" using assms(2) by (auto simp: kqs_drain_def)
  then show ?thesis using 1 by (simp add: kqueue_event_clear_def)
qed

lemma event_clear_keeps:
  "kqueue_event_clear P kq k w = Some (k', w') \<Longrightarrow> not_before P clk c w \<Longrightarrow> not_before P clk c w'"
  by (auto simp: kqueue_event_clear_def split: Option.bind_splits if_splits dest: clock.drain_pipe_I clock.drain_kq_I)

lemma event_trigger_keeps:
  assumes "kqueue_event_trigger P kq k w = (r, k', w')" "not_before P clk c w"
  shows "not_before P clk c w'"
proof -
  have w: "sys_write P fd bs w = (x, v) \<Longrightarrow> not_before P clk c v" for fd bs x v
    using clock.write_I [OF assms(2), of fd bs] by simp
  show ?thesis
    using assms by (auto simp: kqueue_event_trigger_def split: if_splits prod.splits sum.splits dest: clock.sys_I(1) w)
qed

lemma has_pending_keeps: "not_before P clk c w \<Longrightarrow> not_before P clk c (snd (signalfd_has_pending P s w))"
  by (rule not_before_mono) (use clock_runsD(11) [of P clk w] in \<open>auto simp: signalfd_has_pending_def split: prod.splits sum.splits\<close>)

lemma clear_signal_total:
  assumes "pipes_drain P" "kqs_drain P"
  shows "\<exists>b k w'. signalfd_ctx_clear_signal P s kq t w = Some (b, s\<lparr>sfd_kqueue_event := k\<rparr>, w') \<and>
    (not_before P clk c w \<longrightarrow> not_before P clk c w')"
proof -
  let ?pend = "\<lambda>v. case signalfd_has_pending P s v of (Inl _, v1) \<Rightarrow> (True, v1) | (Inr p, v1) \<Rightarrow> (\<not> compat_sigisemptyset p, v1)"
  obtain keep w1 where k: "(if t then ?pend w else (False, w)) = (keep, w1)" by fastforce
  obtain ke w2 where c: "kqueue_event_clear P kq (sfd_kqueue_event s) w1 = Some (ke, w2)"
    using kqueue_event_clear_total [OF assms] by blast
  obtain b w3 where p: "?pend w2 = (b, w3)" by fastforce
  obtain q ke' w4 where tr: "kqueue_event_trigger P kq ke w3 = (q, ke', w4)" by (cases "kqueue_event_trigger P kq ke w3") auto
  have pend: "not_before P clk c v \<longrightarrow> not_before P clk c v'" if "?pend v = (b, v')" for v v' b
    using that has_pending_keeps [of P clk c v s] by (auto split: prod.splits sum.splits)
  have 1: "not_before P clk c w \<longrightarrow> not_before P clk c w1" using k pend by (auto split: if_splits)
  have 2: "not_before P clk c w1 \<longrightarrow> not_before P clk c w2" using event_clear_keeps [OF c] by blast
  have 3: "not_before P clk c w2 \<longrightarrow> not_before P clk c w3" by (rule pend [OF p])
  have 4: "not_before P clk c w3 \<longrightarrow> not_before P clk c w4" using event_trigger_keeps [OF tr] by blast
  show ?thesis
  proof (cases keep)
    case True
    then show ?thesis using k 1 by (auto simp: signalfd_ctx_clear_signal_def intro: exI [of _ "sfd_kqueue_event s"])
  next
    case False
    then show ?thesis
      using k c p tr 1 2 3 4 by (cases b) (auto simp: signalfd_ctx_clear_signal_def signalfd_ctx_trigger_manually_def)
  qed
qed

lemma fd_poll_polled:
  assumes "pipes_drain P" "kqs_drain P" "descs S b = Some d" "pollable d"
  shows "\<exists>r d' w'. fd_poll P S b fd (Some rv) w = Some (r, set_desc b d' S, w') \<and> polled d d' \<and>
    (not_before P clk c w \<longrightarrow> not_before P clk c w')"
proof -
  have u: "\<not> desc_locked d" using assms(4) by (simp add: pollable_def)
  consider t where "desc_vtable d = Some timerfd_vtable" "desc_ctx d = Ctx_timerfd t"
    | s where "desc_vtable d = Some signalfd_vtable" "desc_ctx d = Ctx_signalfd s"
    using assms(4) by (auto simp: pollable_def)
  then show ?thesis
  proof cases
    case 1
    then show ?thesis
      using assms(3,4) u
      by (auto simp: fd_poll_def timerfd_poll_def lock_desc_free timerfd_ctx_poll_def unlock_set_desc intro!: exI [of _ d])
  next
    case 2
    obtain p k w' where "signalfd_ctx_clear_signal P s fd True w = Some (p, s\<lparr>sfd_kqueue_event := k\<rparr>, w')"
      "not_before P clk c w \<longrightarrow> not_before P clk c w'"
      using clear_signal_total [OF assms(1,2)] by blast
    then show ?thesis
      using assms(3,4) u 2
      by (auto simp: fd_poll_def signalfd_poll_def lock_desc_free signalfd_ctx_poll_def unlock_set_desc polled_def)
  qed
qed

lemma callback_poll_polls:
  assumes "polls_only P A S0 (fst s)" "p \<in> A"
  shows "polls_only P A S0 (fst (snd (callback_poll P p fd (Some rv) s)))" (is ?polls)
    and "not_before P clk c (snd s) \<Longrightarrow> not_before P clk c (snd (snd (callback_poll P p fd (Some rv) s)))"
proof -
  obtain S w where s: "s = (S, w)" by fastforce
  obtain st where ok: "pipes_drain P" "kqs_drain P" "\<not> crashed S0" and st: "S = S0\<lparr>descs := st\<rparr>"
    and b: "\<forall>b. if b \<in> A then \<exists>d d'. descs S0 b = Some d \<and> st b = Some d' \<and> polled d d' else st b = descs S0 b"
    using assms(1) unfolding polls_only_def s by auto
  obtain d d' where d: "descs S0 p = Some d" "st p = Some d'" "polled d d'" using b assms(2) by metis
  have "descs S p = Some d'" using d(2) st by simp
  then obtain r d2 w' where f: "fd_poll P S p fd (Some rv) w = Some (r, set_desc p d2 S, w')" "polled d' d2"
    "not_before P clk c w \<longrightarrow> not_before P clk c w'"
    using fd_poll_polled [OF ok(1,2) _ polled_pollable [OF d(3)]] by blast
  have "fst (snd (callback_poll P p fd (Some rv) s)) = S0\<lparr>descs := st(p \<mapsto> d2)\<rparr>"
    using f(1) st by (simp add: s callback_poll_def set_desc_def)
  moreover have "\<forall>b. if b \<in> A then \<exists>d d'. descs S0 b = Some d \<and> (st(p \<mapsto> d2)) b = Some d' \<and> polled d d'
      else (st(p \<mapsto> d2)) b = descs S0 b"
    using b d polled_trans [OF d(3) f(2)] assms(2) by (simp split: if_splits)
  ultimately show ?polls using ok unfolding polls_only_def by blast
  show "not_before P clk c (snd s) \<Longrightarrow> not_before P clk c (snd (snd (callback_poll P p fd (Some rv) s)))"
    using f by (simp add: s callback_poll_def)
qed

lemma fst_on_world [simp]: "fst (snd (on_world f s)) = fst s" "fst (on_world_unit g s) = fst s"
  "snd (snd (on_world f s)) = snd (f (snd s))" "snd (on_world_unit g s) = g (snd s)"
  by (cases s; simp split: prod.splits)+

interpretation shim: world_frame "shim_platform P"
  "\<lambda>s. polls_only P A S0 (fst s) \<and> not_before P clk c (snd s)" A for P A S0 clk c
  by unfold_locales (simp_all add: callback_poll_polls(1), blast intro: callback_poll_polls(2))

section \<open>One pass of a call\<close>

definition targets :: "EpollFDCtx \<Rightarrow> addr set" where
  "targets e = {p. \<exists>x n. nodes e x = Some n \<and> pollable_desc n = Some p}"

lemma watched_targets: "watched_in A e \<longleftrightarrow> targets e \<subseteq> A"
  by (auto simp: watched_in_def watches_def targets_def)

text \<open>
  The epoll instance at an address, ready for a call: well-formed, not locked, referenced by the table and by
  the call, and the descriptions it watches are ready to be polled.
\<close>

definition instance_ok :: "'w platform \<Rightarrow> addr \<Rightarrow> FileDescription \<Rightarrow> EpollFDCtx \<Rightarrow> EpollShimCtx \<Rightarrow> bool" where
  "instance_ok P a d e S \<longleftrightarrow>
     \<not> crashed S \<and> descs S a = Some d \<and> desc_vtable d = Some epollfd_vtable \<and> \<not> desc_locked d \<and> refcount d > 1 \<and>
     desc_ctx d = Ctx_epollfd e \<and> epoll_wf P e \<and> fifos_ok P e \<and>
     (\<forall>p \<in> targets e. \<exists>d. descs S p = Some d \<and> pollable d)"

text \<open>The kernel serves the pass of a wait on the instance (see \<open>serves\<close>).\<close>

definition pass_served :: "'w platform \<Rightarrow> addr \<Rightarrow> int \<Rightarrow> int \<Rightarrow> 'w state \<Rightarrow> bool" where
  "pass_served P a kq nev s \<longleftrightarrow>
     (\<forall>d e c e1 s1. descs (fst s) a = Some d \<and> desc_ctx d = Ctx_epollfd e \<and>
        wait_prepare (shim_platform P) e kq nev (set_desc a (d\<lparr>desc_locked := True\<rparr>) (fst s), snd s) =
          Some (Inr (Some c), e1, s1) \<longrightarrow>
        serves (shim_platform P) kq (nat nev) c e1 s1)"

lemma polls_only_sel:
  assumes "polls_only P A S0 S"
  shows "\<not> crashed S" "b \<notin> A \<Longrightarrow> descs S b = descs S0 b"
    "b \<in> A \<Longrightarrow> \<exists>d. descs S b = Some d \<and> pollable d"
    "open_files S = open_files S0" "shim_lock S = shim_lock S0" "init_error S = init_error S0"
proof -
  obtain st where ok: "\<not> crashed S0" and st: "S = S0\<lparr>descs := st\<rparr>"
    and b: "\<forall>b. if b \<in> A then \<exists>d d'. descs S0 b = Some d \<and> st b = Some d' \<and> polled d d' else st b = descs S0 b"
    using assms unfolding polls_only_def by auto
  show "\<not> crashed S" "open_files S = open_files S0" "shim_lock S = shim_lock S0" "init_error S = init_error S0"
    using ok st by simp_all
  show "b \<notin> A \<Longrightarrow> descs S b = descs S0 b" using b st by (metis EpollShimCtx.select_convs(6) EpollShimCtx.surjective EpollShimCtx.update_convs(6))
  show "b \<in> A \<Longrightarrow> \<exists>d. descs S b = Some d \<and> pollable d"
    using b [rule_format, of b] st polled_pollable by auto
qed

lemma polls_only_other:
  assumes "polls_only P A (set_desc a d1 S0) S" "a \<notin> A"
  shows "polls_only P A (set_desc a d2 S0) (set_desc a d2 S)"
proof -
  obtain st where ok: "pipes_drain P" "kqs_drain P" "\<not> crashed S0" and st: "S = (set_desc a d1 S0)\<lparr>descs := st\<rparr>"
    and b: "\<forall>b. if b \<in> A then \<exists>d d'. descs (set_desc a d1 S0) b = Some d \<and> st b = Some d' \<and> polled d d'
      else st b = descs (set_desc a d1 S0) b"
    using assms(1) unfolding polls_only_def by auto
  have "set_desc a d2 S = (set_desc a d2 S0)\<lparr>descs := st(a \<mapsto> d2)\<rparr>" using st by (simp add: set_desc_def)
  moreover have "if b \<in> A then \<exists>d d'. descs (set_desc a d2 S0) b = Some d \<and> (st(a \<mapsto> d2)) b = Some d' \<and> polled d d'
      else (st(a \<mapsto> d2)) b = descs (set_desc a d2 S0) b" for b
    using b [rule_format, of b] assms(2) by (cases "b \<in> A"; cases "b = a") simp_all
  moreover have "\<not> crashed (set_desc a d2 S0)" using ok(3) by simp
  ultimately show ?thesis using ok(1,2) unfolding polls_only_def by blast
qed

lemma instance_pass:
  assumes "platform_ok P" "kqs_drain P" "rdhup_ok P" "nev \<ge> 1" "instance_ok P a d e S" "pass_served P a kq nev (S, w)"
  obtains r e' S' w' where
    "on_epollfd a (\<lambda>e. epollfd_ctx_wait (shim_platform P) e kq nev) (S, w) = Some (r, S', w')"
    "polls_only P (targets e) (set_desc a (d\<lparr>desc_ctx := Ctx_epollfd e'\<rparr>) S) S'"
    "instance_ok P a (d\<lparr>desc_ctx := Ctx_epollfd e'\<rparr>) e' S'" "interest_list e' \<subseteq>\<^sub>m interest_list e"
    "\<forall>evs. r = Inr evs \<longrightarrow> reported e' (nat nev) evs"
    "not_before P clk c w \<longrightarrow> not_before P clk c w'"
proof -
  note h = assms(5) [unfolded instance_ok_def]
  let ?d1 = "d\<lparr>desc_locked := True\<rparr>"
  let ?S1 = "set_desc a ?d1 S"
  have a: "a \<notin> targets e"
    using h by (auto simp: pollable_def)
  have start: "polls_only P (targets e) ?S1 ?S1"
    using h a assms(2) platform_okD(3) [OF assms(1)] by (intro polls_only_start) auto
  have "\<exists>r e' s'. epollfd_ctx_wait (shim_platform P) e kq nev (?S1, w) = Some (r, e', s') \<and> epoll_wf (shim_platform P) e' \<and>
      fifos_ok (shim_platform P) e' \<and> interest_list e' \<subseteq>\<^sub>m interest_list e \<and>
      (\<forall>evs. r = Inr evs \<longrightarrow> reported e (nat nev) evs \<and> reported e' (nat nev) evs)"
    using h assms(3,4,6) by (intro wait_step [OF platform_ok_shim [OF assms(1)]]) (auto simp: pass_served_def)
  then obtain r e' S2 w2 where w: "epollfd_ctx_wait (shim_platform P) e kq nev (?S1, w) = Some (r, e', S2, w2)"
    and e': "epoll_wf P e'" "fifos_ok P e'" "interest_list e' \<subseteq>\<^sub>m interest_list e" "\<forall>evs. r = Inr evs \<longrightarrow> reported e' (nat nev) evs"
    by (metis prod.collapse wf_shim(1,3))
  have S2: "polls_only P (targets e) ?S1 S2" "targets e' \<subseteq> targets e"
    using shim.wait_frame [OF platform_ok_shim [OF assms(1)] _ w, of "targets e" ?S1 "\<lambda>_. 0" 0] h start
    by (simp_all add: watched_targets not_before_def)
  have time: "not_before P clk c w \<longrightarrow> not_before P clk c w2"
    using shim.wait_frame [OF platform_ok_shim [OF assms(1)] _ w, of "targets e" ?S1 clk c] h start
    by (simp add: watched_targets)
  let ?d' = "d\<lparr>desc_ctx := Ctx_epollfd e'\<rparr>"
  have d2: "descs S2 a = Some ?d1" using polls_only_sel(2) [OF S2(1) a] by simp
  have "on_epollfd a (\<lambda>e. epollfd_ctx_wait (shim_platform P) e kq nev) (S, w) = Some (r, set_desc a ?d' S2, w2)"
    using h w d2 polls_only_sel(1) [OF S2(1)] by (simp add: on_epollfd_def lock_desc_free not_crashed_def unlock_set_desc)
  moreover have po: "polls_only P (targets e) (set_desc a ?d' S) (set_desc a ?d' S2)"
    using polls_only_other [OF S2(1) a] by simp
  moreover have t: "\<forall>p \<in> targets e'. \<exists>d. descs (set_desc a ?d' S2) p = Some d \<and> pollable d"
    using polls_only_sel(3) [OF po] S2(2) by blast
  moreover have "instance_ok P a ?d' e' (set_desc a ?d' S2)"
    using h e' polls_only_sel(1) [OF po] t by (simp add: instance_ok_def)
  ultimately show thesis using that e' time by blast
qed

section \<open>One round of waiting\<close>

text \<open>What the other threads do during a wait keeps the instance ready: they do not close it, for example.\<close>

definition env_ok :: "'w platform \<Rightarrow> 'w env \<Rightarrow> addr \<Rightarrow> bool" where
  "env_ok P env a \<longleftrightarrow> (\<forall>d e s. instance_ok P a d e (fst s) \<longrightarrow> (\<exists>d' e'. instance_ok P a d' e' (fst (env s))))"

lemma prepare_poll_total:
  assumes "epoll_wf P e"
  shows "(\<exists>ec w'. prepare_poll P kq e (S, w) = Some (Inl ec, e, S, w')) \<or>
    (\<exists>pfds w'. prepare_poll P kq e (S, w) = Some (Inr pfds, e\<lparr>nr_polling_threads := nr_polling_threads e + 1\<rparr>, S, w'))"
proof -
  have polls: "set (poll_fds e) \<subseteq> dom (nodes e)" "poll_fds_size e = length (poll_fds e)"
    using assms by (simp_all add: epoll_wf_def epoll_inv_def polls_ok_def)
  obtain ps where ps: "poll_entries (nodes e) (poll_fds e) = Some ps" "length ps = length (poll_fds e)"
    using poll_entries_total [OF polls(1)] by blast
  obtain q w1 where q: "sys_realloc P ((1 + poll_fds_size e) * cfg_sizeof_pollfd P) w = (q, w1)" by fastforce
  show ?thesis
    using ps polls(2) q by (cases q) (auto simp: prepare_poll_def epollfd_ctx_fill_pollfds_def Let_def)
qed

lemma block_round_total:
  assumes "instance_ok P a d e S" "env_ok P env a"
  obtains r s' d' e' where "block_round P env a kq t sigs (S, w) = Some (r, s')" "instance_ok P a d' e' (fst s')"
    "\<forall>t'. r = Inr t' \<longrightarrow> (t' = None \<longleftrightarrow> t = None) \<and>
       (\<forall>dl x. t' = Some (dl, x) \<longrightarrow> (\<exists>y now v. t = Some (dl, y) \<and> x = remaining_timeout dl now \<and>
          sys_clock_gettime P CLOCK_MONOTONIC v = (Inr now, snd s')))"
proof -
  note h = assms(1) [unfolded instance_ok_def]
  have lk: "lock_desc S a = Some (d\<lparr>desc_locked := True\<rparr>, set_desc a (d\<lparr>desc_locked := True\<rparr>) S)"
    using h by (simp add: lock_desc_free)
  have back_d: "d\<lparr>desc_ctx := Ctx_epollfd e\<rparr> = d" using h by (cases d) simp
  let ?e1 = "e\<lparr>nr_polling_threads := nr_polling_threads e + 1\<rparr>"
  consider ec w1 where "prepare_poll P kq e (set_desc a (d\<lparr>desc_locked := True\<rparr>) S, w) =
      Some (Inl ec, e, set_desc a (d\<lparr>desc_locked := True\<rparr>) S, w1)"
    | pfds w1 where "prepare_poll P kq e (set_desc a (d\<lparr>desc_locked := True\<rparr>) S, w) =
      Some (Inr pfds, ?e1, set_desc a (d\<lparr>desc_locked := True\<rparr>) S, w1)"
    using prepare_poll_total [of P e kq] h by blast
  then show thesis
  proof cases
    case 1
    have "on_epollfd a (prepare_poll P kq) (S, w) = Some (Inl ec, S, w1)"
      using h lk 1 back_d by (simp add: on_epollfd_def not_crashed_def unlock_set_desc)
    then show thesis using that [of "Inl ec" "(S, w1)"] assms(1) by (simp add: block_round_def)
  next
    case 2
    let ?S1 = "set_desc a (d\<lparr>desc_ctx := Ctx_epollfd ?e1\<rparr>) S"
    have 1: "on_epollfd a (prepare_poll P kq) (S, w) = Some (Inr pfds, ?S1, w1)"
      using h lk 2 by (simp add: on_epollfd_def not_crashed_def unlock_set_desc)
    obtain n w2 where n: "real_ppoll P pfds (map_option snd t) sigs w1 = (n, w2)" by fastforce
    have "leave_poll a (?S1, w2) = Some (set_desc a (d\<lparr>desc_ctx := Ctx_epollfd e\<rparr>) S, w2)" by (simp add: leave_poll_def)
    then have l: "leave_poll a (?S1, w2) = Some (S, w2)" using h back_d by simp
    obtain S3 w3 where s3: "env (S, w2) = (S3, w3)" by fastforce
    obtain d' e' where i: "instance_ok P a d' e' S3" using assms s3 unfolding env_ok_def by (metis fst_conv)
    show thesis
    proof (cases "\<exists>ec. n = Inl ec")
      case True
      then obtain ec where "n = Inl ec" by blast
      then show thesis using that [of "Inl ec" "(S3, w3)" d' e'] 1 n l s3 i by (simp add: block_round_def)
    next
      case False
      then obtain k where k: "n = Inr k" by (cases n) auto
      show thesis
      proof (cases t)
        case None
        then show thesis using that [of "Inr None" "(S3, w3)" d' e'] 1 n l s3 i k by (simp add: block_round_def)
      next
        case (Some p)
        obtain dl y where p: "p = (dl, y)" by fastforce
        obtain q w4 where q: "sys_clock_gettime P CLOCK_MONOTONIC w3 = (q, w4)" by fastforce
        show thesis
        proof (cases q)
          case (Inl ec)
          then show thesis
            using that [of "Inl ec" "(S3, w4)" d' e'] 1 n l s3 i k Some p q by (simp add: block_round_def)
        next
          case (Inr now)
          then show thesis
            using that [of "Inr (Some (dl, remaining_timeout dl now))" "(S3, w4)" d' e'] 1 n l s3 i k Some p q
            by (auto simp: block_round_def)
        qed
      qed
    qed
  qed
qed

section \<open>The waiting loop\<close>

text \<open>
  The kernel and the other threads attend to a wait: every pass is served, and after finitely many rounds
  there is something to report, an error, or the timeout is over.
\<close>

inductive attended ::
  "'w platform \<Rightarrow> 'w env \<Rightarrow> addr \<Rightarrow> int \<Rightarrow> int \<Rightarrow> sigset option \<Rightarrow> (timespec \<times> timespec) option \<Rightarrow> 'w state \<Rightarrow> bool"
  for P env a kq nev sigs where
  round: "pass_served P a kq nev s \<Longrightarrow>
    \<forall>s1 t' s2. on_epollfd a (\<lambda>e. epollfd_ctx_wait (shim_platform P) e kq nev) s = Some (Inr [], s1) \<and>
        (\<forall>dl. t \<noteq> Some (dl, ts_zero)) \<and> block_round P env a kq t sigs s1 = Some (Inr t', s2) \<longrightarrow>
      attended P env a kq nev sigs t' s2 \<Longrightarrow>
    attended P env a kq nev sigs t s"

lemma remaining_zero:
  assumes "ts_wf dl" "ts_wf now" "remaining_timeout dl now = ts_zero"
  shows "nanos dl \<le> nanos now"
proof (rule ccontr)
  assume n: "\<not> nanos dl \<le> nanos now"
  then have "0 \<le> tv_sec (timespecsub dl now)" using timespecsub_sign [OF assms(1,2)] by simp
  then have "timespecsub dl now = ts_zero" using assms(3) by (simp add: remaining_timeout_def Let_def)
  then have "nanos dl - nanos now = nanos ts_zero" using nanos_timespecsub [of dl now] by simp
  then show False using n by (simp add: nanos_def)
qed

text \<open>A timeout that ends at time \<open>c\<close> at the earliest.\<close>

definition ends_after :: "('w \<Rightarrow> int) \<Rightarrow> int \<Rightarrow> (timespec \<times> timespec) option \<Rightarrow> 'w \<Rightarrow> bool" where
  "ends_after clk c t w \<longleftrightarrow>
     (\<forall>dl y. t = Some (dl, y) \<longrightarrow> (if y = ts_zero then c \<le> clk w else c \<le> nanos dl \<and> ts_wf dl))"

text \<open>The end of a wait: the results belong to the interest list of the instance, and are empty only after a timeout.\<close>

definition waited ::
  "'w platform \<Rightarrow> ('w \<Rightarrow> int) \<Rightarrow> addr \<Rightarrow> int \<Rightarrow> int \<Rightarrow> bool \<Rightarrow> (errno + epoll_event list) \<Rightarrow> 'w state \<Rightarrow> bool" where
  "waited P clk a nev c timed r s \<longleftrightarrow>
     (\<exists>d' e'. instance_ok P a d' e' (fst s) \<and>
        (\<forall>evs. r = Inr evs \<longrightarrow>
           reported e' (nat nev) evs \<and> (evs = [] \<longrightarrow> timed \<and> c \<le> clk (snd s))))"

lemma wait_or_block_step:
  assumes "platform_ok P" "kqs_drain P" "rdhup_ok P" "clock_runs P clk" "env_ok P env a" "nev \<ge> 1"
    and "attended P env a kq nev sigs t s" "instance_ok P a d e (fst s)" "ends_after clk c t (snd s)"
  shows "\<exists>r s'. epollfd_ctx_wait_or_block P env a kq nev t sigs s = Some (r, s') \<and> waited P clk a nev c (t \<noteq> None) r s'"
  using assms(7-)
proof (induction arbitrary: d e rule: attended.induct)
  case (round s t)
  obtain S w where s: "s = (S, w)" by fastforce
  have inst: "instance_ok P a d e S" "pass_served P a kq nev (S, w)" using round.prems(1) round.hyps(1) s by simp_all
  obtain r e' S' w' where p0:
    "on_epollfd a (\<lambda>e. epollfd_ctx_wait (shim_platform P) e kq nev) (S, w) = Some (r, S', w')"
    and i: "instance_ok P a (d\<lparr>desc_ctx := Ctx_epollfd e'\<rparr>) e' S'" "interest_list e' \<subseteq>\<^sub>m interest_list e"
    and rep: "\<forall>evs. r = Inr evs \<longrightarrow> reported e' (nat nev) evs"
    and time: "not_before P clk c w \<longrightarrow> not_before P clk c w'"
    by (rule instance_pass [OF assms(1-3,6) inst, of clk c])
  note p = p0 [folded s]
  have stop: ?case
    if z: "r = Inr [] \<longrightarrow> (\<exists>dl. t = Some (dl, ts_zero))"
  proof -
    have "epollfd_ctx_wait_or_block P env a kq nev t sigs s = Some (r, S', w')"
      using z by (subst epollfd_ctx_wait_or_block.simps) (auto simp: p split: sum.splits)
    moreover have "waited P clk a nev c (t \<noteq> None) r (S', w')"
      unfolding waited_def
    proof (intro exI conjI allI impI)
      show "instance_ok P a (d\<lparr>desc_ctx := Ctx_epollfd e'\<rparr>) e' (fst (S', w'))" using i(1) by simp
    next
      fix evs assume r: "r = Inr evs"
      show "reported e' (nat nev) evs" using rep r by blast
      assume "evs = []"
      then obtain dl where t: "t = Some (dl, ts_zero)" using z r by blast
      then show "t \<noteq> None" by simp
      have "c \<le> clk w" using round.prems(2) t by (simp add: ends_after_def s)
      then show "c \<le> clk (snd (S', w'))" using time assms(4) by (simp add: not_before_def)
    qed
    ultimately show ?thesis by blast
  qed
  show ?case
  proof (cases "r = Inr [] \<and> (\<forall>dl. t \<noteq> Some (dl, ts_zero))")
    case True
    obtain q s2 d2 e2 where b: "block_round P env a kq t sigs (S', w') = Some (q, s2)" and i2: "instance_ok P a d2 e2 (fst s2)"
      and q: "\<forall>t'. q = Inr t' \<longrightarrow> (t' = None \<longleftrightarrow> t = None) \<and>
       (\<forall>dl x. t' = Some (dl, x) \<longrightarrow> (\<exists>y now v. t = Some (dl, y) \<and> x = remaining_timeout dl now \<and>
          sys_clock_gettime P CLOCK_MONOTONIC v = (Inr now, snd s2)))"
      by (rule block_round_total [OF i(1) assms(5)])
    show ?thesis
    proof (cases q)
      case (Inl ec)
      have "epollfd_ctx_wait_or_block P env a kq nev t sigs s = Some (Inl ec, s2)"
        using True by (subst epollfd_ctx_wait_or_block.simps) (auto simp: p b Inl)
      then show ?thesis using i2 by (auto simp: waited_def)
    next
      case (Inr t')
      have "ends_after clk c t' (snd s2)"
        unfolding ends_after_def
      proof (intro allI impI)
        fix dl x assume t': "t' = Some (dl, x)"
        then obtain y now v where y: "t = Some (dl, y)" "x = remaining_timeout dl now"
          "sys_clock_gettime P CLOCK_MONOTONIC v = (Inr now, snd s2)" using q Inr by blast
        have dl: "c \<le> nanos dl" "ts_wf dl" using round.prems(2) y(1) True by (auto simp: ends_after_def)
        have now: "ts_wf now" "nanos now \<le> clk (snd s2)"
          using clock_reading [OF assms(4) y(3)] by blast+
        show "if x = ts_zero then c \<le> clk (snd s2) else c \<le> nanos dl \<and> ts_wf dl"
          using remaining_zero [OF dl(2) now(1)] y(2) dl now(2) by auto
      qed
      moreover have "on_epollfd a (\<lambda>e. epollfd_ctx_wait (shim_platform P) e kq nev) s = Some (Inr [], S', w') \<and>
          (\<forall>dl. t \<noteq> Some (dl, ts_zero)) \<and> block_round P env a kq t sigs (S', w') = Some (Inr t', s2)"
        using p b True Inr by simp
      ultimately have "\<exists>r s'. epollfd_ctx_wait_or_block P env a kq nev t' sigs s2 = Some (r, s') \<and>
          waited P clk a nev c (t' \<noteq> None) r s'"
        using round.IH [THEN spec, THEN spec, THEN spec, THEN mp] i2 by blast
      moreover have "epollfd_ctx_wait_or_block P env a kq nev t sigs s = epollfd_ctx_wait_or_block P env a kq nev t' sigs s2"
        using True by (subst epollfd_ctx_wait_or_block.simps) (auto simp: p b Inr)
      moreover have "t' \<noteq> None \<longleftrightarrow> t \<noteq> None" using q Inr by blast
      ultimately show ?thesis by simp
    qed
  qed (use stop in blast)
qed

section \<open>The call\<close>

text \<open>The timeout with which a call starts to wait.\<close>

definition wait_start :: "'w platform \<Rightarrow> int \<Rightarrow> 'w \<Rightarrow> (timespec \<times> timespec) option \<Rightarrow> 'w \<Rightarrow> bool" where
  "wait_start P to w t w1 \<longleftrightarrow>
     (if to < 0 then t = None \<and> w1 = w
      else \<exists>p. timeout_to_deadline P to w = Some (Inr p, w1) \<and> t = Some p)"

lemma timeout_to_deadline_step:
  assumes "clock_runs P clk" "0 \<le> to" "to \<le> INT32_MAX"
  shows "(\<exists>ec w1. timeout_to_deadline P to w = Some (Inl ec, w1)) \<or>
    (\<exists>dl y w1. timeout_to_deadline P to w = Some (Inr (dl, y), w1) \<and> ends_after clk (clk w + to * 1000000) (Some (dl, y)) w1)"
proof (cases "to = 0")
  case True
  then show ?thesis by (simp add: timeout_to_deadline_def ends_after_def)
next
  case False
  obtain q w1 where q: "sys_clock_gettime P CLOCK_MONOTONIC w = (q, w1)" by fastforce
  let ?t = "\<lparr>tv_sec = to sdiv 1000, tv_nsec = (to smod 1000) * 1000000\<rparr>"
  have dm: "to sdiv 1000 = to div 1000" "to smod 1000 = to mod 1000"
    using assms(2) by (simp_all add: signed_divide_int_def signed_modulo_int_def sgn_if)
  have t: "ts_wf ?t" using assms(2,3) unfolding dm by (auto simp: ts_defs)
  have n: "nanos ?t = to * 1000000"
    unfolding dm nanos_def timespec.simps using div_mult_mod_eq [of to 1000] by linarith
  have nz: "?t \<noteq> ts_zero" using n False by (auto simp: nanos_def)
  show ?thesis
  proof (cases q)
    case (Inl ec)
    then show ?thesis using False assms(2) q by (simp add: timeout_to_deadline_def)
  next
    case (Inr now)
    have now: "ts_wf now" "clk w \<le> nanos now"
      using clock_reading [OF assms(1) q [unfolded Inr]] by blast+
    show ?thesis
    proof (cases rule: timespecadd_safe_cases [OF now(1) t])
      case (1 v)
      then have "ends_after clk (clk w + to * 1000000) (Some (v, ?t)) w1"
        using nz n now(2) by (auto simp: ends_after_def)
      then show ?thesis using 1(1) False assms(2) q Inr by (simp add: timeout_to_deadline_def)
    next
      case 2
      then show ?thesis using False assms(2) q Inr by (simp add: timeout_to_deadline_def)
    qed
  qed
qed

lemma pwait_body_step:
  assumes "platform_ok P" "kqs_drain P" "rdhup_ok P" "clock_runs P clk" "env_ok P env a" "1 \<le> nev" "to \<le> INT32_MAX"
    and "instance_ok P a d e S" "\<And>t w1. wait_start P to w t w1 \<Longrightarrow> attended P env a fd nev sigs t (S, w1)"
  shows "\<exists>r S' w'. epoll_pwait_body P env fd nev to sigs a S w = Some (r, S', w') \<and>
    waited P clk a nev (clk w + to * 1000000) (0 \<le> to) r (S', w')"
proof -
  have run: "\<exists>r S' w'. epollfd_ctx_wait_or_block P env a fd nev t sigs (S, w1) = Some (r, S', w') \<and>
      waited P clk a nev (clk w + to * 1000000) (t \<noteq> None) r (S', w')"
    if "wait_start P to w t w1" "ends_after clk (clk w + to * 1000000) t w1" for t w1
    using wait_or_block_step [OF assms(1-6) assms(9) [OF that(1)], of d e "clk w + to * 1000000"] assms(8) that(2)
    by (metis fst_conv snd_conv prod.collapse)
  consider "to < 0" | ec w1 where "0 \<le> to" "timeout_to_deadline P to w = Some (Inl ec, w1)"
    | dl y w1 where "0 \<le> to" "timeout_to_deadline P to w = Some (Inr (dl, y), w1)"
      "ends_after clk (clk w + to * 1000000) (Some (dl, y)) w1"
    using timeout_to_deadline_step [OF assms(4) _ assms(7), of w] by (meson not_le)
  then show ?thesis
  proof cases
    case 1
    have "ends_after clk (clk w + to * 1000000) None w" by (simp add: ends_after_def)
    then obtain r S' w' where "epollfd_ctx_wait_or_block P env a fd nev None sigs (S, w) = Some (r, S', w')"
      "waited P clk a nev (clk w + to * 1000000) False r (S', w')"
      using run [of None w] 1 by (auto simp: wait_start_def)
    then show ?thesis using 1 by (simp add: epoll_pwait_body_def)
  next
    case 2
    then have "epoll_pwait_body P env fd nev to sigs a S w = Some (Inl ec, S, w1)" by (simp add: epoll_pwait_body_def)
    then show ?thesis using assms(8) by (auto simp: waited_def)
  next
    case 3
    then obtain r S' w' where "epollfd_ctx_wait_or_block P env a fd nev (Some (dl, y)) sigs (S, w1) = Some (r, S', w')"
      "waited P clk a nev (clk w + to * 1000000) True r (S', w')"
      using run [of "Some (dl, y)" w1] by (auto simp: wait_start_def)
    then show ?thesis using 3 by (simp add: epoll_pwait_body_def)
  qed
qed

text \<open>The instance that a call finds has one more reference while the call runs.\<close>

lemma epoll_at_instance:
  assumes "epoll_at S fd a d e" "epoll_wf P e" "fifos_ok P e" "\<forall>p \<in> targets e. \<exists>d. descs S p = Some d \<and> pollable d"
  shows "instance_ok P a (d\<lparr>refcount := refcount d + 1\<rparr>) e (set_desc a (d\<lparr>refcount := refcount d + 1\<rparr>) S)"
proof -
  note at = assms(1) [unfolded epoll_at_def]
  have "0 < refcount d" using at find_desc_impl_live [of S fd a] by (auto simp: shim_ready_def)
  moreover have "a \<notin> targets e" using at assms(4) by (auto simp: pollable_def)
  ultimately show ?thesis using at assms(2-4) by (auto simp: instance_ok_def)
qed

section \<open>Properties\<close>

text \<open>The kernel of the example: a socket that becomes readable once, and a clock that stands still.\<close>

lemma demo_kernel:
  "kqs_drain readable_once" "clock_runs readable_once (\<lambda>_. 100000000000)" "env_ok P (\<lambda>s. s) a"
proof -
  show "kqs_drain readable_once"
    unfolding kqs_drain_def
    by (intro allI drain_kq_total [where m = "\<lambda>w. if w = 0 then 1 else 0"]) (auto split: if_splits)
  show "clock_runs readable_once (\<lambda>_. 100000000000)"
    by (auto simp: clock_runs_def clock_ok_def ts_defs readable_once_def quiet_platform_def)
  show "env_ok P (\<lambda>s. s) a" by (auto simp: env_ok_def)
qed

abbreviation demo_buffers :: EpollFDCtx where
  "demo_buffers \<equiv> demo_epollfd\<lparr>pfds_length := 1, kevs_length := 15\<rparr>"

lemma shim_demo_prepare:
  "wait_prepare (shim_platform readable_once) demo_epollfd 3 4 (S, 0) = Some (Inr (Some 15), demo_buffers, S, 0)"
  by (simp add: wait_prepare_def epollfd_ctx_make_pfds_space_def epollfd_ctx_make_kevs_space_def
      epollfd_ctx_fill_pollfds_def wait_kevs_count_def demo_epollfd_def empty_epollfd_def fits32_def in_int32_def int_limits)

lemma shim_demo_batch: "batch_ok (shim_platform readable_once) demo_buffers [EV_SET 7 EVFILT_READ 0 0 0 (Some 16)]"
  by (simp add: batch_ok_def demo_epollfd_def empty_epollfd_def due_def delivery_ok_def is_fifo_self_trigger_def
     feed_filter_ok_def watched_def demo_node_def fresh_node_def)

lemma shim_demo_pass:
  "\<exists>e' s'. wait_pass (shim_platform readable_once) 3 4 15 demo_buffers (S, 0) =
     Some (Inr (1, [\<lparr>ev_events = EPOLLIN, ev_data = 0\<rparr>]), e', s')"
  by (simp add: wait_pass_def run_defs)

lemma shim_demo_serves: "serves (shim_platform readable_once) 3 4 15 demo_buffers (S, 0)"
proof (rule serves.pass)
  show "pass_ok (shim_platform readable_once) 3 4 15 demo_buffers (S, 0)"
    using shim_demo_batch by (auto simp: pass_ok_def) (clarsimp simp: run_defs)
qed (use shim_demo_pass [of S] in auto)

lemma demo_at:
  "epoll_at (demo_shim (Ctx_epollfd demo_epollfd) epollfd_vtable 0) 3 64
     \<lparr>refcount = 1, desc_locked = False, desc_flags = 0, desc_ctx = Ctx_epollfd demo_epollfd, desc_vtable = Some epollfd_vtable\<rparr>
     demo_epollfd"
  by (simp add: epoll_at_def demo_shim_def empty_shim_def shim_ready_def table_live_def epoll_shim_ctx_find_desc_impl_def)

lemma demo_attended:
  assumes "descs S 64 = Some d" "\<not> desc_locked d" "desc_ctx d = Ctx_epollfd demo_epollfd" "\<not> crashed S"
  shows "attended readable_once (\<lambda>s. s) 64 3 4 None t (S, 0)"
proof (rule attended.round)
  let ?S1 = "set_desc 64 (d\<lparr>desc_locked := True\<rparr>) S"
  show "pass_served readable_once 64 3 4 (S, 0)"
    using assms(1,3) shim_demo_prepare shim_demo_serves by (auto simp: pass_served_def)
  obtain e' s' where "wait_pass (shim_platform readable_once) 3 4 15 demo_buffers (?S1, 0) =
      Some (Inr (1, [\<lparr>ev_events = EPOLLIN, ev_data = 0\<rparr>]), e', s')"
    using shim_demo_pass [of ?S1] by blast
  then have "wait_again (shim_platform readable_once) 3 4 15 demo_buffers (?S1, 0) =
      Some (Inr [\<lparr>ev_events = EPOLLIN, ev_data = 0\<rparr>], e', s')"
    by (subst wait_again.simps) simp
  then have "epollfd_ctx_wait (shim_platform readable_once) demo_epollfd 3 4 (?S1, 0) =
      Some (Inr [\<lparr>ev_events = EPOLLIN, ev_data = 0\<rparr>], e', s')"
    by (simp add: epollfd_ctx_wait_def shim_demo_prepare)
  then have "on_epollfd 64 (\<lambda>e. epollfd_ctx_wait (shim_platform readable_once) e 3 4) (S, 0) \<noteq> Some (Inr [], s1)" for s1
    using assms by (auto simp: on_epollfd_def lock_desc_free split: Option.bind_splits prod.splits)
  then show "\<forall>s1 t' s2. on_epollfd 64 (\<lambda>e. epollfd_ctx_wait (shim_platform readable_once) e 3 4) (S, 0) = Some (Inr [], s1) \<and>
      (\<forall>dl. t \<noteq> Some (dl, ts_zero)) \<and> block_round readable_once (\<lambda>s. s) 64 3 t None s1 = Some (Inr t', s2) \<longrightarrow>
      attended readable_once (\<lambda>s. s) 64 3 4 None t' s2" by blast
qed



end
