(* ===== verification/Wrap.thy ===== *)
theory Wrap
  imports Platform
begin

text \<open>
  \<open>src/wrap.c\<close>: the system functions that the library replaces are looked up once with dlsym(3) and called
  through the pointers found. dlsym is a parameter: for a handle, a name and the value of \<open>errno\<close> it gives
  the address of the symbol, if there is one, and the new \<open>errno\<close>. \<open>None\<close> is the call of \<open>abort\<close>.
\<close>

section \<open>State and lookup\<close>

datatype dl_handle = RTLD_NEXT | RTLD_DEFAULT

type_synonym dlsym = "dl_handle \<Rightarrow> string \<Rightarrow> int \<Rightarrow> addr option \<times> int"

record wrap_state =
  wrap_init :: bool
  real_read_ptr :: "addr option"
  real_write_ptr :: "addr option"
  real_close_ptr :: "addr option"
  real_poll_ptr :: "addr option"
  real_ppoll_ptr :: "addr option"
  real_fcntl_ptr :: "addr option"

definition wrap_empty :: wrap_state where
  "wrap_empty = \<lparr>wrap_init = False, real_read_ptr = None, real_write_ptr = None, real_close_ptr = None,
     real_poll_ptr = None, real_ppoll_ptr = None, real_fcntl_ptr = None\<rparr>"

text \<open>The macro \<open>WRAP\<close>.\<close>

definition WRAP :: "dlsym \<Rightarrow> string \<Rightarrow> int \<Rightarrow> (addr \<times> int) option" where
  "WRAP dl name en =
     (case dl RTLD_NEXT name en of
        (Some f, en1) \<Rightarrow> Some (f, en1)
      | (None, en1) \<Rightarrow>
          (case dl RTLD_DEFAULT name en1 of
             (Some f, en2) \<Rightarrow> Some (f, en2)
           | (None, _) \<Rightarrow> None))"

text \<open>\<open>ppoll\<close> has another name on NetBSD and is not looked up on macOS.\<close>

definition ppoll_name :: "'w platform \<Rightarrow> string" where
  "ppoll_name P = (if cfg_NetBSD P then ''__pollts50'' else ''ppoll'')"

definition wrap_initialize_impl :: "'w platform \<Rightarrow> dlsym \<Rightarrow> wrap_state \<Rightarrow> int \<Rightarrow> (wrap_state \<times> int) option" where
  "wrap_initialize_impl P dl W en = do {
     (f1, en1) \<leftarrow> WRAP dl ''read'' en;
     (f2, en2) \<leftarrow> WRAP dl ''write'' en1;
     (f3, en3) \<leftarrow> WRAP dl ''close'' en2;
     (f4, en4) \<leftarrow> WRAP dl ''poll'' en3;
     (f5, en5) \<leftarrow> (if cfg_APPLE P then Some (real_ppoll_ptr W, en4)
                   else do { (f, en5) \<leftarrow> WRAP dl (ppoll_name P) en4; Some (Some f, en5) });
     (f6, en6) \<leftarrow> WRAP dl ''fcntl'' en5;
     Some (W\<lparr>real_read_ptr := Some f1, real_write_ptr := Some f2, real_close_ptr := Some f3,
             real_poll_ptr := Some f4, real_ppoll_ptr := f5, real_fcntl_ptr := Some f6\<rparr>, en6)
   }"

text \<open>\<open>pthread_once\<close> runs the initialisation in the first call; \<open>errno\<close> is restored.\<close>

definition wrap_initialize :: "'w platform \<Rightarrow> dlsym \<Rightarrow> wrap_state \<Rightarrow> int \<Rightarrow> (wrap_state \<times> int) option" where
  "wrap_initialize P dl W en = do {
     (W1, _) \<leftarrow> (if wrap_init W then Some (W, en) else wrap_initialize_impl P dl (W\<lparr>wrap_init := True\<rparr>) en);
     Some (W1, en)
   }"

section \<open>Calls\<close>

text \<open>
  The address a call goes to. On macOS \<open>real_ppoll\<close> is \<open>compat_ppoll\<close> of the library, which needs no lookup.
\<close>

definition call_through ::
  "'w platform \<Rightarrow> dlsym \<Rightarrow> (wrap_state \<Rightarrow> addr option) \<Rightarrow> wrap_state \<Rightarrow> int \<Rightarrow> (addr \<times> wrap_state \<times> int) option" where
  "call_through P dl ptr W en = do {
     (W1, en1) \<leftarrow> wrap_initialize P dl W en;
     f \<leftarrow> ptr W1;
     Some (f, W1, en1)
   }"

definition real_read :: "'w platform \<Rightarrow> dlsym \<Rightarrow> wrap_state \<Rightarrow> int \<Rightarrow> (addr \<times> wrap_state \<times> int) option" where
  "real_read P dl = call_through P dl real_read_ptr"

definition real_write :: "'w platform \<Rightarrow> dlsym \<Rightarrow> wrap_state \<Rightarrow> int \<Rightarrow> (addr \<times> wrap_state \<times> int) option" where
  "real_write P dl = call_through P dl real_write_ptr"

definition real_close :: "'w platform \<Rightarrow> dlsym \<Rightarrow> wrap_state \<Rightarrow> int \<Rightarrow> (addr \<times> wrap_state \<times> int) option" where
  "real_close P dl = call_through P dl real_close_ptr"

definition real_poll :: "'w platform \<Rightarrow> dlsym \<Rightarrow> wrap_state \<Rightarrow> int \<Rightarrow> (addr \<times> wrap_state \<times> int) option" where
  "real_poll P dl = call_through P dl real_poll_ptr"

definition real_ppoll_call ::
  "'w platform \<Rightarrow> dlsym \<Rightarrow> addr \<Rightarrow> wrap_state \<Rightarrow> int \<Rightarrow> (addr \<times> wrap_state \<times> int) option" where
  "real_ppoll_call P dl compat_ppoll W en =
     (if cfg_APPLE P then Some (compat_ppoll, W, en) else call_through P dl real_ppoll_ptr W en)"

definition real_fcntl :: "'w platform \<Rightarrow> dlsym \<Rightarrow> wrap_state \<Rightarrow> int \<Rightarrow> (addr \<times> wrap_state \<times> int) option" where
  "real_fcntl P dl = call_through P dl real_fcntl_ptr"

section \<open>What the lookup guarantees\<close>

text \<open>The pointers that are called on a platform.\<close>

definition real_ptrs :: "'w platform \<Rightarrow> (wrap_state \<Rightarrow> addr option) set" where
  "real_ptrs P = {real_read_ptr, real_write_ptr, real_close_ptr, real_poll_ptr, real_fcntl_ptr} \<union>
     (if cfg_APPLE P then {} else {real_ppoll_ptr})"

text \<open>After the initialisation every pointer is set, and to a function outside of the library.\<close>

definition wrap_wf :: "'w platform \<Rightarrow> addr set \<Rightarrow> wrap_state \<Rightarrow> bool" where
  "wrap_wf P own W \<longleftrightarrow> (wrap_init W \<longrightarrow> (\<forall>ptr \<in> real_ptrs P. \<exists>f. ptr W = Some f \<and> f \<notin> own))"

text \<open>The system library comes after the library in the search order.\<close>

definition libc_next :: "dlsym \<Rightarrow> addr set \<Rightarrow> bool" where
  "libc_next dl own \<longleftrightarrow> (\<forall>name en. \<exists>f en'. dl RTLD_NEXT name en = (Some f, en') \<and> f \<notin> own)"

lemma wrap_wf_empty [simp]: "wrap_wf P own wrap_empty"
  by (simp add: wrap_wf_def wrap_empty_def)

lemma WRAP_next:
  assumes "libc_next dl own"
  obtains f en' where "WRAP dl name en = Some (f, en')" "f \<notin> own"
proof -
  obtain f en' where "dl RTLD_NEXT name en = (Some f, en')" "f \<notin> own" using assms unfolding libc_next_def by blast
  then show thesis by (intro that [of f en']) (simp_all add: WRAP_def)
qed

lemma wrap_initialize_impl_step:
  assumes "libc_next dl own"
  obtains W' en' where "wrap_initialize_impl P dl W en = Some (W', en')" "wrap_wf P own W'" "wrap_init W' = wrap_init W"
proof -
  obtain f1 e1 where 1: "WRAP dl ''read'' en = Some (f1, e1)" "f1 \<notin> own" by (rule WRAP_next [OF assms])
  obtain f2 e2 where 2: "WRAP dl ''write'' e1 = Some (f2, e2)" "f2 \<notin> own" by (rule WRAP_next [OF assms])
  obtain f3 e3 where 3: "WRAP dl ''close'' e2 = Some (f3, e3)" "f3 \<notin> own" by (rule WRAP_next [OF assms])
  obtain f4 e4 where 4: "WRAP dl ''poll'' e3 = Some (f4, e4)" "f4 \<notin> own" by (rule WRAP_next [OF assms])
  obtain f5 e5 where 5: "WRAP dl (ppoll_name P) e4 = Some (f5, e5)" "f5 \<notin> own" by (rule WRAP_next [OF assms])
  obtain f6 e6 where 6: "WRAP dl ''fcntl'' (if cfg_APPLE P then e4 else e5) = Some (f6, e6)" "f6 \<notin> own"
    by (rule WRAP_next [OF assms])
  let ?W = "W\<lparr>real_read_ptr := Some f1, real_write_ptr := Some f2, real_close_ptr := Some f3, real_poll_ptr := Some f4,
      real_ppoll_ptr := (if cfg_APPLE P then real_ppoll_ptr W else Some f5), real_fcntl_ptr := Some f6\<rparr>"
  have "wrap_initialize_impl P dl W en = Some (?W, e6)"
    using 1 2 3 4 5 6 by (cases "cfg_APPLE P") (simp_all add: wrap_initialize_impl_def)
  moreover have "wrap_wf P own ?W" using 1 2 3 4 5 6 by (auto simp: wrap_wf_def real_ptrs_def)
  ultimately show thesis by (rule that) simp
qed

lemma wrap_initialize_step:
  assumes "libc_next dl own" "wrap_wf P own W"
  obtains W' where "wrap_initialize P dl W en = Some (W', en)" "wrap_wf P own W'" "wrap_init W'"
proof (cases "wrap_init W")
  case True
  then show thesis using that assms(2) by (simp add: wrap_initialize_def)
next
  case False
  obtain W' en' where "wrap_initialize_impl P dl (W\<lparr>wrap_init := True\<rparr>) en = Some (W', en')" "wrap_wf P own W'" "wrap_init W'"
    by (rule wrap_initialize_impl_step [OF assms(1), of P "W\<lparr>wrap_init := True\<rparr>" en]) simp
  then show thesis using that False by (simp add: wrap_initialize_def)
qed

section \<open>Properties\<close>



end
