(* ===== verification/Spec2Isabelle.thy ===== *)
theory Spec2Isabelle
  imports Shim_Calls Shim_Close Shim_Open Epoll_Waits Wrap
begin

text \<open>
  A model of epoll-shim, the library that implements the Linux interfaces epoll, eventfd, timerfd and
  signalfd on top of kqueue(2), and of what makes it correct.

  \<^bold>\<open>The program.\<close> Every descriptor of the library is a kqueue. \<open>src/epoll_shim_ctx.c\<close> keeps a table from
  descriptors to reference-counted descriptions; a description has a mutex, flags, a context and a
  table of virtual functions. The contexts are the state machines of the four interfaces
  (\<open>src/epollfd_ctx.c\<close>, \<open>src/eventfd_ctx.c\<close>, \<open>src/timerfd_ctx.c\<close>, \<open>src/signalfd_ctx.c\<close>); the files
  \<open>src/epoll.c\<close>, \<open>src/eventfd.c\<close>, \<open>src/timerfd.c\<close> and \<open>src/signalfd.c\<close> put the calls of a program on top of
  them. A call finds the description, takes a reference and the mutex, runs the operation of the context,
  and gives both back; a call that has to wait gives up the mutex and polls the kqueue. An epoll context
  may watch other descriptions through the callbacks of \<open>src/pollable_desc.h\<close>. \<open>read\<close>, \<open>write\<close>,
  \<open>close\<close>, \<open>poll\<close>, \<open>ppoll\<close> and \<open>fcntl\<close> of the program arrive at the replacements in
  \<open>src/epoll_shim_ctx.c\<close>, which call the functions of the system through \<open>src/wrap.c\<close> for descriptors that
  are not the library's. The table is guarded by the reader-writer lock of \<open>src/rwlock.c\<close>.

  \<^bold>\<open>How it is modelled.\<close> An operation is a HOL function with the name of the C function. It takes the
  configuration and the system (the record \<open>platform\<close>), the state, and the world \<open>'w\<close> of the
  system, and returns a result, the new state and the new world. Errors are values of \<open>errno + 'a\<close>. The
  result is an \<open>option\<close> where the code can fail an assertion, run into undefined behaviour, wait for a
  lock it holds itself, or not return; that is the value \<open>None\<close>, so a theorem that a call gives \<open>Some\<close>
  shows that none of this happens. Loops whose end depends on the system are \<open>partial_function (option)\<close>,
  there is no fuel; the theorems about them prove the result \<open>Some\<close>. Machine integers are words
  or integers with the wrap-around written out. Memory with aliasing (nodes, descriptions) is a store
  indexed by addresses. Pointers of callers are values: buffers are lists of bytes, stored with the
  least significant byte first.

  \<^bold>\<open>The theories\<close>, each importing those it builds on:

  \<^item> \<open>Prelude\<close>: the conventions for failure, the checked arithmetic of the compiler builtins, bit lemmas.

  \<^item> \<open>Platform\<close>: constants and structures of the system interfaces, and the record of the functions and
    preprocessor symbols the sources use. The hypothesis \<open>platform_ok\<close> says what is relied on (lengths of
    arrays that are filled, receipts for changes, and so on); \<open>quiet_platform\<close> is an instance.

  \<^item> \<open>Timespec\<close> (\<open>src/timespec_util.c\<close>): comparison and overflow-checked arithmetic on times.

  \<^item> \<open>Timerfd_Ctx\<close> (\<open>src/timerfd_ctx.c\<close>): one timer. The expirations counted are those that
    have elapsed, no assertion fails, a read returns them once, gettime after settime gives back the
    setting, the timeout programmed into the kernel is never too short.

  \<^item> \<open>Kqueue_Event\<close> (\<open>src/kqueue_event.c\<close>): the flag that makes a kqueue readable, with \<open>EVFILT_USER\<close> or with
    a pipe. The locale \<open>event_flag\<close> is its contract.

  \<^item> \<open>Eventfd_Ctx\<close> (\<open>src/eventfd_ctx.c\<close>): the counter. Its operations refine the counter of eventfd(2), and
    the flag is raised when the counter is positive.

  \<^item> \<open>Signalfd_Ctx\<close> (\<open>src/signalfd_ctx.c\<close>): the watched signals, for the three ways to fetch a signal.

  \<^item> \<open>Epoll_Node\<close> (\<open>src/epollfd_ctx.c\<close>, first part): one registered descriptor, the kqueue filters it
    needs and how a kevent becomes epoll events. \<open>delivery_ok\<close> says which kevents a filter can deliver.

  \<^item> \<open>Fd_Set\<close>: the ordered table that the red-black tree macros implement, with its laws as a locale.

  \<^item> \<open>Epollfd_Ctx\<close> (\<open>src/epollfd_ctx.c\<close>, second part): the context of one epoll instance: ctl, wait, removal.

  \<^item> \<open>Epollfd_Inv\<close>, \<open>Epollfd_Ctl\<close>: the invariant \<open>epoll_wf\<close> of the context, its preservation, and that ctl
    implements the interest list of epoll(7).

  \<^item> \<open>Epollfd_Wait\<close>: that waiting returns, reports only what was asked for, every descriptor once and
    within the buffer, and reports every event that the kernel delivers for a registration.

  \<^item> \<open>RWLock\<close> (\<open>src/rwlock.c\<close>): the atomic steps of the lock as a step relation on any number of threads;
    mutual exclusion, absence of lost wake-ups, bounds of the counters, termination.

  \<^item> \<open>Compat\<close> (\<open>src/compat_*.c\<close>): the substitutes for kqueue1, pipe2, socket, socketpair, ppoll and the signal
    set operations.

  \<^item> \<open>File_Desc\<close> (\<open>src/epoll_shim_ctx.c\<close>, first part): reference counts, destruction, clock monitoring, and
    \<open>shim_platform\<close>, the system as an epoll context sees it, whose callbacks reach into the store of
    descriptions.

  \<^item> \<open>Shim_Ctx\<close> (second part): the table, its growth, removal of a closed descriptor, the
    clock-step thread.

  \<^item> \<open>Blocking\<close>: reading that waits, once for the three kinds of descriptors that can be read, as a locale.

  \<^item> \<open>Eventfd_Api\<close>, \<open>Timerfd_Api\<close>, \<open>Signalfd_Api\<close>, \<open>Epoll_Api\<close>: \<open>src/eventfd.c\<close>, \<open>src/timerfd.c\<close>,
    \<open>src/signalfd.c\<close>, \<open>src/epoll.c\<close>.

  \<^item> \<open>Shim_Api\<close> (\<open>src/epoll_shim_ctx.c\<close>, third part): the replacements of the system functions.

  \<^item> \<open>Epoll_Lift\<close>: the operations of an epoll context on \<open>shim_platform\<close> are those on the plain platform.

  \<^item> \<open>Epoll_Frame\<close>: the locale \<open>world_frame\<close>. An invariant of the world that the system calls and the poll
    callbacks keep is kept by a whole wait. It is interpreted for the time of the clock and for the shared
    state of the library.

  \<^item> \<open>Shim_Calls\<close>, \<open>Shim_Open\<close>, \<open>Shim_Close\<close>, \<open>Epoll_Calls\<close>, \<open>Epoll_Waits\<close>: properties of whole calls, through
    table, reference, mutex and virtual function: reading and writing, creating, closing, \<open>epoll_ctl\<close>, and
    \<open>epoll_wait\<close> with its timeout and its callbacks into timers and signal descriptors.

  \<^item> \<open>Wrap\<close> (\<open>src/wrap.c\<close>): the lookup of the replaced functions.

  \<^bold>\<open>Hypotheses.\<close> \<open>platform_ok\<close>, \<open>rdhup_ok\<close> and \<open>fifos_ok\<close> describe the system and its constants;
  \<open>batch_ok\<close> and \<open>due\<close> describe the kevents that a call of kevent(2) may return for the registered filters,
  \<open>serves\<close> and \<open>completes\<close> that it eventually returns them; \<open>malloc_fresh\<close> and \<open>creates_fresh\<close> that
  memory and descriptors are new; \<open>kqs_drain\<close> that a kqueue can be emptied; \<open>clock_runs\<close> that the monotonic clock does
  not go back; \<open>env_ok\<close> and \<open>attended\<close> what other threads leave intact during a wait and that the wait is
  eventually answered; \<open>libc_next\<close> the order of libraries. Each theorem with hypotheses is followed by an instance.

  \<^bold>\<open>Threads.\<close> The reader-writer lock is modelled with all interleavings. The other operations
  run under the lock of the table or the mutex of a description and are modelled as one step; a call that
  waits takes a parameter \<open>env\<close>, what other threads do to the shared state meanwhile.

  \<^bold>\<open>Not modelled.\<close> The macros and functions of the interposition (\<open>src/epoll_shim_interpose.c\<close>, the
  headers below \<open>include/epoll-shim\<close>), which only forward; \<open>src/compat_itimerspec.h\<close> and
  \<open>src/compat_sem.h\<close>, a type and names for libdispatch; the storage of \<open>errno\<close> in the outermost
  wrappers; the vendored containers and the test framework below \<open>external\<close>, of which the queue is a list
  and the tree an ordered table; the tests.
\<close>

end
